(* ===== verification/Prelude.thy ===== *)
theory Prelude
  imports "HOL-Library.Code_Target_Nat" Main "HOL-Library.Word" "HOL-Library.Multiset"
begin

unbundle bit_operations_syntax

text \<open>
  What the components of the development share: the machine integers of the
  Rust sources, the result type in which panics, undefined behaviour and
  ordinary errors are values, the two ways of sequencing fallible code
  (\<open>res_bind\<close> for pure code, \<open>act_bind\<close> for code that threads a state which
  survives an error), and the generic facts on lists and words that the component
  proofs rely on. The modelled target is a 64-bit little-endian one: \<open>usize\<close> is a
  64-bit word wherever the sources compute with it bitwise, and a \<open>nat\<close> where it
  is the length of a slice.
\<close>

section \<open>Machine types\<close>

type_synonym u8 = "8 word"
type_synonym u16 = "16 word"
type_synonym u32 = "32 word"
type_synonym usize = "64 word"

text \<open>
  A Rust \<open>&str\<close> is its UTF-8 bytes; that the bytes are well formed is the predicate
  \<open>valid_utf8\<close> of theory \<open>Byte_IO\<close>.
\<close>

type_synonym rstr = "u8 list"

definition str_bytes :: "string \<Rightarrow> rstr" where
  "str_bytes s = map of_char s"

section \<open>Results\<close>

text \<open>
  \<open>Panic\<close> is a Rust panic with its message, \<open>UB\<close> a violated safety condition of an
  \<open>unsafe\<close> block, \<open>Err\<close> the \<open>Err\<close> of a \<open>Result\<close>.
\<close>

datatype 'e fault = Panic string | UB string | Err 'e

type_synonym ('e, 'a) result = "'e fault + 'a"

fun res_bind :: "('e, 'a) result \<Rightarrow> ('a \<Rightarrow> ('e, 'b) result) \<Rightarrow> ('e, 'b) result" where
  "res_bind (Inl f) k = Inl f"
| "res_bind (Inr a) k = k a"

fun map_fault :: "('e \<Rightarrow> 'f) \<Rightarrow> 'e fault \<Rightarrow> 'f fault" where
  "map_fault g (Panic m) = Panic m"
| "map_fault g (UB m) = UB m"
| "map_fault g (Err e) = Err (g e)"

fun map_err :: "('e \<Rightarrow> 'f) \<Rightarrow> ('e, 'a) result \<Rightarrow> ('f, 'a) result" where
  "map_err g (Inl f) = Inl (map_fault g f)"
| "map_err g (Inr a) = Inr a"

definition is_Err :: "('e, 'a) result \<Rightarrow> bool" where
  "is_Err r = (case r of Inl (Err _) \<Rightarrow> True | _ \<Rightarrow> False)"

text \<open>Neither a panic nor undefined behaviour: the outcomes that safe code may have.\<close>

definition no_crash :: "('e, 'a) result \<Rightarrow> bool" where
  "no_crash r = (case r of Inl (Panic _) \<Rightarrow> False | Inl (UB _) \<Rightarrow> False | _ \<Rightarrow> True)"

lemma no_crash_simps [simp]:
  "no_crash (Inr a)" "no_crash (Inl (Err e))"
  "\<not> no_crash (Inl (Panic m))" "\<not> no_crash (Inl (UB m))"
  by (simp_all add: no_crash_def)

lemma no_crash_bind [intro]:
  assumes "no_crash r" and "\<And>a. r = Inr a \<Longrightarrow> no_crash (k a)"
  shows "no_crash (res_bind r k)"
  using assms by (cases r) (auto simp: no_crash_def)

lemma no_crash_map_err [simp]: "no_crash (map_err g r) = no_crash r"
proof (cases r)
  case (Inl f)
  then show ?thesis by (cases f) auto
qed auto

lemma res_bind_eq_Inr:
  "res_bind r k = Inr b \<longleftrightarrow> (\<exists>a. r = Inr a \<and> k a = Inr b)"
  by (cases r) auto

lemma map_err_eq_Inr [simp]: "map_err g r = Inr a \<longleftrightarrow> r = Inr a"
  by (cases r) auto

lemma res_bind_assoc:
  "res_bind (res_bind r k) h = res_bind r (\<lambda>a. res_bind (k a) h)"
  by (cases r) auto

section \<open>Stateful code\<close>

text \<open>
  A method taking \<open>&mut self\<close> and returning a \<open>Result\<close> keeps the changes it made
  before an early return, so the state is returned beside the result.
\<close>

type_synonym ('s, 'e, 'a) act = "'s \<Rightarrow> ('e, 'a) result \<times> 's"

definition act_return :: "'a \<Rightarrow> ('s, 'e, 'a) act" where
  "act_return a s = (Inr a, s)"

definition act_fail :: "'e fault \<Rightarrow> ('s, 'e, 'a) act" where
  "act_fail f s = (Inl f, s)"

definition act_bind :: "('s, 'e, 'a) act \<Rightarrow> ('a \<Rightarrow> ('s, 'e, 'b) act) \<Rightarrow> ('s, 'e, 'b) act" where
  "act_bind m k s = (case m s of (Inl f, s') \<Rightarrow> (Inl f, s') | (Inr a, s') \<Rightarrow> k a s')"

definition act_modify :: "('s \<Rightarrow> 's) \<Rightarrow> ('s, 'e, unit) act" where
  "act_modify f s = (Inr (), f s)"

definition act_get :: "('s \<Rightarrow> 'a) \<Rightarrow> ('s, 'e, 'a) act" where
  "act_get f s = (Inr (f s), s)"

text \<open>A method call on a field of the state.\<close>

definition act_zoom ::
    "('s \<Rightarrow> 't) \<Rightarrow> ('t \<Rightarrow> 's \<Rightarrow> 's) \<Rightarrow> ('t, 'e, 'a) act \<Rightarrow> ('s, 'e, 'a) act" where
  "act_zoom sel upd m s = (case m (sel s) of (r, t) \<Rightarrow> (r, upd t s))"

named_theorems act_simps \<open>unfolding of the sequencing combinators\<close>

lemmas act_defs [act_simps] =
  act_return_def act_fail_def act_modify_def act_get_def

lemma act_bind_Inr: "m s = (Inr a, s') \<Longrightarrow> act_bind m k s = k a s'"
  by (simp add: act_bind_def)

lemma act_bind_Inl: "m s = (Inl f, s') \<Longrightarrow> act_bind m k s = (Inl f, s')"
  by (simp add: act_bind_def)

lemma act_bind_eq_Inr:
  "act_bind m k s = (Inr b, s'') \<longleftrightarrow>
     (\<exists>a s'. m s = (Inr a, s') \<and> k a s' = (Inr b, s''))"
  by (auto simp: act_bind_def split: prod.splits sum.splits)

lemma act_bind_eq_Inl:
  "act_bind m k s = (Inl f, s'') \<longleftrightarrow>
     m s = (Inl f, s'') \<or> (\<exists>a s'. m s = (Inr a, s') \<and> k a s' = (Inl f, s''))"
  by (auto simp: act_bind_def split: prod.splits sum.splits)

lemma act_zoom_eq:
  "act_zoom sel upd m s = (r, s') \<longleftrightarrow> (\<exists>t. m (sel s) = (r, t) \<and> s' = upd t s)"
  by (auto simp: act_zoom_def split: prod.splits)

section \<open>Lists\<close>

lemma take_append_drop_mid:
  assumes "n = length xs"
  shows "take n (xs @ ys) = xs" "drop n (xs @ ys) = ys"
  using assms by simp_all

lemma list_all_Some_map:
  "list_all (\<lambda>x. x \<noteq> None) xs \<Longrightarrow> map Some (map the xs) = xs"
  by (induction xs) auto

lemma map_the_map_Some [simp]: "map the (map Some xs) = xs"
  by (induction xs) auto

lemma list_all_map_Some [simp]: "list_all (\<lambda>x. x \<noteq> None) (map Some xs)"
  by (induction xs) auto

section \<open>Words\<close>

lemma unat_of_nat_less:
  assumes "n < 2 ^ LENGTH('a)"
  shows "unat (of_nat n :: 'a::len word) = n"
  using assms by (simp add: unat_of_nat take_bit_nat_eq_self)

end
