(* ===== verification/Errors.thy ===== *)
theory Errors
  imports Prelude
begin

text \<open>
  The error values of \<open>errors.rs\<close>, and \<open>std::io::Error\<close> as far as the sources
  build and inspect it: its kind, and the boxed payload of \<open>io::Error::new\<close>.
\<close>

section \<open>Connection and command errors\<close>

datatype server_connect_error =
    UnacceptableProtocolVersion
  | IdentifierRejected
  | ServerUnavailable
  | BadUserNameOrPassword
  | NotAuthorized
  | Unknown u8
  | ProtocolError

datatype timeout_kind = DnsLookup | TcpConnect | MqttConnect

datatype publish_error = PubTransceiverTaskTerminated

datatype try_publish_error = QueueFull | TryTransceiverTaskTerminated

datatype subscribe_error = RefusedByBroker | SubTransceiverTaskTerminated

section \<open>Decoding errors\<close>

text \<open>
  \<open>std::str::Utf8Error\<close>: the length of the valid prefix, and the length of the
  offending sequence when it is not merely cut short.
\<close>

record utf8_error =
  valid_up_to :: nat
  error_len :: "nat option"

datatype packet_decode_error =
    ReachedEndUnexpectedly
  | Utf8Error utf8_error
  | MalformedPacket
  | ReachedMaxSize
  | InvalidPacketId u8

definition hex_digit :: "nat \<Rightarrow> char" where
  "hex_digit n = (''0123456789abcdef'' ! n)"

text \<open>The format \<open>{:02x}\<close> of a byte.\<close>

definition fmt_02x :: "u8 \<Rightarrow> string" where
  "fmt_02x b = [hex_digit (unat b div 16), hex_digit (unat b mod 16)]"

fun fmt_packet_decode_error :: "packet_decode_error \<Rightarrow> string" where
  "fmt_packet_decode_error ReachedEndUnexpectedly = ''reached end of packet unexpectedly''"
| "fmt_packet_decode_error (Utf8Error _) = ''invalid utf-8 found in packet''"
| "fmt_packet_decode_error MalformedPacket = ''packet contained invalid values''"
| "fmt_packet_decode_error ReachedMaxSize = ''maximum packet size reached''"
| "fmt_packet_decode_error (InvalidPacketId pid) =
     ''packet with id 0x'' @ fmt_02x pid @ '' is invalid''"

fun source_packet_decode_error :: "packet_decode_error \<Rightarrow> utf8_error option" where
  "source_packet_decode_error ReachedEndUnexpectedly = None"
| "source_packet_decode_error (Utf8Error src) = Some src"
| "source_packet_decode_error MalformedPacket = None"
| "source_packet_decode_error ReachedMaxSize = None"
| "source_packet_decode_error (InvalidPacketId _) = None"

section \<open>IO errors\<close>

datatype io_error_kind =
    WouldBlock
  | UnexpectedEof
  | ConnectionReset
  | AddrInUse
  | PermissionDenied
  | Other
  | OsKind nat

text \<open>The boxed error of \<open>io::Error::new\<close>; a TLS error is opaque.\<close>

datatype io_payload = NoPayload | DecodePayload packet_decode_error | MessagePayload string | TlsPayload nat

datatype io_error = IoError (io_kind: io_error_kind) (io_payload: io_payload)

abbreviation would_block :: io_error where
  "would_block \<equiv> IoError WouldBlock NoPayload"

definition into_io_error :: "packet_decode_error \<Rightarrow> io_error" where
  "into_io_error e = IoError Other (DecodePayload e)"

datatype connect_error =
    InvalidHostname
  | TlsError nat
  | ConnIoError io_error
  | LookupHostError io_error
  | HostnameNotFound
  | Timeout timeout_kind
  | OneshotRecvError
  | ServerError server_connect_error

lemma into_io_error_not_would_block [simp]: "io_kind (into_io_error e) \<noteq> WouldBlock"
  by (simp add: into_io_error_def)

lemma into_io_error_inj [simp]: "into_io_error a = into_io_error b \<longleftrightarrow> a = b"
  by (simp add: into_io_error_def)

end
