(* ===== verification/Byte_IO.thy ===== *)
theory Byte_IO
  imports Errors
begin

unbundle bit_operations_syntax

text \<open>
  \<open>transceiver/byte_io.rs\<close>: big-endian integers, the \<open>ByteReader\<close> that eats a slice
  from the front, and the \<open>ByteWriter\<close> that fills an uninitialised slice. A read
  returns the value with the rest of the slice; the reader after a failed read is never
  looked at by the callers, so a failed read returns the error alone. The raw copies
  of the \<open>unsafe\<close> blocks are \<open>ptr_read\<close> and \<open>ptr_copy\<close>, which yield \<open>UB\<close> when they
  leave the slice, and \<open>assume_init\<close>, which yields \<open>UB\<close> on an uninitialised byte.
\<close>

section \<open>Integers in memory\<close>

text \<open>The bytes of a \<open>u16\<close> in memory, on a little-endian target.\<close>

definition u16_to_mem :: "u16 \<Rightarrow> u8 list" where
  "u16_to_mem v = [ucast v, ucast (drop_bit 8 v)]"

definition u16_of_mem :: "u8 list \<Rightarrow> u16" where
  "u16_of_mem bs = ucast (bs ! 0) OR push_bit 8 (ucast (bs ! 1))"

definition swap_bytes :: "u16 \<Rightarrow> u16" where
  "swap_bytes v = push_bit 8 v OR drop_bit 8 v"

definition to_be :: "u16 \<Rightarrow> u16" where
  "to_be v = swap_bytes v"

definition from_be :: "u16 \<Rightarrow> u16" where
  "from_be v = swap_bytes v"

datatype big_endian = BigEndian (be_raw: u16)

definition from_native :: "u16 \<Rightarrow> big_endian" where
  "from_native val = BigEndian (to_be val)"

definition to_native :: "big_endian \<Rightarrow> u16" where
  "to_native b = from_be (be_raw b)"

text \<open>The bytes of a \<open>u16\<close> on the wire, most significant first.\<close>

definition be_bytes :: "u16 \<Rightarrow> u8 list" where
  "be_bytes v = [ucast (drop_bit 8 v), ucast v]"

lemma length_be_bytes [simp]: "length (be_bytes v) = 2"
  by (simp add: be_bytes_def)

lemma length_u16_to_mem [simp]: "length (u16_to_mem v) = 2"
  by (simp add: u16_to_mem_def)

lemma u16_to_mem_to_be [simp]: "u16_to_mem (to_be v) = be_bytes v"
proof -
  have "(ucast (push_bit 8 v OR drop_bit 8 v) :: u8) = ucast (drop_bit 8 v)"
    by (rule bit_word_eqI) (auto simp: bit_simps)
  moreover have "(ucast (drop_bit 8 (push_bit 8 v OR drop_bit 8 v)) :: u8) = ucast v"
    by (rule bit_word_eqI) (auto simp: bit_simps)
  ultimately show ?thesis
    by (simp add: u16_to_mem_def to_be_def swap_bytes_def be_bytes_def)
qed

lemma from_be_of_mem [simp]: "from_be (u16_of_mem (be_bytes v)) = v"
  unfolding from_be_def swap_bytes_def u16_of_mem_def be_bytes_def
  by (rule bit_word_eqI) (auto simp: bit_simps)

lemma u16_of_mem_be: "u16_of_mem (be_bytes v) = to_be v"
  unfolding u16_of_mem_def be_bytes_def to_be_def swap_bytes_def
  by (rule bit_word_eqI) (auto simp: bit_simps dest: bit_imp_le_length)

lemma to_native_from_native [simp]: "to_native (from_native v) = v"
  unfolding to_native_def from_native_def from_be_def to_be_def swap_bytes_def
  by (simp, rule bit_word_eqI) (auto simp: bit_simps)

section \<open>ByteReader\<close>

type_synonym byte_reader = "u8 list"

type_synonym 'a read_result = "(packet_decode_error, 'a \<times> byte_reader) result"

definition reader_new :: "u8 list \<Rightarrow> byte_reader" where
  "reader_new bytes = bytes"

definition read_u8 :: "byte_reader \<Rightarrow> u8 read_result" where
  "read_u8 rd =
     (if length rd < 1 then Inl (Err ReachedEndUnexpectedly)
      else Inr (rd ! 0, drop 1 rd))"

text \<open>\<open>ptr::read_unaligned\<close> of \<open>sz\<close> bytes at the start of a slice.\<close>

definition ptr_read :: "nat \<Rightarrow> u8 list \<Rightarrow> ('e, u8 list) result" where
  "ptr_read sz rd = (if length rd < sz then Inl (UB ''read past the end'') else Inr (take sz rd))"

text \<open>A \<open>Copy\<close> type is its size and the interpretation of its bytes.\<close>

definition read_trivial :: "nat \<Rightarrow> (u8 list \<Rightarrow> 'a) \<Rightarrow> byte_reader \<Rightarrow> 'a read_result" where
  "read_trivial sz of_mem rd =
     (if length rd < sz then Inl (Err ReachedEndUnexpectedly)
      else res_bind (ptr_read sz rd) (\<lambda>ret.
           Inr (of_mem ret, drop sz rd)))"

definition read_u16 :: "byte_reader \<Rightarrow> big_endian read_result" where
  "read_u16 rd =
     res_bind (read_trivial 2 u16_of_mem rd) (\<lambda>(x, rd). Inr (BigEndian x, rd))"

definition read_byte_array :: "byte_reader \<Rightarrow> u8 list read_result" where
  "read_byte_array rd =
     res_bind (read_trivial 2 u16_of_mem rd) (\<lambda>(raw, rd).
       let len = unat (from_be raw) in
       if length rd < len then Inl (Err ReachedEndUnexpectedly)
       else Inr (take len rd, drop len rd))"

definition remaining :: "byte_reader \<Rightarrow> nat" where
  "remaining rd = length rd"

definition read_remaining :: "byte_reader \<Rightarrow> u8 list \<times> byte_reader" where
  "read_remaining rd = (rd, [])"

section \<open>UTF-8\<close>

text \<open>
  \<open>str::from_utf8\<close>: the well-formed sequences of the Unicode standard, and for
  malformed input the position and the length that \<open>Utf8Error\<close> reports.
\<close>

definition utf8_cont :: "u8 \<Rightarrow> bool" where
  "utf8_cont b = (0x80 \<le> b \<and> b \<le> 0xBF)"

text \<open>The second byte allowed after the first byte of a three- or four-byte sequence.\<close>

definition utf8_second3 :: "u8 \<Rightarrow> u8 \<Rightarrow> bool" where
  "utf8_second3 b c =
     (if b = 0xE0 then 0xA0 \<le> c \<and> c \<le> 0xBF
      else if b = 0xED then 0x80 \<le> c \<and> c \<le> 0x9F
      else utf8_cont c)"

definition utf8_second4 :: "u8 \<Rightarrow> u8 \<Rightarrow> bool" where
  "utf8_second4 b c =
     (if b = 0xF0 then 0x90 \<le> c \<and> c \<le> 0xBF
      else if b = 0xF4 then 0x80 \<le> c \<and> c \<le> 0x8F
      else utf8_cont c)"

text \<open>The length of the sequence at the front, or the error length of a malformed one.\<close>

definition utf8_next :: "u8 list \<Rightarrow> nat option + nat" where
  "utf8_next bs =
     (case bs of
        [] \<Rightarrow> Inl None
      | b # bs \<Rightarrow>
          if b < 0x80 then Inr 1
          else if 0xC2 \<le> b \<and> b \<le> 0xDF then
            (case bs of
               [] \<Rightarrow> Inl None
             | c # _ \<Rightarrow> if utf8_cont c then Inr 2 else Inl (Some 1))
          else if 0xE0 \<le> b \<and> b \<le> 0xEF then
            (case bs of
               [] \<Rightarrow> Inl None
             | c # cs \<Rightarrow>
                 if \<not> utf8_second3 b c then Inl (Some 1)
                 else (case cs of
                         [] \<Rightarrow> Inl None
                       | d # _ \<Rightarrow> if utf8_cont d then Inr 3 else Inl (Some 2)))
          else if 0xF0 \<le> b \<and> b \<le> 0xF4 then
            (case bs of
               [] \<Rightarrow> Inl None
             | c # cs \<Rightarrow>
                 if \<not> utf8_second4 b c then Inl (Some 1)
                 else (case cs of
                         [] \<Rightarrow> Inl None
                       | d # ds \<Rightarrow>
                           if \<not> utf8_cont d then Inl (Some 2)
                           else (case ds of
                                   [] \<Rightarrow> Inl None
                                 | e # _ \<Rightarrow> if utf8_cont e then Inr 4 else Inl (Some 3))))
          else Inl (Some 1))"

lemma utf8_next_pos: "utf8_next bs = Inr n \<Longrightarrow> 0 < n \<and> bs \<noteq> []"
  by (auto simp: utf8_next_def split: list.splits if_splits)

function utf8_run :: "nat \<Rightarrow> u8 list \<Rightarrow> utf8_error option" where
  "utf8_run i bs =
     (if bs = [] then None
      else case utf8_next bs of
             Inr n \<Rightarrow> utf8_run (i + n) (drop n bs)
           | Inl el \<Rightarrow> Some \<lparr>valid_up_to = i, error_len = el\<rparr>)"
  by pat_completeness auto
termination
  by (relation "measure (\<lambda>(i, bs). length bs)") (auto dest!: utf8_next_pos)

declare utf8_run.simps [simp del]

definition from_utf8 :: "u8 list \<Rightarrow> (utf8_error, rstr) result" where
  "from_utf8 bs = (case utf8_run 0 bs of None \<Rightarrow> Inr bs | Some e \<Rightarrow> Inl (Err e))"

definition valid_utf8 :: "u8 list \<Rightarrow> bool" where
  "valid_utf8 bs = (utf8_run 0 bs = None)"

text \<open>Validity does not depend on the position the scan starts counting from.\<close>

lemma utf8_run_shift: "(utf8_run i bs = None) = (utf8_run j bs = None)"
proof (induction i bs arbitrary: j rule: utf8_run.induct)
  case (1 i bs)
  show ?case
  proof (cases "utf8_next bs")
    case (Inr n)
    with 1 [of n "j + n"] show ?thesis
      by (simp add: utf8_run.simps [of i bs] utf8_run.simps [of j bs])
  qed (simp add: utf8_run.simps [of i bs] utf8_run.simps [of j bs])
qed

lemma valid_utf8_Nil [simp]: "valid_utf8 []"
  by (simp add: valid_utf8_def utf8_run.simps)

lemma valid_utf8_ascii_Cons [simp]: "b < 0x80 \<Longrightarrow> valid_utf8 (b # bs) = valid_utf8 bs"
  unfolding valid_utf8_def
  by (subst utf8_run.simps) (simp add: utf8_next_def utf8_run_shift [of "Suc 0" _ 0])

lemma valid_utf8_ascii: "\<forall>b \<in> set bs. b < 0x80 \<Longrightarrow> valid_utf8 bs"
  by (induction bs) auto

lemma from_utf8_valid: "valid_utf8 bs \<Longrightarrow> from_utf8 bs = Inr bs"
  by (simp add: valid_utf8_def from_utf8_def)

lemma from_utf8_eq_Inr: "from_utf8 bs = Inr s \<longleftrightarrow> valid_utf8 bs \<and> s = bs"
  by (auto simp: valid_utf8_def from_utf8_def split: option.splits)

lemma no_crash_from_utf8 [simp]: "no_crash (from_utf8 bs)"
  by (auto simp: from_utf8_def split: option.splits)

definition read_utf8 :: "byte_reader \<Rightarrow> rstr read_result" where
  "read_utf8 rd =
     res_bind (read_byte_array rd) (\<lambda>(slice, rd).
     res_bind (map_err Utf8Error (from_utf8 slice)) (\<lambda>s.
     Inr (s, rd)))"

section \<open>Laws of the reader\<close>

lemma read_u8_Cons [simp]: "read_u8 (b # bs) = Inr (b, bs)"
  by (simp add: read_u8_def)

lemma read_u8_Nil [simp]: "read_u8 [] = Inl (Err ReachedEndUnexpectedly)"
  by (simp add: read_u8_def)

lemma read_trivial_append:
  "length bs = sz \<Longrightarrow> read_trivial sz f (bs @ rest) = Inr (f bs, rest)"
  by (simp add: read_trivial_def ptr_read_def)

lemma read_trivial_short:
  "length rd < sz \<Longrightarrow> read_trivial sz f rd = Inl (Err ReachedEndUnexpectedly)"
  by (simp add: read_trivial_def)

lemma read_trivial_long:
  "sz \<le> length rd \<Longrightarrow> read_trivial sz f rd = Inr (f (take sz rd), drop sz rd)"
  by (simp add: read_trivial_def ptr_read_def)

lemma no_crash_read_trivial [simp]: "no_crash (read_trivial sz f rd)"
  by (auto simp: read_trivial_def ptr_read_def)

lemma read_u16_be [simp]: "read_u16 (be_bytes v @ rest) = Inr (from_native v, rest)"
  by (simp add: read_u16_def read_trivial_append from_native_def u16_of_mem_be)

lemma read_u16_be' [simp]: "read_u16 (be_bytes v) = Inr (from_native v, [])"
  using read_u16_be [of v "[]"] by simp

lemma no_crash_read_u16 [simp]: "no_crash (read_u16 rd)"
  by (auto simp: read_u16_def)

text \<open>A length-prefixed array, as \<open>write_bytes\<close> lays it out.\<close>

definition len_prefixed :: "u8 list \<Rightarrow> u8 list" where
  "len_prefixed bs = be_bytes (of_nat (length bs)) @ bs"

lemma length_len_prefixed [simp]: "length (len_prefixed bs) = 2 + length bs"
  by (simp add: len_prefixed_def)

lemma read_byte_array_prefixed [simp]:
  assumes "length bs < 2 ^ 16"
  shows "read_byte_array (len_prefixed bs @ rest) = Inr (bs, rest)"
proof -
  have "unat (of_nat (length bs) :: u16) = length bs"
    using assms by (simp add: unat_of_nat_less)
  then show ?thesis
    by (simp add: read_byte_array_def len_prefixed_def read_trivial_append)
qed

lemma read_utf8_prefixed [simp]:
  assumes "length bs < 2 ^ 16" and "valid_utf8 bs"
  shows "read_utf8 (len_prefixed bs @ rest) = Inr (bs, rest)"
  using assms by (simp add: read_utf8_def from_utf8_valid)

lemma no_crash_read_byte_array [simp]: "no_crash (read_byte_array rd)"
  by (auto simp: read_byte_array_def Let_def intro!: no_crash_bind)

lemma no_crash_read_utf8 [simp]: "no_crash (read_utf8 rd)"
  by (auto simp: read_utf8_def intro!: no_crash_bind)

lemma no_crash_read_u8 [simp]: "no_crash (read_u8 rd)"
  by (simp add: read_u8_def)

text \<open>Every successful read eats a prefix of the slice.\<close>

lemma read_byte_array_split:
  assumes "read_byte_array rd = Inr (bs, rest)"
  shows "\<exists>hd. length hd = 2 \<and> rd = hd @ bs @ rest"
proof -
  from assms have two: "2 \<le> length rd"
    by (cases "length rd < 2") (auto simp: read_byte_array_def read_trivial_def)
  define len where "len = unat (from_be (u16_of_mem (take 2 rd)))"
  from assms two have "bs = take len (drop 2 rd)" "rest = drop len (drop 2 rd)"
    by (auto simp: read_byte_array_def read_trivial_long len_def Let_def split: if_splits)
  then have "rd = take 2 rd @ bs @ rest"
    by (metis append_take_drop_id)
  with two show ?thesis
    by (intro exI [of _ "take 2 rd"]) auto
qed

lemma read_utf8_split:
  assumes "read_utf8 rd = Inr (s, rest)"
  shows "valid_utf8 s \<and> (\<exists>hd. length hd = 2 \<and> rd = hd @ s @ rest)"
proof -
  from assms obtain slice where "read_byte_array rd = Inr (slice, rest)"
    and "from_utf8 slice = Inr s"
    by (auto simp: read_utf8_def res_bind_eq_Inr)
  then show ?thesis
    using read_byte_array_split by (auto simp: from_utf8_eq_Inr)
qed

section \<open>ByteWriter\<close>

text \<open>
  \<open>self.0\<close> is \<open>wr_rest\<close>; \<open>wr_done\<close> is the part of the initial slice in front of it.
  \<open>None\<close> is an uninitialised byte.
\<close>

record byte_writer =
  wr_done :: "u8 option list"
  wr_rest :: "u8 option list"

type_synonym write_result = "(io_error, byte_writer) result"

definition writer_new :: "u8 option list \<Rightarrow> byte_writer" where
  "writer_new dst = \<lparr>wr_done = [], wr_rest = dst\<rparr>"

definition add_offset :: "nat \<Rightarrow> byte_writer \<Rightarrow> write_result" where
  "add_offset offset wr =
     (if length (wr_rest wr) < offset then Inl (Panic ''range start index out of range'')
      else Inr \<lparr>wr_done = wr_done wr @ take offset (wr_rest wr),
                wr_rest = drop offset (wr_rest wr)\<rparr>)"

text \<open>\<open>ptr::copy_nonoverlapping\<close> to offset \<open>off\<close> of a slice.\<close>

definition ptr_copy :: "u8 list \<Rightarrow> nat \<Rightarrow> u8 option list \<Rightarrow> ('e, u8 option list) result" where
  "ptr_copy src off dst =
     (if length dst < off + length src then Inl (UB ''write past the end'')
      else Inr (take off dst @ map Some src @ drop (off + length src) dst))"

definition write_trivial :: "u8 list \<Rightarrow> byte_writer \<Rightarrow> write_result" where
  "write_trivial data wr =
     (let len = length data in
      if \<not> length (wr_rest wr) \<ge> len then Inl (Panic ''not enough space left'')
      else res_bind (ptr_copy data 0 (wr_rest wr)) (\<lambda>rest.
           add_offset len (wr\<lparr>wr_rest := rest\<rparr>)))"

definition write_u8 :: "u8 \<Rightarrow> byte_writer \<Rightarrow> write_result" where
  "write_u8 byte wr =
     (if \<not> length (wr_rest wr) \<ge> 1 then Inl (Panic ''not enough space left'')
      else add_offset 1 (wr\<lparr>wr_rest := (wr_rest wr)[0 := Some byte]\<rparr>))"

definition write_u16 :: "big_endian \<Rightarrow> byte_writer \<Rightarrow> write_result" where
  "write_u16 data wr = write_trivial (u16_to_mem (be_raw data)) wr"

definition write_bytes :: "u8 list \<Rightarrow> byte_writer \<Rightarrow> write_result" where
  "write_bytes bytes wr =
     (let array_len = length bytes in
      if 2 ^ 16 \<le> array_len then Inl (Panic ''array too wide'')
      else
        let array_len_be = to_be (of_nat array_len); total_len = 2 + array_len in
        if \<not> length (wr_rest wr) \<ge> total_len then Inl (Panic ''not enough space left'')
        else res_bind (ptr_copy (u16_to_mem array_len_be) 0 (wr_rest wr)) (\<lambda>rest.
             res_bind (ptr_copy bytes 2 rest) (\<lambda>rest.
             add_offset total_len (wr\<lparr>wr_rest := rest\<rparr>))))"

definition write_bytes_no_len :: "u8 list \<Rightarrow> byte_writer \<Rightarrow> write_result" where
  "write_bytes_no_len bytes wr =
     (if \<not> length (wr_rest wr) \<ge> length bytes then Inl (Panic ''not enough space left'')
      else res_bind (ptr_copy bytes 0 (wr_rest wr)) (\<lambda>rest.
           add_offset (length bytes) (wr\<lparr>wr_rest := rest\<rparr>)))"

definition finish_and_check :: "byte_writer \<Rightarrow> (io_error, unit) result" where
  "finish_and_check wr =
     (if \<not> length (wr_rest wr) \<le> 0 then Inl (Panic ''uninitialized bytes left'') else Inr ())"

text \<open>\<open>assume_init\<close> on the finished buffer.\<close>

definition assume_init :: "u8 option list \<Rightarrow> ('e, u8 list) result" where
  "assume_init buf =
     (if list_all (\<lambda>b. b \<noteq> None) buf then Inr (map the buf)
      else Inl (UB ''uninitialised byte read''))"

section \<open>Laws of the writer\<close>

text \<open>What writing \<open>bs\<close> does to a writer with enough room: the specification of the four writes.\<close>

definition put :: "u8 list \<Rightarrow> byte_writer \<Rightarrow> byte_writer" where
  "put bs wr = \<lparr>wr_done = wr_done wr @ map Some bs, wr_rest = drop (length bs) (wr_rest wr)\<rparr>"

lemma put_sel [simp]:
  "wr_done (put bs wr) = wr_done wr @ map Some bs"
  "wr_rest (put bs wr) = drop (length bs) (wr_rest wr)"
  by (simp_all add: put_def)

lemma put_put [simp]: "put ys (put xs wr) = put (xs @ ys) wr"
  by (simp add: put_def add.commute)

lemma put_Nil [simp]: "put [] wr = wr"
  by (simp add: put_def)

named_theorems writer_simps \<open>successful writes as \<open>put\<close>\<close>

lemma write_trivial_put [writer_simps]:
  "length bs \<le> length (wr_rest wr) \<Longrightarrow> write_trivial bs wr = Inr (put bs wr)"
  by (simp add: write_trivial_def ptr_copy_def add_offset_def put_def Let_def)

lemma write_u8_put [writer_simps]:
  assumes "1 \<le> length (wr_rest wr)"
  shows "write_u8 b wr = Inr (put [b] wr)"
proof -
  from assms obtain x xs where "wr_rest wr = x # xs" by (cases "wr_rest wr") auto
  then show ?thesis by (simp add: write_u8_def add_offset_def put_def)
qed

lemma write_u16_put [writer_simps]:
  "2 \<le> length (wr_rest wr) \<Longrightarrow> write_u16 (from_native v) wr = Inr (put (be_bytes v) wr)"
  by (simp add: write_u16_def from_native_def write_trivial_put)

lemma write_bytes_put [writer_simps]:
  "length bs < 2 ^ 16 \<Longrightarrow> 2 + length bs \<le> length (wr_rest wr) \<Longrightarrow>
     write_bytes bs wr = Inr (put (len_prefixed bs) wr)"
  by (auto simp: write_bytes_def ptr_copy_def add_offset_def put_def len_prefixed_def Let_def)

lemma write_bytes_too_wide:
  "2 ^ 16 \<le> length bs \<Longrightarrow> write_bytes bs wr = Inl (Panic ''array too wide'')"
  by (simp add: write_bytes_def Let_def)

lemma write_bytes_no_len_put [writer_simps]:
  "length bs \<le> length (wr_rest wr) \<Longrightarrow> write_bytes_no_len bs wr = Inr (put bs wr)"
  by (simp add: write_bytes_no_len_def ptr_copy_def add_offset_def put_def)

text \<open>No write leaves the slice: the \<open>unsafe\<close> copies of the writer are never undefined behaviour.\<close>

definition no_ub :: "('e, 'a) result \<Rightarrow> bool" where
  "no_ub r = (case r of Inl (UB _) \<Rightarrow> False | _ \<Rightarrow> True)"

lemma writes_no_ub:
  "no_ub (write_trivial bs wr)" "no_ub (write_u8 b wr)" "no_ub (write_u16 v wr)"
  "no_ub (write_bytes bs wr)" "no_ub (write_bytes_no_len bs wr)"
  by (auto simp: no_ub_def write_trivial_def write_u8_def write_u16_def write_bytes_def
      write_bytes_no_len_def ptr_copy_def add_offset_def Let_def)

end
