(* ===== verification/Packets.thy ===== *)
theory Packets
  imports Byte_IO
begin

unbundle bit_operations_syntax

text \<open>
  \<open>transceiver/packets.rs\<close>: the MQTT control packets. Every packet type has the
  three operations of the \<open>Packet\<close>, \<open>Encode\<close> traits (its type, \<open>compute_size\<close>,
  \<open>encode\<close>), collected in a record as the compiler does in the trait's dictionary, and
  \<open>decode\<close>. The packets that only the test broker decodes or encodes are modelled too:
  they are the other end of the wire in the round-trip properties of \<open>Packet_Codec\<close>.
\<close>

section \<open>Quality of service, last will\<close>

datatype qos = AtMostOnce | AtLeastOnce | ExactlyOnce

fun qos_u8 :: "qos \<Rightarrow> u8" where
  "qos_u8 AtMostOnce = 0"
| "qos_u8 AtLeastOnce = 1"
| "qos_u8 ExactlyOnce = 2"

text \<open>The derived order of \<open>QoS\<close> is that of its discriminants.\<close>

instantiation qos :: linorder
begin

definition less_eq_qos :: "qos \<Rightarrow> qos \<Rightarrow> bool" where
  "q \<le> r \<longleftrightarrow> qos_u8 q \<le> qos_u8 r"

definition less_qos :: "qos \<Rightarrow> qos \<Rightarrow> bool" where
  "q < r \<longleftrightarrow> qos_u8 q < qos_u8 r"

instance
proof
  fix q r :: qos
  show "q \<le> r \<Longrightarrow> r \<le> q \<Longrightarrow> q = r"
    by (cases q; cases r) (simp_all add: less_eq_qos_def word_le_nat_alt)
qed (auto simp: less_eq_qos_def less_qos_def)

end

lemma qos_ge_AtLeastOnce [simp]: "AtLeastOnce \<le> q \<longleftrightarrow> q \<noteq> AtMostOnce"
  by (cases q) (simp_all add: less_eq_qos_def word_le_nat_alt)

record last_will =
  lw_topic :: rstr
  lw_message :: "u8 list"
  lw_retain :: bool
  lw_qos :: qos

section \<open>Packet types and the control field\<close>

definition MAX_HEADER_SIZE :: nat where
  "MAX_HEADER_SIZE = 5"

datatype packet_type =
    PT_Connect | PT_ConnAck | PT_Publish | PT_PubAck | PT_PubRec | PT_PubRel | PT_PubComp
  | PT_Subscribe | PT_SubAck | PT_Unsubscribe | PT_UnsubAck | PT_PingReq | PT_PingResp
  | PT_Disconnect

fun packet_type_u8 :: "packet_type \<Rightarrow> u8" where
  "packet_type_u8 PT_Connect = 1"
| "packet_type_u8 PT_ConnAck = 2"
| "packet_type_u8 PT_Publish = 3"
| "packet_type_u8 PT_PubAck = 4"
| "packet_type_u8 PT_PubRec = 5"
| "packet_type_u8 PT_PubRel = 6"
| "packet_type_u8 PT_PubComp = 7"
| "packet_type_u8 PT_Subscribe = 8"
| "packet_type_u8 PT_SubAck = 9"
| "packet_type_u8 PT_Unsubscribe = 10"
| "packet_type_u8 PT_UnsubAck = 11"
| "packet_type_u8 PT_PingReq = 12"
| "packet_type_u8 PT_PingResp = 13"
| "packet_type_u8 PT_Disconnect = 14"

datatype control_field = ControlField (cf_byte: u8)

definition from_type_and_flags :: "packet_type \<Rightarrow> u8 \<Rightarrow> ('e, control_field) result" where
  "from_type_and_flags t flags =
     (if 16 \<le> flags then Inl (Panic ''invalid flags'')
      else Inr (ControlField (push_bit 4 (packet_type_u8 t) OR flags)))"

definition cf_packet_type :: "control_field \<Rightarrow> u8" where
  "cf_packet_type cf = drop_bit 4 (cf_byte cf AND 0xf0)"

definition cf_flags :: "control_field \<Rightarrow> u8" where
  "cf_flags cf = cf_byte cf AND 0x0f"

section \<open>The remaining-length field\<close>

text \<open>The \<open>for\<close> loop of \<open>encode_packet_size\<close> from index \<open>i\<close> on.\<close>

function encode_packet_size_from ::
    "nat \<Rightarrow> usize \<Rightarrow> u8 list \<Rightarrow> ('e, nat \<times> u8 list) result" where
  "encode_packet_size_from i sz dst =
     (if i < length dst then
        let dst = dst[i := ucast (sz AND 0x7f)];
            sz = drop_bit 7 (sz AND NOT 0x7f)
        in if sz \<le> 0 then Inr (i + 1, dst)
           else encode_packet_size_from (i + 1) sz (dst[i := dst ! i OR 0x80])
      else Inl (Panic ''packet too big''))"
  by pat_completeness auto
termination
  by (relation "measure (\<lambda>(i, sz, dst). length dst - i)") (auto simp: Let_def)

declare encode_packet_size_from.simps [simp del]

definition encode_packet_size :: "usize \<Rightarrow> u8 list \<Rightarrow> ('e, nat \<times> u8 list) result" where
  "encode_packet_size sz dst = encode_packet_size_from 0 sz dst"

section \<open>The Encode trait\<close>

record 'p encode_impl =
  e_packet_type :: packet_type
  e_compute_size :: "'p \<Rightarrow> (io_error, nat) result"
  e_encode :: "'p \<Rightarrow> byte_writer \<Rightarrow> (io_error, u8 \<times> byte_writer) result"

text \<open>
  The containers of \<open>PacketContainer\<close> (a \<open>Box\<close> or an \<open>Arc\<close>) differ in their
  allocation only: both are an uninitialised buffer of the given length.
\<close>

definition container_create :: "nat \<Rightarrow> u8 option list" where
  "container_create len = replicate len None"

definition make_packet_t :: "'p encode_impl \<Rightarrow> 'p \<Rightarrow> (io_error, u8 option list) result" where
  "make_packet_t E p =
     (let header = replicate MAX_HEADER_SIZE 0 in
      res_bind (e_compute_size E p) (\<lambda>content_sz.
      res_bind (encode_packet_size (of_nat content_sz) (drop 1 header)) (\<lambda>(n, size_field).
      let header = take 1 header @ size_field; header_sz = n + 1;
          bytes = container_create (header_sz + content_sz);
          wr = writer_new (drop header_sz bytes)
      in
      res_bind (e_encode E p wr) (\<lambda>(flags, wr).
      res_bind (finish_and_check wr) (\<lambda>_.
      res_bind (from_type_and_flags (e_packet_type E) flags) (\<lambda>cf.
      let header = header[0 := cf_byte cf];
          bytes = take header_sz bytes @ wr_done wr @ wr_rest wr
      in
      ptr_copy (take header_sz header) 0 bytes))))))"

definition make_arc_packet :: "'p encode_impl \<Rightarrow> 'p \<Rightarrow> (io_error, u8 list) result" where
  "make_arc_packet E p = res_bind (make_packet_t E p) assume_init"

definition make_packet :: "'p encode_impl \<Rightarrow> 'p \<Rightarrow> (io_error, u8 list) result" where
  "make_packet E p = res_bind (make_packet_t E p) assume_init"

definition array_size :: "u8 list \<Rightarrow> nat" where
  "array_size a = 2 + length a"

definition opt_size :: "u8 list option \<Rightarrow> nat" where
  "opt_size x = (case x of Some a \<Rightarrow> array_size a | None \<Rightarrow> 0)"

definition write_bytes_opt :: "u8 list option \<Rightarrow> byte_writer \<Rightarrow> write_result" where
  "write_bytes_opt x wr = (case x of Some a \<Rightarrow> write_bytes a wr | None \<Rightarrow> Inr wr)"

section \<open>CONNECT\<close>

abbreviation (input) "CF_USER_NAME \<equiv> (128 :: u8)"
abbreviation (input) "CF_PASSWORD \<equiv> (64 :: u8)"
abbreviation (input) "CF_WILL_RETAIN \<equiv> (32 :: u8)"
abbreviation (input) "CF_WILL_QOS_POS \<equiv> (3 :: nat)"
abbreviation (input) "CF_WILL_FLAG \<equiv> (4 :: u8)"
abbreviation (input) "CF_CLEAN_SESSION \<equiv> (2 :: u8)"

record connect_header =
  protocol_name_len :: big_endian
  protocol_name :: "u8 list"
  protocol_level :: u8
  connect_flags :: u8
  keep_alive_be :: big_endian

text \<open>The packed C layout of \<open>ConnectHeader\<close>.\<close>

definition connect_header_size :: nat where
  "connect_header_size = 10"

definition connect_header_to_mem :: "connect_header \<Rightarrow> u8 list" where
  "connect_header_to_mem h =
     u16_to_mem (be_raw (protocol_name_len h)) @ protocol_name h @
     [protocol_level h, connect_flags h] @ u16_to_mem (be_raw (keep_alive_be h))"

definition connect_header_of_mem :: "u8 list \<Rightarrow> connect_header" where
  "connect_header_of_mem bs =
     \<lparr>protocol_name_len = BigEndian (u16_of_mem (take 2 bs)),
      protocol_name = take 4 (drop 2 bs),
      protocol_level = bs ! 6,
      connect_flags = bs ! 7,
      keep_alive_be = BigEndian (u16_of_mem (drop 8 bs))\<rparr>"

record connect_packet =
  cp_clean_session :: bool
  cp_keep_alive :: u16
  cp_client_id :: rstr
  cp_will :: "last_will option"
  cp_username :: "rstr option"
  cp_password :: "u8 list option"

definition connect_compute_size :: "connect_packet \<Rightarrow> (io_error, nat) result" where
  "connect_compute_size p =
     Inr (connect_header_size + array_size (cp_client_id p)
        + (case cp_will p of
             Some will \<Rightarrow> array_size (lw_topic will) + array_size (lw_message will)
           | None \<Rightarrow> 0)
        + opt_size (cp_username p) + opt_size (cp_password p))"

text \<open>The connect flags accumulated by \<open>ConnectPacket::encode\<close>.\<close>

definition connect_flags_of :: "connect_packet \<Rightarrow> u8" where
  "connect_flags_of p =
     (let flags = 0;
          flags = (if cp_clean_session p then flags OR CF_CLEAN_SESSION else flags);
          flags = (case cp_will p of
                     Some will \<Rightarrow>
                       (let flags = flags OR CF_WILL_FLAG;
                            flags = flags OR push_bit CF_WILL_QOS_POS (qos_u8 (lw_qos will))
                        in if lw_retain will then flags OR CF_WILL_RETAIN else flags)
                   | None \<Rightarrow> flags);
          flags = (if cp_password p \<noteq> None then flags OR CF_PASSWORD else flags);
          flags = (if cp_username p \<noteq> None then flags OR CF_USER_NAME else flags)
      in flags)"

definition connect_encode ::
    "connect_packet \<Rightarrow> byte_writer \<Rightarrow> (io_error, u8 \<times> byte_writer) result" where
  "connect_encode p wr =
     (let hdr = \<lparr>protocol_name_len = from_native 4,
                 protocol_name = str_bytes ''MQTT'',
                 protocol_level = 4,
                 connect_flags = connect_flags_of p,
                 keep_alive_be = from_native (cp_keep_alive p)\<rparr>
      in
      res_bind (write_trivial (connect_header_to_mem hdr) wr) (\<lambda>wr.
      res_bind (write_bytes (cp_client_id p) wr) (\<lambda>wr.
      res_bind (case cp_will p of
                  Some will \<Rightarrow>
                    res_bind (write_bytes (lw_topic will) wr) (write_bytes (lw_message will))
                | None \<Rightarrow> Inr wr) (\<lambda>wr.
      res_bind (write_bytes_opt (cp_username p) wr) (\<lambda>wr.
      res_bind (write_bytes_opt (cp_password p) wr) (\<lambda>wr.
      Inr (0, wr)))))))"

definition connect_impl :: "connect_packet encode_impl" where
  "connect_impl = \<lparr>e_packet_type = PT_Connect, e_compute_size = connect_compute_size,
                   e_encode = connect_encode\<rparr>"

text \<open>\<open>IncomingConnectPacket\<close> has the fields of \<open>ConnectPacket\<close>, owned.\<close>

definition assert_eq :: "'a \<Rightarrow> 'a \<Rightarrow> ('e, unit) result" where
  "assert_eq a b = (if a = b then Inr () else Inl (Panic ''assertion failed''))"

definition connect_decode :: "byte_reader \<Rightarrow> control_field \<Rightarrow> connect_packet read_result" where
  "connect_decode rd cf =
     res_bind (assert_eq (cf_flags cf) 0) (\<lambda>_.
     res_bind (read_trivial connect_header_size connect_header_of_mem rd) (\<lambda>(hdr, rd).
     res_bind (assert_eq (to_native (protocol_name_len hdr)) 4) (\<lambda>_.
     res_bind (assert_eq (protocol_name hdr) (str_bytes ''MQTT'')) (\<lambda>_.
     res_bind (assert_eq (protocol_level hdr) 4) (\<lambda>_.
     res_bind (read_utf8 rd) (\<lambda>(client_id, rd).
     res_bind (if connect_flags hdr AND CF_WILL_FLAG = 0 then Inr (None, rd)
               else
                 res_bind (read_utf8 rd) (\<lambda>(topic, rd).
                 res_bind (read_byte_array rd) (\<lambda>(message, rd).
                 let q = drop_bit CF_WILL_QOS_POS (connect_flags hdr) AND 3 in
                 res_bind (if q = 0 then Inr AtMostOnce
                           else if q = 1 then Inr AtLeastOnce
                           else if q = 2 then Inr ExactlyOnce
                           else Inl (Panic ''explicit panic'')) (\<lambda>qos.
                 Inr (Some \<lparr>lw_topic = topic, lw_message = message,
                            lw_retain = (connect_flags hdr AND CF_WILL_RETAIN \<noteq> 0),
                            lw_qos = qos\<rparr>, rd))))) (\<lambda>(will, rd).
     res_bind (if connect_flags hdr AND CF_USER_NAME = 0 then Inr (None, rd)
               else res_bind (read_utf8 rd) (\<lambda>(s, rd). Inr (Some s, rd))) (\<lambda>(username, rd).
     res_bind (if connect_flags hdr AND CF_PASSWORD = 0 then Inr (None, rd)
               else res_bind (read_byte_array rd) (\<lambda>(a, rd). Inr (Some a, rd)))
       (\<lambda>(password, rd).
     Inr (\<lparr>cp_clean_session = (connect_flags hdr AND CF_CLEAN_SESSION \<noteq> 0),
           cp_keep_alive = to_native (keep_alive_be hdr),
           cp_client_id = client_id, cp_will = will,
           cp_username = username, cp_password = password\<rparr>, rd))))))))))"

section \<open>CONNACK\<close>

type_synonym conn_result = "server_connect_error + bool"

datatype conn_ack_packet = ConnAckPacket (conn_ack_result: conn_result)

definition conn_ack_decode :: "byte_reader \<Rightarrow> control_field \<Rightarrow> conn_ack_packet read_result" where
  "conn_ack_decode rd cf =
     res_bind (read_trivial 2 id rd) (\<lambda>(hdr, rd).
     let ack_flags = hdr ! 0; return_code = hdr ! 1 in
     Inr (ConnAckPacket
       (if return_code = 0 then Inr (ack_flags AND 1 \<noteq> 0)
        else if return_code = 1 then Inl UnacceptableProtocolVersion
        else if return_code = 2 then Inl IdentifierRejected
        else if return_code = 3 then Inl ServerUnavailable
        else if return_code = 4 then Inl BadUserNameOrPassword
        else if return_code = 5 then Inl NotAuthorized
        else Inl (Unknown return_code)), rd))"

fun conn_ack_header :: "conn_result \<Rightarrow> (io_error, u8 \<times> u8) result" where
  "conn_ack_header (Inr x) = Inr (if x then 1 else 0, 0)"
| "conn_ack_header (Inl UnacceptableProtocolVersion) = Inr (0, 1)"
| "conn_ack_header (Inl IdentifierRejected) = Inr (0, 2)"
| "conn_ack_header (Inl ServerUnavailable) = Inr (0, 3)"
| "conn_ack_header (Inl BadUserNameOrPassword) = Inr (0, 4)"
| "conn_ack_header (Inl NotAuthorized) = Inr (0, 5)"
| "conn_ack_header (Inl (Unknown x)) = Inr (0, x)"
| "conn_ack_header (Inl ProtocolError) = Inl (Panic ''explicit panic'')"

definition conn_ack_encode ::
    "conn_ack_packet \<Rightarrow> byte_writer \<Rightarrow> (io_error, u8 \<times> byte_writer) result" where
  "conn_ack_encode p wr =
     res_bind (conn_ack_header (conn_ack_result p)) (\<lambda>(ack_flags, return_code).
     res_bind (write_trivial [ack_flags, return_code] wr) (\<lambda>wr.
     Inr (0, wr)))"

definition conn_ack_impl :: "conn_ack_packet encode_impl" where
  "conn_ack_impl = \<lparr>e_packet_type = PT_ConnAck, e_compute_size = (\<lambda>_. Inr 2),
                    e_encode = conn_ack_encode\<rparr>"

section \<open>PUBLISH\<close>

datatype publish_flags = PublishFlags (pf_byte: u8)

abbreviation (input) "PF_DUP \<equiv> (8 :: u8)"
abbreviation (input) "PF_QOS_MASK \<equiv> (6 :: u8)"
abbreviation (input) "PF_RETAIN \<equiv> (1 :: u8)"
abbreviation (input) "PF_ALL_BITS \<equiv> (PF_RETAIN OR PF_QOS_MASK OR PF_DUP)"

definition publish_flags_new :: "bool \<Rightarrow> qos \<Rightarrow> bool \<Rightarrow> publish_flags" where
  "publish_flags_new dup qos retain =
     (let ret = push_bit 1 (qos_u8 qos);
          ret = (if dup then ret OR PF_DUP else ret);
          ret = (if retain then ret OR PF_RETAIN else ret)
      in PublishFlags ret)"

definition was_retained :: "publish_flags \<Rightarrow> bool" where
  "was_retained f = (pf_byte f AND PF_RETAIN \<noteq> 0)"

definition flags_qos :: "publish_flags \<Rightarrow> ('e, qos) result" where
  "flags_qos f =
     (let q = drop_bit 1 (pf_byte f AND PF_QOS_MASK) in
      if q = 0 then Inr AtMostOnce
      else if q = 1 then Inr AtLeastOnce
      else if q = 2 then Inr ExactlyOnce
      else Inl (Panic ''explicit panic''))"

definition is_dup :: "publish_flags \<Rightarrow> bool" where
  "is_dup f = (pf_byte f AND PF_DUP \<noteq> 0)"

definition publish_flags_try_from :: "u8 \<Rightarrow> (packet_decode_error, publish_flags) result" where
  "publish_flags_try_from value =
     (if value AND NOT PF_ALL_BITS \<noteq> 0 then Inl (Err MalformedPacket)
      else if qos_u8 ExactlyOnce < drop_bit 1 (value AND PF_QOS_MASK)
        then Inl (Err MalformedPacket)
      else Inr (PublishFlags value))"

record outgoing_publish_packet =
  op_flags :: publish_flags
  op_topic :: rstr
  op_packet_id :: u16
  op_payload :: "u8 list"

definition publish_compute_size :: "outgoing_publish_packet \<Rightarrow> (io_error, nat) result" where
  "publish_compute_size p =
     res_bind (flags_qos (op_flags p)) (\<lambda>qos.
     Inr (array_size (op_topic p) + (if AtLeastOnce \<le> qos then 2 else 0)
          + length (op_payload p)))"

definition publish_encode ::
    "outgoing_publish_packet \<Rightarrow> byte_writer \<Rightarrow> (io_error, u8 \<times> byte_writer) result" where
  "publish_encode p wr =
     res_bind (write_bytes (op_topic p) wr) (\<lambda>wr.
     res_bind (flags_qos (op_flags p)) (\<lambda>qos.
     res_bind (if AtLeastOnce \<le> qos then write_u16 (from_native (op_packet_id p)) wr
               else Inr wr) (\<lambda>wr.
     res_bind (write_bytes_no_len (op_payload p) wr) (\<lambda>wr.
     Inr (pf_byte (op_flags p), wr)))))"

definition publish_impl :: "outgoing_publish_packet encode_impl" where
  "publish_impl = \<lparr>e_packet_type = PT_Publish, e_compute_size = publish_compute_size,
                   e_encode = publish_encode\<rparr>"

record publish_packet_info =
  pi_flags :: publish_flags
  pi_packet_id :: u16

text \<open>
  An incoming message is one reference-counted allocation: an
  \<open>InternalPublishHeader\<close> (whose layout Rust leaves open, so it is kept as a record),
  then the bytes of the topic, then those of the payload.
\<close>

record internal_publish_header =
  topic_len :: nat
  info :: publish_packet_info

record incoming_publish_packet =
  ip_header :: internal_publish_header
  ip_data :: "u8 list"

definition publish_info :: "incoming_publish_packet \<Rightarrow> publish_packet_info" where
  "publish_info p = info (ip_header p)"

text \<open>\<open>from_utf8_unchecked\<close> is undefined behaviour on malformed UTF-8.\<close>

definition publish_topic :: "incoming_publish_packet \<Rightarrow> ('e, rstr) result" where
  "publish_topic p =
     (let len = topic_len (ip_header p) in
      if length (ip_data p) < len then Inl (Panic ''range end index out of range'')
      else if \<not> valid_utf8 (take len (ip_data p)) then Inl (UB ''invalid utf-8 in str'')
      else Inr (take len (ip_data p)))"

definition publish_payload :: "incoming_publish_packet \<Rightarrow> ('e, u8 list) result" where
  "publish_payload p =
     (let len = topic_len (ip_header p) in
      if length (ip_data p) < len then Inl (Panic ''range start index out of range'')
      else Inr (drop len (ip_data p)))"

definition payload_as_utf8 :: "incoming_publish_packet \<Rightarrow> (utf8_error, rstr) result" where
  "payload_as_utf8 p = res_bind (publish_payload p) from_utf8"

definition publish_decode ::
    "byte_reader \<Rightarrow> control_field \<Rightarrow> incoming_publish_packet read_result" where
  "publish_decode rd cf =
     res_bind (publish_flags_try_from (cf_flags cf)) (\<lambda>flags.
     res_bind (read_utf8 rd) (\<lambda>(topic, rd).
     res_bind (flags_qos flags) (\<lambda>qos.
     res_bind (if AtLeastOnce \<le> qos
               then res_bind (read_u16 rd) (\<lambda>(x, rd). Inr (to_native x, rd))
               else Inr (0, rd)) (\<lambda>(packet_id, rd).
     let (payload, rd) = read_remaining rd;
         hdr = \<lparr>topic_len = length topic,
                info = \<lparr>pi_flags = flags, pi_packet_id = packet_id\<rparr>\<rparr>;
         data = replicate (length topic + length payload) None
     in
     res_bind (ptr_copy topic 0 data) (\<lambda>data.
     res_bind (ptr_copy payload (length topic) data) (\<lambda>data.
     res_bind (assume_init data) (\<lambda>data.
     Inr (\<lparr>ip_header = hdr, ip_data = data\<rparr>, rd))))))))"

definition to_outgoing ::
    "incoming_publish_packet \<Rightarrow> qos \<Rightarrow> bool \<Rightarrow> u16
     \<Rightarrow> ('e, outgoing_publish_packet) result" where
  "to_outgoing p qos retain packet_id =
     res_bind (publish_topic p) (\<lambda>topic.
     res_bind (publish_payload p) (\<lambda>payload.
     Inr \<lparr>op_flags = publish_flags_new False qos retain, op_topic = topic,
          op_packet_id = packet_id, op_payload = payload\<rparr>))"

section \<open>PUBACK, PUBREC, PUBREL, PUBCOMP, UNSUBACK\<close>

text \<open>The five packets of the macro \<open>def_simple_packet\<close>: a packet identifier and nothing else.\<close>

record simple_packet =
  sp_packet_id :: u16

definition simple_new :: "u16 \<Rightarrow> simple_packet" where
  "simple_new packet_id = \<lparr>sp_packet_id = packet_id\<rparr>"

definition simple_decode :: "byte_reader \<Rightarrow> control_field \<Rightarrow> simple_packet read_result" where
  "simple_decode rd cf =
     res_bind (read_u16 rd) (\<lambda>(x, rd). Inr (\<lparr>sp_packet_id = to_native x\<rparr>, rd))"

definition simple_encode ::
    "u8 \<Rightarrow> simple_packet \<Rightarrow> byte_writer \<Rightarrow> (io_error, u8 \<times> byte_writer) result" where
  "simple_encode flags p wr =
     res_bind (write_u16 (from_native (sp_packet_id p)) wr) (\<lambda>wr. Inr (flags, wr))"

definition def_simple_packet :: "packet_type \<Rightarrow> u8 \<Rightarrow> simple_packet encode_impl" where
  "def_simple_packet ty flags =
     \<lparr>e_packet_type = ty, e_compute_size = (\<lambda>_. Inr 2), e_encode = simple_encode flags\<rparr>"

definition pub_ack_impl :: "simple_packet encode_impl" where
  "pub_ack_impl = def_simple_packet PT_PubAck 0"

definition pub_rec_impl :: "simple_packet encode_impl" where
  "pub_rec_impl = def_simple_packet PT_PubRec 0"

definition pub_rel_impl :: "simple_packet encode_impl" where
  "pub_rel_impl = def_simple_packet PT_PubRel 2"

definition pub_comp_impl :: "simple_packet encode_impl" where
  "pub_comp_impl = def_simple_packet PT_PubComp 0"

definition unsub_ack_impl :: "simple_packet encode_impl" where
  "unsub_ack_impl = def_simple_packet PT_UnsubAck 0"

section \<open>SUBSCRIBE\<close>

record subscribe_packet =
  sub_packet_id :: u16
  sub_topics :: "(rstr \<times> qos) list"

fun subscribe_topics_size :: "(rstr \<times> qos) list \<Rightarrow> nat" where
  "subscribe_topics_size [] = 0"
| "subscribe_topics_size ((topic, _) # ts) = array_size topic + 1 + subscribe_topics_size ts"

definition subscribe_compute_size :: "subscribe_packet \<Rightarrow> (io_error, nat) result" where
  "subscribe_compute_size p = Inr (2 + subscribe_topics_size (sub_topics p))"

fun subscribe_encode_topics :: "(rstr \<times> qos) list \<Rightarrow> byte_writer \<Rightarrow> write_result" where
  "subscribe_encode_topics [] wr = Inr wr"
| "subscribe_encode_topics ((topic, qos) # ts) wr =
     res_bind (write_bytes topic wr) (\<lambda>wr.
     res_bind (write_u8 (qos_u8 qos) wr) (\<lambda>wr.
     subscribe_encode_topics ts wr))"

definition subscribe_encode ::
    "subscribe_packet \<Rightarrow> byte_writer \<Rightarrow> (io_error, u8 \<times> byte_writer) result" where
  "subscribe_encode p wr =
     res_bind (write_u16 (from_native (sub_packet_id p)) wr) (\<lambda>wr.
     res_bind (subscribe_encode_topics (sub_topics p) wr) (\<lambda>wr.
     Inr (2, wr)))"

definition subscribe_impl :: "subscribe_packet encode_impl" where
  "subscribe_impl = \<lparr>e_packet_type = PT_Subscribe, e_compute_size = subscribe_compute_size,
                     e_encode = subscribe_encode\<rparr>"

text \<open>The \<open>while rd.remaining() > 0\<close> loop; every turn eats at least the length prefix.\<close>

lemma read_utf8_shorter: "read_utf8 rd = Inr (s, rest) \<Longrightarrow> length rest < length rd"
  by (auto dest!: read_utf8_split)

lemma read_u8_shorter: "read_u8 rd = Inr (b, rest) \<Longrightarrow> length rest < length rd"
  by (cases rd) auto

function subscribe_decode_topics ::
    "byte_reader \<Rightarrow> (rstr \<times> qos) list \<Rightarrow> (rstr \<times> qos) list read_result" where
  "subscribe_decode_topics rd topics =
     (if remaining rd > 0 then
        (case read_utf8 rd of
           Inl f \<Rightarrow> Inl f
         | Inr (topic, rd1) \<Rightarrow>
             (case read_u8 rd1 of
                Inl f \<Rightarrow> Inl f
              | Inr (b, rd2) \<Rightarrow>
                  if b = 0 then subscribe_decode_topics rd2 (topics @ [(topic, AtMostOnce)])
                  else if b = 1 then subscribe_decode_topics rd2 (topics @ [(topic, AtLeastOnce)])
                  else if b = 2 then subscribe_decode_topics rd2 (topics @ [(topic, ExactlyOnce)])
                  else Inl (Panic ''explicit panic'')))
      else Inr (topics, rd))"
  by pat_completeness auto
termination
  by (relation "measure (\<lambda>(rd, topics). length rd)")
    (auto dest!: read_utf8_shorter read_u8_shorter)

declare subscribe_decode_topics.simps [simp del]

definition subscribe_decode :: "byte_reader \<Rightarrow> control_field \<Rightarrow> subscribe_packet read_result" where
  "subscribe_decode rd cf =
     res_bind (assert_eq (cf_flags cf) 2) (\<lambda>_.
     res_bind (read_u16 rd) (\<lambda>(x, rd).
     res_bind (subscribe_decode_topics rd []) (\<lambda>(topics, rd).
     Inr (\<lparr>sub_packet_id = to_native x, sub_topics = topics\<rparr>, rd))))"

section \<open>SUBACK\<close>

type_synonym subscription_result = "unit + qos"

text \<open>\<open>(size_of Vec - size_of usize) / size_of SubscriptionResult\<close> = (24 - 8) / 1.\<close>

definition MAX_STATIC_SUBS :: nat where
  "MAX_STATIC_SUBS = 16"

datatype subscription_result_list =
    Static nat "subscription_result list"
  | Dynamic "subscription_result list"

record sub_ack_packet =
  sa_packet_id :: u16
  sa_sub_results :: subscription_result_list

definition sub_ack_new :: "u16 \<Rightarrow> subscription_result list \<Rightarrow> sub_ack_packet" where
  "sub_ack_new packet_id results =
     \<lparr>sa_packet_id = packet_id,
      sa_sub_results =
        (if length results \<le> MAX_STATIC_SUBS
         then Static (length results)
                (results @ drop (length results) (replicate MAX_STATIC_SUBS (Inl ())))
         else Dynamic results)\<rparr>"

definition sub_results :: "sub_ack_packet \<Rightarrow> ('e, subscription_result list) result" where
  "sub_results p =
     (case sa_sub_results p of
        Static len values \<Rightarrow>
          if length values < len then Inl (Panic ''range end index out of range'')
          else Inr (take len values)
      | Dynamic d \<Rightarrow> Inr d)"

definition parse_sub_result :: "u8 \<Rightarrow> (packet_decode_error, subscription_result) result" where
  "parse_sub_result r =
     (if r = 0 then Inr (Inr AtMostOnce)
      else if r = 1 then Inr (Inr AtLeastOnce)
      else if r = 2 then Inr (Inr ExactlyOnce)
      else if r = 128 then Inr (Inl ())
      else Inl (Err MalformedPacket))"

fun sub_ack_fill_static ::
    "nat \<Rightarrow> u8 list \<Rightarrow> subscription_result list
     \<Rightarrow> (packet_decode_error, subscription_result list) result" where
  "sub_ack_fill_static i [] values = Inr values"
| "sub_ack_fill_static i (r # rs) values =
     res_bind (parse_sub_result r) (\<lambda>x.
     if i < length values then sub_ack_fill_static (i + 1) rs (values[i := x])
     else Inl (Panic ''index out of bounds''))"

fun sub_ack_push_dynamic ::
    "u8 list \<Rightarrow> subscription_result list
     \<Rightarrow> (packet_decode_error, subscription_result list) result" where
  "sub_ack_push_dynamic [] values = Inr values"
| "sub_ack_push_dynamic (r # rs) values =
     res_bind (parse_sub_result r) (\<lambda>x. sub_ack_push_dynamic rs (values @ [x]))"

definition sub_ack_decode :: "byte_reader \<Rightarrow> control_field \<Rightarrow> sub_ack_packet read_result" where
  "sub_ack_decode rd cf =
     res_bind (read_u16 rd) (\<lambda>(x, rd).
     let packet_id = to_native x; num_results = remaining rd; (bytes, rd) = read_remaining rd in
     res_bind (if num_results \<le> MAX_STATIC_SUBS
               then res_bind (sub_ack_fill_static 0 bytes (replicate MAX_STATIC_SUBS (Inl ())))
                      (\<lambda>values. Inr (Static num_results values))
               else res_bind (sub_ack_push_dynamic bytes []) (\<lambda>values. Inr (Dynamic values)))
       (\<lambda>results.
     Inr (\<lparr>sa_packet_id = packet_id, sa_sub_results = results\<rparr>, rd)))"

definition sub_ack_compute_size :: "sub_ack_packet \<Rightarrow> (io_error, nat) result" where
  "sub_ack_compute_size p =
     Inr (case sa_sub_results p of
            Static len _ \<Rightarrow> len + 2
          | Dynamic x \<Rightarrow> length x + 2)"

fun sub_ack_encode_results :: "subscription_result list \<Rightarrow> byte_writer \<Rightarrow> write_result" where
  "sub_ack_encode_results [] wr = Inr wr"
| "sub_ack_encode_results (r # rs) wr =
     res_bind (write_u8 (case r of Inr qos \<Rightarrow> qos_u8 qos | Inl _ \<Rightarrow> 128) wr)
       (sub_ack_encode_results rs)"

definition sub_ack_encode ::
    "sub_ack_packet \<Rightarrow> byte_writer \<Rightarrow> (io_error, u8 \<times> byte_writer) result" where
  "sub_ack_encode p wr =
     res_bind (write_u16 (from_native (sa_packet_id p)) wr) (\<lambda>wr.
     res_bind (sub_results p) (\<lambda>results.
     res_bind (sub_ack_encode_results results wr) (\<lambda>wr.
     Inr (0, wr))))"

definition sub_ack_impl :: "sub_ack_packet encode_impl" where
  "sub_ack_impl = \<lparr>e_packet_type = PT_SubAck, e_compute_size = sub_ack_compute_size,
                   e_encode = sub_ack_encode\<rparr>"

section \<open>UNSUBSCRIBE\<close>

record unsubscribe_packet =
  un_packet_id :: u16
  un_topics :: "rstr list"

fun unsubscribe_topics_size :: "rstr list \<Rightarrow> nat" where
  "unsubscribe_topics_size [] = 0"
| "unsubscribe_topics_size (topic # ts) = array_size topic + unsubscribe_topics_size ts"

definition unsubscribe_compute_size :: "unsubscribe_packet \<Rightarrow> (io_error, nat) result" where
  "unsubscribe_compute_size p = Inr (2 + unsubscribe_topics_size (un_topics p))"

fun unsubscribe_encode_topics :: "rstr list \<Rightarrow> byte_writer \<Rightarrow> write_result" where
  "unsubscribe_encode_topics [] wr = Inr wr"
| "unsubscribe_encode_topics (topic # ts) wr =
     res_bind (write_bytes topic wr) (unsubscribe_encode_topics ts)"

definition unsubscribe_encode ::
    "unsubscribe_packet \<Rightarrow> byte_writer \<Rightarrow> (io_error, u8 \<times> byte_writer) result" where
  "unsubscribe_encode p wr =
     res_bind (write_u16 (from_native (un_packet_id p)) wr) (\<lambda>wr.
     res_bind (unsubscribe_encode_topics (un_topics p) wr) (\<lambda>wr.
     Inr (2, wr)))"

definition unsubscribe_impl :: "unsubscribe_packet encode_impl" where
  "unsubscribe_impl = \<lparr>e_packet_type = PT_Unsubscribe,
                       e_compute_size = unsubscribe_compute_size,
                       e_encode = unsubscribe_encode\<rparr>"

function unsubscribe_decode_topics :: "byte_reader \<Rightarrow> rstr list \<Rightarrow> rstr list read_result" where
  "unsubscribe_decode_topics rd topics =
     (if remaining rd > 0 then
        (case read_utf8 rd of
           Inl f \<Rightarrow> Inl f
         | Inr (topic, rd1) \<Rightarrow> unsubscribe_decode_topics rd1 (topics @ [topic]))
      else Inr (topics, rd))"
  by pat_completeness auto
termination
  by (relation "measure (\<lambda>(rd, topics). length rd)") (auto dest!: read_utf8_shorter)

declare unsubscribe_decode_topics.simps [simp del]

definition unsubscribe_decode ::
    "byte_reader \<Rightarrow> control_field \<Rightarrow> unsubscribe_packet read_result" where
  "unsubscribe_decode rd cf =
     res_bind (assert_eq (cf_flags cf) 2) (\<lambda>_.
     res_bind (read_u16 rd) (\<lambda>(x, rd).
     res_bind (unsubscribe_decode_topics rd []) (\<lambda>(topics, rd).
     Inr (\<lparr>un_packet_id = to_native x, un_topics = topics\<rparr>, rd))))"

section \<open>PINGREQ, DISCONNECT, PINGRESP\<close>

text \<open>The empty packets: \<open>unit\<close> stands for the unit structs.\<close>

definition empty_encode :: "unit \<Rightarrow> byte_writer \<Rightarrow> (io_error, u8 \<times> byte_writer) result" where
  "empty_encode p wr = Inr (0, wr)"

definition def_empty_outgoing_packet :: "packet_type \<Rightarrow> unit encode_impl" where
  "def_empty_outgoing_packet ty =
     \<lparr>e_packet_type = ty, e_compute_size = (\<lambda>_. Inr 0), e_encode = empty_encode\<rparr>"

definition empty_decode :: "byte_reader \<Rightarrow> control_field \<Rightarrow> unit read_result" where
  "empty_decode rd cf = res_bind (assert_eq (cf_flags cf) 0) (\<lambda>_. Inr ((), rd))"

definition ping_req_impl :: "unit encode_impl" where
  "ping_req_impl = def_empty_outgoing_packet PT_PingReq"

definition disconnect_impl :: "unit encode_impl" where
  "disconnect_impl = def_empty_outgoing_packet PT_Disconnect"

definition ping_resp_decode :: "byte_reader \<Rightarrow> control_field \<Rightarrow> unit read_result" where
  "ping_resp_decode rd cf = Inr ((), rd)"

definition ping_resp_impl :: "unit encode_impl" where
  "ping_resp_impl = \<lparr>e_packet_type = PT_PingResp, e_compute_size = (\<lambda>_. Inr 0),
                     e_encode = empty_encode\<rparr>"

section \<open>Incoming packets\<close>

text \<open>What a client can receive, and \<open>IncomingPacket::from_bytes\<close>.\<close>

datatype incoming_packet =
    IP_ConnAck conn_ack_packet
  | IP_SubAck sub_ack_packet
  | IP_Publish incoming_publish_packet
  | IP_PubAck simple_packet
  | IP_PubRec simple_packet
  | IP_PubRel simple_packet
  | IP_PubComp simple_packet
  | IP_UnsubAck simple_packet
  | IP_PingResp

definition read_map :: "('a \<Rightarrow> 'b) \<Rightarrow> 'a read_result \<Rightarrow> 'b read_result" where
  "read_map f r = res_bind r (\<lambda>(a, rd). Inr (f a, rd))"

definition from_bytes :: "byte_reader \<Rightarrow> control_field \<Rightarrow> incoming_packet read_result" where
  "from_bytes rd cf =
     (let x = cf_packet_type cf in
      if x = packet_type_u8 PT_ConnAck then read_map IP_ConnAck (conn_ack_decode rd cf)
      else if x = packet_type_u8 PT_SubAck then read_map IP_SubAck (sub_ack_decode rd cf)
      else if x = packet_type_u8 PT_Publish then read_map IP_Publish (publish_decode rd cf)
      else if x = packet_type_u8 PT_PubAck then read_map IP_PubAck (simple_decode rd cf)
      else if x = packet_type_u8 PT_PubRec then read_map IP_PubRec (simple_decode rd cf)
      else if x = packet_type_u8 PT_PubRel then read_map IP_PubRel (simple_decode rd cf)
      else if x = packet_type_u8 PT_PubComp then read_map IP_PubComp (simple_decode rd cf)
      else if x = packet_type_u8 PT_UnsubAck then read_map IP_UnsubAck (simple_decode rd cf)
      else if x = packet_type_u8 PT_PingResp
        then read_map (\<lambda>_. IP_PingResp) (ping_resp_decode rd cf)
      else Inl (Err (InvalidPacketId x)))"

fun incoming_packet_type :: "incoming_packet \<Rightarrow> packet_type" where
  "incoming_packet_type (IP_ConnAck _) = PT_ConnAck"
| "incoming_packet_type (IP_SubAck _) = PT_SubAck"
| "incoming_packet_type (IP_Publish _) = PT_Publish"
| "incoming_packet_type (IP_PubAck _) = PT_PubAck"
| "incoming_packet_type (IP_PubRec _) = PT_PubRec"
| "incoming_packet_type (IP_PubRel _) = PT_PubRel"
| "incoming_packet_type (IP_PubComp _) = PT_PubComp"
| "incoming_packet_type (IP_UnsubAck _) = PT_UnsubAck"
| "incoming_packet_type IP_PingResp = PT_PingResp"

text \<open>What the broker of the test suite can receive.\<close>

datatype incoming_broker_packet =
    IB_Connect connect_packet
  | IB_Subscribe subscribe_packet
  | IB_Publish incoming_publish_packet
  | IB_PubAck simple_packet
  | IB_PubRec simple_packet
  | IB_PubRel simple_packet
  | IB_PubComp simple_packet
  | IB_Unsubscribe unsubscribe_packet
  | IB_PingReq
  | IB_Disconnect

definition broker_from_bytes ::
    "byte_reader \<Rightarrow> control_field \<Rightarrow> incoming_broker_packet read_result" where
  "broker_from_bytes rd cf =
     (let x = cf_packet_type cf in
      if x = packet_type_u8 PT_Connect then read_map IB_Connect (connect_decode rd cf)
      else if x = packet_type_u8 PT_Subscribe then read_map IB_Subscribe (subscribe_decode rd cf)
      else if x = packet_type_u8 PT_Publish then read_map IB_Publish (publish_decode rd cf)
      else if x = packet_type_u8 PT_PubAck then read_map IB_PubAck (simple_decode rd cf)
      else if x = packet_type_u8 PT_PubRec then read_map IB_PubRec (simple_decode rd cf)
      else if x = packet_type_u8 PT_PubRel then read_map IB_PubRel (simple_decode rd cf)
      else if x = packet_type_u8 PT_PubComp then read_map IB_PubComp (simple_decode rd cf)
      else if x = packet_type_u8 PT_Unsubscribe
        then read_map IB_Unsubscribe (unsubscribe_decode rd cf)
      else if x = packet_type_u8 PT_PingReq then read_map (\<lambda>_. IB_PingReq) (empty_decode rd cf)
      else if x = packet_type_u8 PT_Disconnect
        then read_map (\<lambda>_. IB_Disconnect) (empty_decode rd cf)
      else Inl (Err (InvalidPacketId x)))"

end
