(* ===== verification/Packet_Codec.thy ===== *)
theory Packet_Codec
  imports Packets
begin

unbundle bit_operations_syntax

text \<open>
  What the encoders and decoders of \<open>Packets\<close> guarantee. The locale
  \<open>packet_encoder\<close> is the contract of the \<open>Encode\<close> trait ("write the exact number of
  bytes specified by \<open>compute_size\<close>"); under it \<open>make_packet\<close> and
  \<open>make_arc_packet\<close> return fixed header and body, without a panic and without reading an
  uninitialised byte. Every packet of the model is an interpretation. The decoders are
  shown to undo the encoders, and never to crash, whatever bytes they are given.
\<close>

section \<open>The remaining-length field\<close>

text \<open>The variable-length encoding: seven bits per byte, least significant group first.\<close>

fun size_bytes :: "nat \<Rightarrow> u8 list" where
  "size_bytes n =
     (if n < 128 then [of_nat n] else of_nat (n mod 128 + 128) # size_bytes (n div 128))"

declare size_bytes.simps [simp del]

lemma unat_low_bits: "unat ((of_nat n :: usize) AND 0x7f) = n mod 128"
proof -
  have "(of_nat n :: usize) AND 0x7f = take_bit 7 (of_nat n)"
    by (simp add: take_bit_eq_mask mask_eq_exp_minus_1)
  also have "unat \<dots> = (n mod 2 ^ 64) mod 128"
    by (simp add: unsigned_take_bit_eq unat_of_nat) (simp add: take_bit_eq_mod)
  also have "\<dots> = n mod 128" by (rule mod_mod_cancel) simp
  finally show ?thesis .
qed

lemma size_low: "(ucast ((of_nat n :: usize) AND 0x7f) :: u8) = of_nat (n mod 128)"
proof -
  have "(ucast w :: u8) = of_nat (unat w)" for w :: usize
    by (simp add: of_nat_unat)
  then show ?thesis by (simp only: unat_low_bits)
qed

lemma bit_0x7f: "bit (0x7f :: usize) k \<longleftrightarrow> k < 7"
proof -
  have "bit (mask 7 :: usize) k \<longleftrightarrow> k < 7"
    by (auto simp only: bit_mask_iff possible_bit_word) simp
  then show ?thesis by (simp add: mask_eq_exp_minus_1)
qed

lemma size_high:
  assumes "n < 2 ^ 64"
  shows "drop_bit 7 ((of_nat n :: usize) AND NOT 0x7f) = of_nat (n div 128)"
proof -
  have "drop_bit 7 (w AND NOT 0x7f) = drop_bit 7 w" for w :: usize
    by (rule bit_word_eqI)
      (auto simp only: bit_drop_bit_eq bit_and_iff bit_not_iff bit_0x7f o_def possible_bit_word
        dest: bit_imp_le_length)
  moreover have "unat (drop_bit 7 (of_nat n :: usize)) = n div 128"
    using assms by (simp add: unat_drop_bit_eq unat_of_nat_less drop_bit_eq_div unat_div)
  ultimately show ?thesis
    using assms by (simp only: word_unat_eq_iff) (simp add: unat_of_nat_less)
qed

lemma size_continue:
  assumes "m < 128"
  shows "(of_nat m :: u8) OR 0x80 = of_nat (m + 128)"
proof -
  have "\<not> bit (of_nat m :: u8) 7"
    using assms by (simp only: bit_simps) (simp add: bit_iff_odd)
  then have "(of_nat m :: u8) AND 2 ^ 7 = 0"
    by (simp only: and_exp_eq_0_iff_not_bit not_False_eq_True)
  then show ?thesis
    by (simp add: disjunctive_add_eq_or)
qed

lemma size_bytes_small: "n < 128 \<Longrightarrow> size_bytes n = [of_nat n]"
  by (simp add: size_bytes.simps)

lemma size_bytes_big:
  "128 \<le> n \<Longrightarrow> size_bytes n = of_nat (n mod 128 + 128) # size_bytes (n div 128)"
  by (subst size_bytes.simps) simp

lemma encode_packet_size_from_step:
  assumes "n < 2 ^ 64" and "i < length dst"
  shows "encode_packet_size_from i (of_nat n) dst =
    (if n < 128 then Inr (i + 1, dst[i := of_nat n])
     else encode_packet_size_from (i + 1) (of_nat (n div 128))
            (dst[i := of_nat (n mod 128 + 128)]))"
proof -
  have "(of_nat (n div 128) :: usize) = 0 \<longleftrightarrow> n < 128"
    using assms(1) by (simp add: word_unat_eq_iff unat_of_nat_less) linarith
  then show ?thesis
    using assms(2)
    by (subst encode_packet_size_from.simps)
      (simp only: Let_def size_low size_high [OF assms(1)] size_continue if_True,
       simp add: size_continue flip: of_nat_add)
qed

lemma encode_packet_size_from_ok:
  assumes "n < 2 ^ 64" and "i + length (size_bytes n) \<le> length dst"
  shows "encode_packet_size_from i (of_nat n) dst
    = Inr (i + length (size_bytes n),
           take i dst @ size_bytes n @ drop (i + length (size_bytes n)) dst)"
  using assms
proof (induction n arbitrary: i dst rule: size_bytes.induct)
  case (1 n)
  have i: "i < length dst"
    using "1.prems"(2) by (subst (asm) size_bytes.simps) (auto split: if_splits)
  show ?case
  proof (cases "n < 128")
    case True
    then show ?thesis
      using i "1.prems"(1)
      by (simp add: encode_packet_size_from_step size_bytes_small upd_conv_take_nth_drop)
  next
    case False
    let ?dst = "dst[i := of_nat (n mod 128 + 128)]"
    have "n div 128 < 2 ^ 64" using "1.prems"(1) by linarith
    then show ?thesis
      using i False "1.prems" "1.IH" [OF False, of "i + 1" ?dst]
      by (simp add: encode_packet_size_from_step size_bytes_big take_Suc_conv_app_nth)
  qed
qed

lemma encode_packet_size_from_panic:
  assumes "n < 2 ^ 64" and "length dst < i + length (size_bytes n)"
  shows "encode_packet_size_from i (of_nat n) dst = Inl (Panic ''packet too big'')"
  using assms
proof (induction n arbitrary: i dst rule: size_bytes.induct)
  case (1 n)
  show ?case
  proof (cases "i < length dst")
    case False
    then show ?thesis by (subst encode_packet_size_from.simps) simp
  next
    case True
    then have n: "\<not> n < 128"
      using "1.prems"(2) by (auto simp: size_bytes_small)
    have "n div 128 < 2 ^ 64" using "1.prems"(1) by linarith
    then show ?thesis
      using True n "1.prems" "1.IH" [OF n, of "dst[i := of_nat (n mod 128 + 128)]" "i + 1"]
      by (simp add: encode_packet_size_from_step size_bytes_big)
  qed
qed

lemma length_size_bytes_le: "length (size_bytes n) \<le> Suc k \<longleftrightarrow> n < 128 ^ Suc k"
proof (induction k arbitrary: n)
  case 0
  then show ?case by (subst size_bytes.simps) (subst size_bytes.simps, simp)
next
  case (Suc k)
  show ?case
  proof (cases "n < 128")
    case True
    then have "n < 128 ^ Suc (Suc k)"
      by (meson less_le_trans one_le_numeral self_le_power zero_less_Suc)
    with True show ?thesis by (simp add: size_bytes_small)
  next
    case False
    then show ?thesis
      using Suc [of "n div 128"]
      by (simp add: size_bytes_big div_less_iff_less_mult mult.commute)
  qed
qed

lemma length_size_bytes_header: "length (size_bytes n) \<le> 4 \<longleftrightarrow> n < 2 ^ 28"
  using length_size_bytes_le [of n 3] by simp

lemma encode_packet_size_header:
  assumes "n < 2 ^ 28"
  shows "encode_packet_size (of_nat n) (replicate 4 0) =
    (Inr (length (size_bytes n), size_bytes n @ drop (length (size_bytes n)) (replicate 4 0))
      :: (io_error, _) result)"
  using encode_packet_size_from_ok [of n 0 "replicate 4 0"] assms
    length_size_bytes_header [of n]
  by (simp add: encode_packet_size_def)

lemma encode_packet_size_refused:
  assumes "2 ^ 28 \<le> n" and "n < 2 ^ 64"
  shows "encode_packet_size (of_nat n) (replicate 4 0) =
    (Inl (Panic ''packet too big'') :: (io_error, _) result)"
  using encode_packet_size_from_panic [of n "replicate 4 0" 0] assms
    length_size_bytes_header [of n]
  by (simp add: encode_packet_size_def)

lemma size_bytes_not_Nil [simp]: "size_bytes n \<noteq> []"
  by (subst size_bytes.simps) simp

section \<open>The control field\<close>

lemma u8_lt_16_bit: "(x :: u8) < 16 \<Longrightarrow> bit x k \<Longrightarrow> k < 4"
proof (rule ccontr)
  assume x: "x < 16" and b: "bit x k" and k: "\<not> k < 4"
  have "x = take_bit 4 x"
    using x by (simp add: word_unat_eq_iff unsigned_take_bit_eq take_bit_nat_eq_self word_less_nat_alt)
  then have "bit (take_bit 4 x) k" using b by simp
  then show False using k by (simp add: bit_take_bit_iff)
qed

lemma packet_type_u8_less: "packet_type_u8 t < 16"
  by (cases t) (simp_all add: word_less_nat_alt)

lemma packet_type_u8_inj [simp]: "packet_type_u8 s = packet_type_u8 t \<longleftrightarrow> s = t"
  by (cases s; cases t) simp_all

lemma bit_nibble: "bit (15 :: int) k \<longleftrightarrow> k < 4"
proof -
  have "bit (mask 4 :: int) k \<longleftrightarrow> k < 4"
    by (simp only: bit_mask_iff possible_bit_int simp_thms)
  then show ?thesis by (simp add: mask_eq_exp_minus_1)
qed

text \<open>The first byte of a packet, for flags that fit their four bits.\<close>

definition control_byte :: "packet_type \<Rightarrow> u8 \<Rightarrow> u8" where
  "control_byte ty flags = push_bit 4 (packet_type_u8 ty) OR flags"

lemma cf_packet_type_control [simp]:
  assumes "flags < 16"
  shows "cf_packet_type (ControlField (control_byte ty flags)) = packet_type_u8 ty"
proof (rule bit_word_eqI)
  fix k :: nat
  show "bit (cf_packet_type (ControlField (control_byte ty flags))) k = bit (packet_type_u8 ty) k"
    using u8_lt_16_bit [OF assms, of "4 + k"] u8_lt_16_bit [OF packet_type_u8_less, of ty k]
    by (auto simp: cf_packet_type_def control_byte_def bit_simps bit_nibble)
qed

lemma cf_flags_control [simp]:
  assumes "flags < 16"
  shows "cf_flags (ControlField (control_byte ty flags)) = flags"
proof (rule bit_word_eqI)
  fix k :: nat
  show "bit (cf_flags (ControlField (control_byte ty flags))) k = bit flags k"
    using u8_lt_16_bit [OF assms, of k]
    by (auto simp: cf_flags_def control_byte_def bit_simps bit_nibble)
qed

lemma from_type_and_flags_control:
  "flags < 16 \<Longrightarrow> from_type_and_flags ty flags = Inr (ControlField (control_byte ty flags))"
  by (simp add: from_type_and_flags_def control_byte_def not_le)

section \<open>The contract of an encoder\<close>

definition fixed_header :: "packet_type \<Rightarrow> u8 \<Rightarrow> nat \<Rightarrow> u8 list" where
  "fixed_header ty flags n = control_byte ty flags # size_bytes n"

locale packet_encoder =
  fixes E :: "'p encode_impl"
    and wf :: "'p \<Rightarrow> bool"
    and body :: "'p \<Rightarrow> u8 list"
    and flags :: "'p \<Rightarrow> u8"
  assumes compute_size: "wf p \<Longrightarrow> e_compute_size E p = Inr (length (body p))"
    and encode: "wf p \<Longrightarrow> length (body p) \<le> length (wr_rest wr) \<Longrightarrow>
      e_encode E p wr = Inr (flags p, put (body p) wr)"
    and flags_nibble: "wf p \<Longrightarrow> flags p < 16"
begin

lemma make_packet_t_ok:
  assumes "wf p" and "length (body p) < 2 ^ 28"
  shows "make_packet_t E p =
    Inr (map Some (fixed_header (e_packet_type E) (flags p) (length (body p)) @ body p))"
proof -
  let ?n = "length (body p)"
  let ?sb = "size_bytes ?n"
  note encode_packet_size_header [OF assms(2)]
  moreover have "drop 1 (replicate MAX_HEADER_SIZE 0) = replicate 4 (0 :: u8)"
    by (simp add: MAX_HEADER_SIZE_def)
  moreover have "e_encode E p (writer_new (drop (length ?sb + 1)
        (container_create (length ?sb + 1 + ?n)))) =
      Inr (flags p, put (body p) (writer_new (replicate ?n None)))"
    using encode [OF assms(1)] by (simp add: container_create_def writer_new_def)
  ultimately show ?thesis
    using assms(1) flags_nibble [OF assms(1)]
    by (simp add: make_packet_t_def compute_size Let_def finish_and_check_def writer_new_def
        from_type_and_flags_control ptr_copy_def fixed_header_def container_create_def
        MAX_HEADER_SIZE_def)
qed

lemma make_arc_packet_ok:
  assumes "wf p" and "length (body p) < 2 ^ 28"
  shows "make_arc_packet E p =
    Inr (fixed_header (e_packet_type E) (flags p) (length (body p)) @ body p)"
  unfolding make_arc_packet_def make_packet_t_ok [OF assms]
  by (simp only: res_bind.simps assume_init_def list_all_map_Some if_True map_the_map_Some)

lemma make_arc_packet_too_big:
  assumes "wf p" and "2 ^ 28 \<le> length (body p)" and "length (body p) < 2 ^ 64"
  shows "make_arc_packet E p = Inl (Panic ''packet too big'')"
proof -
  have "encode_packet_size (of_nat (length (body p))) (replicate 4 0)
      = (Inl (Panic ''packet too big'') :: (io_error, _) result)"
    by (rule encode_packet_size_refused) (use assms in auto)
  then show ?thesis
    using assms(1)
    by (simp add: make_arc_packet_def make_packet_t_def compute_size Let_def MAX_HEADER_SIZE_def)
qed

end

section \<open>The packets as encoders\<close>

subsection \<open>CONNECT\<close>

definition opt_body :: "u8 list option \<Rightarrow> u8 list" where
  "opt_body x = (case x of Some a \<Rightarrow> len_prefixed a | None \<Rightarrow> [])"

definition opt_fits :: "u8 list option \<Rightarrow> bool" where
  "opt_fits x = (case x of Some a \<Rightarrow> length a < 2 ^ 16 | None \<Rightarrow> True)"

lemma opt_body_simps [simp]:
  "opt_body None = []" "opt_body (Some a) = len_prefixed a" "opt_size None = 0"
  "opt_size (Some a) = 2 + length a" "opt_fits None" "opt_fits (Some a) = (length a < 2 ^ 16)"
  by (simp_all add: opt_body_def opt_size_def opt_fits_def array_size_def)

lemma length_opt_body [simp]: "length (opt_body x) = opt_size x"
  by (cases x) auto

lemma write_bytes_opt_put [writer_simps]:
  "opt_fits x \<Longrightarrow> opt_size x \<le> length (wr_rest wr) \<Longrightarrow>
     write_bytes_opt x wr = Inr (put (opt_body x) wr)"
  by (cases x) (auto simp: write_bytes_opt_def writer_simps)

definition connect_head :: "connect_packet \<Rightarrow> u8 list" where
  "connect_head p =
     be_bytes 4 @ str_bytes ''MQTT'' @ [4, connect_flags_of p] @ be_bytes (cp_keep_alive p)"

definition will_body :: "last_will option \<Rightarrow> u8 list" where
  "will_body w =
     (case w of Some will \<Rightarrow> len_prefixed (lw_topic will) @ len_prefixed (lw_message will)
      | None \<Rightarrow> [])"

definition connect_body :: "connect_packet \<Rightarrow> u8 list" where
  "connect_body p =
     connect_head p @ len_prefixed (cp_client_id p) @ will_body (cp_will p) @
     opt_body (cp_username p) @ opt_body (cp_password p)"

definition connect_wf :: "connect_packet \<Rightarrow> bool" where
  "connect_wf p =
     (length (cp_client_id p) < 2 ^ 16 \<and>
      (case cp_will p of
         Some will \<Rightarrow> length (lw_topic will) < 2 ^ 16 \<and> length (lw_message will) < 2 ^ 16
       | None \<Rightarrow> True) \<and>
      opt_fits (cp_username p) \<and> opt_fits (cp_password p))"

lemma length_connect_head [simp]: "length (connect_head p) = 10"
  by (simp add: connect_head_def str_bytes_def)

lemma connect_encode_put:
  assumes "connect_wf p" and "length (connect_body p) \<le> length (wr_rest wr)"
  shows "connect_encode p wr = Inr (0, put (connect_body p) wr)"
proof -
  have mem: "connect_header_to_mem
      \<lparr>protocol_name_len = from_native 4, protocol_name = str_bytes ''MQTT'',
       protocol_level = 4, connect_flags = connect_flags_of p,
       keep_alive_be = from_native (cp_keep_alive p)\<rparr> = connect_head p"
    by (simp add: connect_header_to_mem_def connect_head_def from_native_def)
  show ?thesis
    using assms unfolding connect_encode_def Let_def mem
    by (cases "cp_will p")
      (auto simp: connect_wf_def connect_body_def will_body_def writer_simps)
qed

interpretation connect: packet_encoder connect_impl connect_wf connect_body "\<lambda>_. 0"
proof
  fix p :: connect_packet
  show "e_compute_size connect_impl p = Inr (length (connect_body p))"
    by (auto simp: connect_impl_def connect_compute_size_def connect_body_def will_body_def
        connect_header_size_def array_size_def split: option.splits)
qed (simp_all add: connect_impl_def connect_encode_put)

subsection \<open>PUBLISH\<close>

definition publish_wf :: "outgoing_publish_packet \<Rightarrow> bool" where
  "publish_wf p =
     (length (op_topic p) < 2 ^ 16 \<and> pf_byte (op_flags p) < 16 \<and>
      (\<exists>q. flags_qos (op_flags p) = (Inr q :: (io_error, qos) result)))"

definition publish_body :: "outgoing_publish_packet \<Rightarrow> u8 list" where
  "publish_body p =
     len_prefixed (op_topic p) @
     (if flags_qos (op_flags p) = (Inr AtMostOnce :: (io_error, qos) result) then []
      else be_bytes (op_packet_id p)) @ op_payload p"

interpretation publish: packet_encoder publish_impl publish_wf publish_body
    "\<lambda>p. pf_byte (op_flags p)"
proof
  fix p :: outgoing_publish_packet and wr :: byte_writer
  show "publish_wf p \<Longrightarrow> e_compute_size publish_impl p = Inr (length (publish_body p))"
    by (auto simp: publish_impl_def publish_compute_size_def publish_wf_def publish_body_def
        array_size_def)
  show "publish_wf p \<Longrightarrow> length (publish_body p) \<le> length (wr_rest wr) \<Longrightarrow>
      e_encode publish_impl p wr = Inr (pf_byte (op_flags p), put (publish_body p) wr)"
    by (auto simp: publish_impl_def publish_encode_def publish_wf_def publish_body_def
        writer_simps split: if_splits)
qed (simp add: publish_wf_def)

subsection \<open>The packets with a packet identifier only, and the empty packets\<close>

definition simple_body :: "simple_packet \<Rightarrow> u8 list" where
  "simple_body p = be_bytes (sp_packet_id p)"

lemma simple_encoder:
  assumes "flags < 16"
  shows "packet_encoder (def_simple_packet ty flags) (\<lambda>_. True) simple_body (\<lambda>_. flags)"
  using assms
  by unfold_locales
    (auto simp: def_simple_packet_def simple_encode_def simple_body_def writer_simps)

interpretation pub_ack: packet_encoder pub_ack_impl "\<lambda>_. True" simple_body "\<lambda>_. 0"
  unfolding pub_ack_impl_def by (rule simple_encoder) simp

interpretation pub_rec: packet_encoder pub_rec_impl "\<lambda>_. True" simple_body "\<lambda>_. 0"
  unfolding pub_rec_impl_def by (rule simple_encoder) simp

interpretation pub_rel: packet_encoder pub_rel_impl "\<lambda>_. True" simple_body "\<lambda>_. 2"
  unfolding pub_rel_impl_def by (rule simple_encoder) simp

interpretation pub_comp: packet_encoder pub_comp_impl "\<lambda>_. True" simple_body "\<lambda>_. 0"
  unfolding pub_comp_impl_def by (rule simple_encoder) simp

interpretation unsub_ack: packet_encoder unsub_ack_impl "\<lambda>_. True" simple_body "\<lambda>_. 0"
  unfolding unsub_ack_impl_def by (rule simple_encoder) simp

interpretation ping_req: packet_encoder ping_req_impl "\<lambda>_. True" "\<lambda>_. []" "\<lambda>_. 0"
  by unfold_locales (auto simp: ping_req_impl_def def_empty_outgoing_packet_def empty_encode_def)

interpretation disconnect: packet_encoder disconnect_impl "\<lambda>_. True" "\<lambda>_. []" "\<lambda>_. 0"
  by unfold_locales (auto simp: disconnect_impl_def def_empty_outgoing_packet_def empty_encode_def)

interpretation ping_resp: packet_encoder ping_resp_impl "\<lambda>_. True" "\<lambda>_. []" "\<lambda>_. 0"
  by unfold_locales (auto simp: ping_resp_impl_def empty_encode_def)

subsection \<open>CONNACK\<close>

definition conn_ack_wf :: "conn_ack_packet \<Rightarrow> bool" where
  "conn_ack_wf p = (conn_ack_result p \<noteq> Inl ProtocolError)"

fun conn_ack_body :: "conn_ack_packet \<Rightarrow> u8 list" where
  "conn_ack_body (ConnAckPacket r) =
     (case conn_ack_header r of Inr (a, c) \<Rightarrow> [a, c] | Inl _ \<Rightarrow> [])"

lemma conn_ack_header_ok:
  "r \<noteq> Inl ProtocolError \<Longrightarrow> \<exists>a c. conn_ack_header r = Inr (a, c)"
  by (cases r rule: conn_ack_header.cases) auto

interpretation conn_ack: packet_encoder conn_ack_impl conn_ack_wf conn_ack_body "\<lambda>_. 0"
proof
  fix p :: conn_ack_packet and wr :: byte_writer
  assume wf: "conn_ack_wf p"
  then obtain a c where h: "conn_ack_header (conn_ack_result p) = Inr (a, c)"
    using conn_ack_header_ok [of "conn_ack_result p"] by (auto simp: conn_ack_wf_def)
  then have b: "conn_ack_body p = [a, c]" by (cases p) simp
  show "e_compute_size conn_ack_impl p = Inr (length (conn_ack_body p))"
    by (simp add: conn_ack_impl_def b)
  assume "length (conn_ack_body p) \<le> length (wr_rest wr)"
  then show "e_encode conn_ack_impl p wr = Inr (0, put (conn_ack_body p) wr)"
    by (simp add: conn_ack_impl_def conn_ack_encode_def h b writer_simps)
qed simp

subsection \<open>SUBSCRIBE and UNSUBSCRIBE\<close>

definition topic_filter_body :: "rstr \<times> qos \<Rightarrow> u8 list" where
  "topic_filter_body tq = len_prefixed (fst tq) @ [qos_u8 (snd tq)]"

definition subscribe_body :: "subscribe_packet \<Rightarrow> u8 list" where
  "subscribe_body p = be_bytes (sub_packet_id p) @ concat (map topic_filter_body (sub_topics p))"

definition subscribe_wf :: "subscribe_packet \<Rightarrow> bool" where
  "subscribe_wf p = (\<forall>tq \<in> set (sub_topics p). length (fst tq) < 2 ^ 16)"

lemma subscribe_topics_size:
  "subscribe_topics_size ts = length (concat (map topic_filter_body ts))"
  by (induction ts rule: subscribe_topics_size.induct)
    (auto simp: topic_filter_body_def array_size_def)

lemma subscribe_encode_topics_put:
  "\<forall>tq \<in> set ts. length (fst tq) < 2 ^ 16 \<Longrightarrow>
   length (concat (map topic_filter_body ts)) \<le> length (wr_rest wr) \<Longrightarrow>
   subscribe_encode_topics ts wr = Inr (put (concat (map topic_filter_body ts)) wr)"
  by (induction ts wr rule: subscribe_encode_topics.induct)
    (auto simp: topic_filter_body_def writer_simps)

interpretation subscribe: packet_encoder subscribe_impl subscribe_wf subscribe_body "\<lambda>_. 2"
  by unfold_locales
    (auto simp: subscribe_impl_def subscribe_compute_size_def subscribe_encode_def
      subscribe_topics_size subscribe_encode_topics_put subscribe_body_def subscribe_wf_def
      writer_simps)

definition unsubscribe_body :: "unsubscribe_packet \<Rightarrow> u8 list" where
  "unsubscribe_body p = be_bytes (un_packet_id p) @ concat (map len_prefixed (un_topics p))"

definition unsubscribe_wf :: "unsubscribe_packet \<Rightarrow> bool" where
  "unsubscribe_wf p = (\<forall>t \<in> set (un_topics p). length t < 2 ^ 16)"

lemma unsubscribe_topics_size:
  "unsubscribe_topics_size ts = length (concat (map len_prefixed ts))"
  by (induction ts) (auto simp: array_size_def)

lemma unsubscribe_encode_topics_put:
  "\<forall>t \<in> set ts. length t < 2 ^ 16 \<Longrightarrow>
   length (concat (map len_prefixed ts)) \<le> length (wr_rest wr) \<Longrightarrow>
   unsubscribe_encode_topics ts wr = Inr (put (concat (map len_prefixed ts)) wr)"
  by (induction ts wr rule: unsubscribe_encode_topics.induct) (auto simp: writer_simps)

interpretation unsubscribe: packet_encoder unsubscribe_impl unsubscribe_wf unsubscribe_body
    "\<lambda>_. 2"
  by unfold_locales
    (auto simp: unsubscribe_impl_def unsubscribe_compute_size_def unsubscribe_encode_def
      unsubscribe_topics_size unsubscribe_encode_topics_put unsubscribe_body_def
      unsubscribe_wf_def writer_simps)

subsection \<open>SUBACK\<close>

definition sub_ack_wf :: "sub_ack_packet \<Rightarrow> bool" where
  "sub_ack_wf p =
     (case sa_sub_results p of Static len values \<Rightarrow> len \<le> length values | Dynamic _ \<Rightarrow> True)"

definition sub_result_byte :: "subscription_result \<Rightarrow> u8" where
  "sub_result_byte r = (case r of Inr qos \<Rightarrow> qos_u8 qos | Inl _ \<Rightarrow> 128)"

definition sub_ack_list :: "sub_ack_packet \<Rightarrow> subscription_result list" where
  "sub_ack_list p =
     (case sa_sub_results p of Static len values \<Rightarrow> take len values | Dynamic d \<Rightarrow> d)"

definition sub_ack_body :: "sub_ack_packet \<Rightarrow> u8 list" where
  "sub_ack_body p = be_bytes (sa_packet_id p) @ map sub_result_byte (sub_ack_list p)"

lemma sub_results_list: "sub_ack_wf p \<Longrightarrow> sub_results p = Inr (sub_ack_list p)"
  by (auto simp: sub_ack_wf_def sub_results_def sub_ack_list_def
      split: subscription_result_list.splits)

lemma sub_ack_encode_results_put:
  "length rs \<le> length (wr_rest wr) \<Longrightarrow>
   sub_ack_encode_results rs wr = Inr (put (map sub_result_byte rs) wr)"
  by (induction rs wr rule: sub_ack_encode_results.induct)
    (auto simp: writer_simps sub_result_byte_def)

interpretation sub_ack: packet_encoder sub_ack_impl sub_ack_wf sub_ack_body "\<lambda>_. 0"
proof
  fix p :: sub_ack_packet and wr :: byte_writer
  assume wf: "sub_ack_wf p"
  then show "e_compute_size sub_ack_impl p = Inr (length (sub_ack_body p))"
    by (auto simp: sub_ack_impl_def sub_ack_compute_size_def sub_ack_body_def sub_ack_list_def
        sub_ack_wf_def split: subscription_result_list.splits)
  assume "length (sub_ack_body p) \<le> length (wr_rest wr)"
  with wf show "e_encode sub_ack_impl p wr = Inr (0, put (sub_ack_body p) wr)"
    by (simp add: sub_ack_impl_def sub_ack_encode_def sub_ack_body_def sub_results_list
        sub_ack_encode_results_put writer_simps)
qed simp

section \<open>Decoders never crash\<close>

lemma u8_le_2_cases: "\<not> 2 < (w :: u8) \<Longrightarrow> w = 0 \<or> w = 1 \<or> w = 2"
  by (simp add: word_less_nat_alt word_unat_eq_iff) linarith

lemma publish_flags_try_from_ok:
  assumes "publish_flags_try_from v = Inr f"
  shows "f = PublishFlags v" and "v < 16"
    and "(flags_qos f :: ('e, qos) result) \<in> {Inr AtMostOnce, Inr AtLeastOnce, Inr ExactlyOnce}"
proof -
  from assms show f: "f = PublishFlags v"
    by (auto simp: publish_flags_try_from_def split: if_splits)
  have "v AND NOT 15 = 0"
    using assms by (auto simp: publish_flags_try_from_def split: if_splits)
  then have "v = v AND 15"
    by (metis bit.conj_disj_distrib bit.disj_cancel_right bit.conj_one_right or.right_neutral)
  then have "v \<le> 15" by (metis word_and_le1)
  then show "v < 16" by (simp add: word_le_nat_alt word_less_nat_alt)
  have "\<not> 2 < drop_bit 1 (v AND 6)"
    using assms by (auto simp: publish_flags_try_from_def split: if_splits)
  from u8_le_2_cases [OF this]
  show "(flags_qos f :: ('e, qos) result) \<in> {Inr AtMostOnce, Inr AtLeastOnce, Inr ExactlyOnce}"
    by (auto simp: f flags_qos_def)
qed

lemma no_crash_try_from [simp]: "no_crash (publish_flags_try_from v)"
  by (simp add: publish_flags_try_from_def)

lemma publish_buffer:
  "res_bind (ptr_copy topic 0 (replicate (length topic + length payload) None)) (\<lambda>data.
   res_bind (ptr_copy payload (length topic) data) (\<lambda>data.
   res_bind (assume_init data) k)) = k (topic @ payload)"
  by (simp add: ptr_copy_def assume_init_def drop_replicate del: list_all_map_Some)
    (simp add: list_all_iff)

lemma no_crash_publish_decode: "no_crash (publish_decode rd cf)"
proof -
  have "no_crash (flags_qos f :: (packet_decode_error, qos) result)"
    if "publish_flags_try_from (cf_flags cf) = Inr f" for f
    using publish_flags_try_from_ok(3) [OF that, where ?'e = packet_decode_error] by auto
  then show ?thesis
    by (auto simp: publish_decode_def read_remaining_def publish_buffer
        intro!: no_crash_bind)
qed

lemma no_crash_sub_ack_fill:
  "i + length rs \<le> length vs \<Longrightarrow> no_crash (sub_ack_fill_static i rs vs)"
proof (induction i rs vs rule: sub_ack_fill_static.induct)
  case (2 i r rs vs)
  then show ?case
    by (auto intro!: no_crash_bind simp: parse_sub_result_def)
qed simp

lemma no_crash_sub_ack_push: "no_crash (sub_ack_push_dynamic rs vs)"
  by (induction rs vs rule: sub_ack_push_dynamic.induct)
    (auto intro!: no_crash_bind simp: parse_sub_result_def)

lemma no_crash_sub_ack_decode: "no_crash (sub_ack_decode rd cf)"
  by (auto simp: sub_ack_decode_def Let_def read_remaining_def remaining_def
      intro!: no_crash_bind no_crash_sub_ack_fill no_crash_sub_ack_push)

lemma no_crash_simple_decode: "no_crash (simple_decode rd cf)"
  by (auto simp: simple_decode_def intro!: no_crash_bind)

lemma no_crash_conn_ack_decode: "no_crash (conn_ack_decode rd cf)"
  by (auto simp: conn_ack_decode_def Let_def intro!: no_crash_bind)

lemma no_crash_read_map [simp]: "no_crash (read_map f r) = no_crash r"
  by (cases r) (auto simp: read_map_def no_crash_def split: fault.splits)

lemma from_bytes_no_crash: "no_crash (from_bytes rd cf)"
  by (simp add: from_bytes_def Let_def no_crash_conn_ack_decode no_crash_sub_ack_decode
      no_crash_publish_decode no_crash_simple_decode ping_resp_decode_def)

text \<open>
  The accessors of a decoded message are safe: the topic lies inside the allocation and is
  valid UTF-8, which is what the \<open>unsafe\<close> code of \<open>topic\<close> relies on.
\<close>

lemma publish_decode_ok:
  assumes "publish_decode rd cf = Inr (p, rest)"
  shows "\<exists>topic payload q. publish_topic p = Inr topic \<and> valid_utf8 topic \<and>
    publish_payload p = Inr payload \<and> flags_qos (pi_flags (publish_info p)) = Inr q \<and> rest = []
    \<and> pf_byte (pi_flags (publish_info p)) = cf_flags cf"
proof -
  from assms obtain flags topic rd1 where
    flags: "publish_flags_try_from (cf_flags cf) = Inr flags" and
    topic: "read_utf8 rd = Inr (topic, rd1)"
    by (auto simp: publish_decode_def res_bind_eq_Inr)
  then have "valid_utf8 topic" using read_utf8_split by blast
  with assms flags topic show ?thesis
    using publish_flags_try_from_ok [OF flags]
    by (auto simp: publish_decode_def res_bind_eq_Inr read_remaining_def publish_buffer
        publish_topic_def publish_payload_def publish_info_def split: if_splits)
qed

section \<open>Round trips\<close>

lemma publish_flags_new_ok:
  "pf_byte (publish_flags_new dup qos retain) < 16"
  "flags_qos (publish_flags_new dup qos retain) = Inr qos"
  "is_dup (publish_flags_new dup qos retain) = dup"
  "was_retained (publish_flags_new dup qos retain) = retain"
  "publish_flags_try_from (pf_byte (publish_flags_new dup qos retain))
     = Inr (publish_flags_new dup qos retain)"
  by (cases dup; cases qos; cases retain;
      simp add: publish_flags_new_def flags_qos_def is_dup_def was_retained_def
        publish_flags_try_from_def Let_def word_less_nat_alt)+

text \<open>The message that a PUBLISH packet carries.\<close>

definition message_of ::
    "publish_flags \<Rightarrow> u16 \<Rightarrow> rstr \<Rightarrow> u8 list \<Rightarrow> incoming_publish_packet" where
  "message_of flags packet_id topic payload =
     \<lparr>ip_header = \<lparr>topic_len = length topic,
                   info = \<lparr>pi_flags = flags, pi_packet_id = packet_id\<rparr>\<rparr>,
      ip_data = topic @ payload\<rparr>"

lemma publish_decode_body:
  assumes "length topic < 2 ^ 16" "valid_utf8 topic" "f = publish_flags_new dup qos retain"
  shows "publish_decode
      (publish_body \<lparr>op_flags = f, op_topic = topic, op_packet_id = pid, op_payload = payload\<rparr>)
      (ControlField (control_byte PT_Publish (pf_byte f)))
    = Inr (message_of f (if qos = AtMostOnce then 0 else pid) topic payload, [])"
  using assms
  by (simp add: publish_decode_def publish_body_def publish_flags_new_ok read_remaining_def
      publish_buffer message_of_def)

lemma connect_flags_bits:
  "(connect_flags_of p AND CF_WILL_FLAG = 0) = (cp_will p = None)"
  "(connect_flags_of p AND CF_USER_NAME = 0) = (cp_username p = None)"
  "(connect_flags_of p AND CF_PASSWORD = 0) = (cp_password p = None)"
  "(connect_flags_of p AND CF_CLEAN_SESSION = 0) = (\<not> cp_clean_session p)"
  "cp_will p = Some w \<Longrightarrow> (connect_flags_of p AND CF_WILL_RETAIN = 0) = (\<not> lw_retain w)"
  "cp_will p = Some w \<Longrightarrow>
     drop_bit CF_WILL_QOS_POS (connect_flags_of p) AND 3 = qos_u8 (lw_qos w)"
proof -
  obtain q where q: "q = (case cp_will p of Some w \<Rightarrow> lw_qos w | None \<Rightarrow> AtMostOnce)" by simp
  show "(connect_flags_of p AND CF_WILL_FLAG = 0) = (cp_will p = None)"
    "(connect_flags_of p AND CF_USER_NAME = 0) = (cp_username p = None)"
    "(connect_flags_of p AND CF_PASSWORD = 0) = (cp_password p = None)"
    "(connect_flags_of p AND CF_CLEAN_SESSION = 0) = (\<not> cp_clean_session p)"
    using q by (cases q; auto simp: connect_flags_of_def Let_def split: option.splits)+
  assume w: "cp_will p = Some w"
  show "(connect_flags_of p AND CF_WILL_RETAIN = 0) = (\<not> lw_retain w)"
    "drop_bit CF_WILL_QOS_POS (connect_flags_of p) AND 3 = qos_u8 (lw_qos w)"
    using w by (cases "lw_qos w"; auto simp: connect_flags_of_def Let_def)+
qed

lemma connect_header_of_mem_head:
  "connect_header_of_mem (connect_head p) =
     \<lparr>protocol_name_len = from_native 4, protocol_name = str_bytes ''MQTT'',
      protocol_level = 4, connect_flags = connect_flags_of p,
      keep_alive_be = from_native (cp_keep_alive p)\<rparr>"
proof -
  have "u16_of_mem [0, 4] = to_be 4"
    using u16_of_mem_be [of 4] by (simp add: be_bytes_def)
  then show ?thesis
    using u16_of_mem_be
    by (simp add: connect_header_of_mem_def connect_head_def str_bytes_def from_native_def
        be_bytes_def)
qed

definition connect_utf8 :: "connect_packet \<Rightarrow> bool" where
  "connect_utf8 p =
     (valid_utf8 (cp_client_id p) \<and>
      (case cp_will p of Some w \<Rightarrow> valid_utf8 (lw_topic w) | None \<Rightarrow> True) \<and>
      (case cp_username p of Some u \<Rightarrow> valid_utf8 u | None \<Rightarrow> True))"

lemma res_bind_opt_utf8:
  assumes "opt_fits x" and "\<And>a. x = Some a \<Longrightarrow> valid_utf8 a"
  shows "(if x = None then Inr (None, opt_body x @ rest)
     else res_bind (read_utf8 (opt_body x @ rest)) (\<lambda>(s, rd). Inr (Some s, rd))) = Inr (x, rest)"
  using assms by (cases x) auto

lemma res_bind_opt_bytes:
  assumes "opt_fits x"
  shows "(if x = None then Inr (None, opt_body x @ rest)
     else res_bind (read_byte_array (opt_body x @ rest)) (\<lambda>(s, rd). Inr (Some s, rd))) = Inr (x, rest)"
  using assms by (cases x) auto

lemma connect_decode_body:
  assumes "connect_wf p" and "connect_utf8 p"
  shows "connect_decode (connect_body p) (ControlField (control_byte PT_Connect 0)) = Inr (p, [])"
proof -
  have u: "\<And>a. cp_username p = Some a \<Longrightarrow> valid_utf8 a"
    using assms(2) by (simp add: connect_utf8_def)
  have user: "(if cp_username p = None then Inr (None, opt_body (cp_username p) @ rest)
     else res_bind (read_utf8 (opt_body (cp_username p) @ rest)) (\<lambda>(s, rd). Inr (Some s, rd)))
     = Inr (cp_username p, rest)" for rest
    using assms(1) u by (intro res_bind_opt_utf8) (auto simp: connect_wf_def)
  have pass: "(if cp_password p = None then Inr (None, opt_body (cp_password p))
     else res_bind (read_byte_array (opt_body (cp_password p))) (\<lambda>(s, rd). Inr (Some s, rd)))
     = Inr (cp_password p, [])"
    using assms(1) res_bind_opt_bytes [of "cp_password p" "[]"] by (auto simp: connect_wf_def)
  have qos: "(if qos_u8 q = 0 then Inr AtMostOnce else if qos_u8 q = 1 then Inr AtLeastOnce
     else if qos_u8 q = 2 then Inr ExactlyOnce else Inl (Panic ''explicit panic''))
     = (Inr q :: (packet_decode_error, qos) result)" for q
    by (cases q) auto
  show ?thesis
    using assms
    by (cases "cp_will p")
      (simp_all add: connect_decode_def connect_body_def read_trivial_append assert_eq_def
        connect_header_of_mem_head connect_header_size_def connect_flags_bits user pass
        will_body_def connect_wf_def connect_utf8_def Let_def qos)
qed

lemma simple_decode_body: "simple_decode (simple_body p) cf = Inr (p, [])"
  by (simp add: simple_decode_def simple_body_def)

lemma conn_ack_decode_body:
  assumes "conn_ack_wf p" and "\<And>x. conn_ack_result p = Inl (Unknown x) \<Longrightarrow> 5 < x"
  shows "conn_ack_decode (conn_ack_body p) cf = Inr (p, [])"
proof -
  obtain r where p: "p = ConnAckPacket r" by (cases p)
  have *: "read_trivial 2 id [a, b] = Inr ([a, b], [])" for a b :: u8
    by (simp add: read_trivial_long)
  show ?thesis
    using assms unfolding p
    by (cases r rule: conn_ack_header.cases)
      (auto simp: conn_ack_decode_def conn_ack_wf_def * Let_def word_less_nat_alt)
qed

lemma subscribe_decode_topics_body:
  assumes "\<forall>tq \<in> set ts. length (fst tq) < 2 ^ 16 \<and> valid_utf8 (fst tq)"
  shows "subscribe_decode_topics (concat (map topic_filter_body ts)) acc = Inr (acc @ ts, [])"
  using assms
proof (induction ts arbitrary: acc)
  case Nil
  then show ?case by (simp add: subscribe_decode_topics.simps remaining_def)
next
  case (Cons tq ts)
  obtain t q where tq: "tq = (t, q)" by (cases tq)
  have "read_utf8 (topic_filter_body tq @ concat (map topic_filter_body ts))
      = Inr (t, qos_u8 q # concat (map topic_filter_body ts))"
    using Cons.prems tq by (simp add: topic_filter_body_def)
  moreover have "0 < remaining (topic_filter_body tq @ concat (map topic_filter_body ts))"
    by (simp add: topic_filter_body_def remaining_def)
  ultimately show ?case
    using Cons.IH [of "acc @ [(t, q)]"] Cons.prems tq
    by (subst subscribe_decode_topics.simps) (cases q; simp)
qed

lemma subscribe_decode_body:
  assumes "subscribe_wf p" and "\<forall>tq \<in> set (sub_topics p). valid_utf8 (fst tq)"
  shows "subscribe_decode (subscribe_body p) (ControlField (control_byte PT_Subscribe 2))
    = Inr (p, [])"
  using assms
  by (simp add: subscribe_decode_def subscribe_body_def subscribe_wf_def assert_eq_def
      subscribe_decode_topics_body)

lemma unsubscribe_decode_topics_body:
  assumes "\<forall>t \<in> set ts. length t < 2 ^ 16 \<and> valid_utf8 t"
  shows "unsubscribe_decode_topics (concat (map len_prefixed ts)) acc = Inr (acc @ ts, [])"
  using assms
proof (induction ts arbitrary: acc)
  case Nil
  then show ?case by (simp add: unsubscribe_decode_topics.simps remaining_def)
next
  case (Cons t ts)
  then show ?case
    by (subst unsubscribe_decode_topics.simps) (simp add: remaining_def)
qed

lemma unsubscribe_decode_body:
  assumes "unsubscribe_wf p" and "\<forall>t \<in> set (un_topics p). valid_utf8 t"
  shows "unsubscribe_decode (unsubscribe_body p) (ControlField (control_byte PT_Unsubscribe 2))
    = Inr (p, [])"
  using assms
  by (simp add: unsubscribe_decode_def unsubscribe_body_def unsubscribe_wf_def assert_eq_def
      unsubscribe_decode_topics_body)

lemma parse_sub_result_byte [simp]: "parse_sub_result (sub_result_byte r) = Inr r"
proof (cases r)
  case (Inr q)
  then show ?thesis by (cases q) (simp_all add: parse_sub_result_def sub_result_byte_def)
qed (simp add: parse_sub_result_def sub_result_byte_def)

lemma sub_ack_fill_static_body:
  assumes "i + length rs \<le> length vs"
  shows "sub_ack_fill_static i (map sub_result_byte rs) vs
    = Inr (take i vs @ rs @ drop (i + length rs) vs)"
  using assms
proof (induction rs arbitrary: i vs)
  case Nil
  then show ?case by simp
next
  case (Cons r rs)
  then show ?case by (simp add: take_Suc_conv_app_nth)
qed

lemma sub_ack_push_dynamic_body:
  "sub_ack_push_dynamic (map sub_result_byte rs) vs = Inr (vs @ rs)"
  by (induction rs arbitrary: vs) auto

lemma sub_ack_new_wf: "sub_ack_wf (sub_ack_new pid rs)" "sub_ack_list (sub_ack_new pid rs) = rs"
  by (simp_all add: sub_ack_wf_def sub_ack_new_def sub_ack_list_def)

lemma sub_ack_decode_body:
  "sub_ack_decode (sub_ack_body (sub_ack_new pid rs)) cf = Inr (sub_ack_new pid rs, [])"
  using sub_ack_new_wf(2) [of pid rs]
    sub_ack_fill_static_body [of 0 rs "replicate MAX_STATIC_SUBS (Inl ())"]
    sub_ack_push_dynamic_body [of rs "[]"]
  by (simp add: sub_ack_decode_def sub_ack_body_def Let_def read_remaining_def remaining_def)
    (simp add: sub_ack_new_def)

end
