(* ===== verification/Codec_Properties.thy ===== *)
theory Codec_Properties
  imports Packet_Codec
begin

text \<open>
  The properties of the packet codec: what the client sends is decoded to the packet it was
  built from, what it receives is decoded without a crash, and what cannot be represented on
  the wire is refused by a panic, never sent truncated.
\<close>

lemmas packet_eval =
  fixed_header_def control_byte_def size_bytes_small len_prefixed_def be_bytes_def
  publish_flags_new_ok

lemma publish_wf_new:
  "length topic < 2 ^ 16 \<Longrightarrow>
   publish_wf \<lparr>op_flags = publish_flags_new dup qos retain, op_topic = topic,
               op_packet_id = pid, op_payload = payload\<rparr>"
  by (simp add: publish_wf_def publish_flags_new_ok)

text \<open>
  C9. A PUBLISH packet built by the client comes back unchanged: \<open>make_arc_packet\<close> yields the
  fixed header and the body, and \<open>IncomingPacket::from_bytes\<close> on that body returns the
  same flags, topic and payload, with the packet identifier for QoS 1 and 2 and zero for QoS 0,
  leaving no byte unread.
\<close>

theorem publish_roundtrip:
  assumes "length topic < 2 ^ 16" and "valid_utf8 topic"
    and "length topic + length payload < 2 ^ 28 - 4"
    and "f = publish_flags_new dup qos retain"
    and "p = \<lparr>op_flags = f, op_topic = topic, op_packet_id = pid, op_payload = payload\<rparr>"
  shows "make_arc_packet publish_impl p =
      Inr (fixed_header PT_Publish (pf_byte f) (length (publish_body p)) @ publish_body p) \<and>
    from_bytes (publish_body p) (ControlField (control_byte PT_Publish (pf_byte f))) =
      Inr (IP_Publish (message_of f (if qos = AtMostOnce then 0 else pid) topic payload), [])"
proof (rule conjI)
  have "length (publish_body p) < 2 ^ 28"
    using assms(3,5) by (auto simp: publish_body_def)
  then show "make_arc_packet publish_impl p =
      Inr (fixed_header PT_Publish (pf_byte f) (length (publish_body p)) @ publish_body p)"
    using publish.make_arc_packet_ok [of p] publish_wf_new assms
    by (simp add: publish_impl_def)
  show "from_bytes (publish_body p) (ControlField (control_byte PT_Publish (pf_byte f))) =
      Inr (IP_Publish (message_of f (if qos = AtMostOnce then 0 else pid) topic payload), [])"
    using publish_decode_body [of topic f dup qos retain pid payload] assms
    by (simp add: from_bytes_def publish_flags_new_ok read_map_def Let_def)
qed

theorem publish_roundtrip_witness:
  "make_arc_packet publish_impl
     \<lparr>op_flags = publish_flags_new True ExactlyOnce False, op_topic = [0x61],
      op_packet_id = 7, op_payload = [1, 2]\<rparr> = Inr [0x3C, 7, 0, 1, 0x61, 0, 7, 1, 2] \<and>
   from_bytes [0, 1, 0x61, 0, 7, 1, 2] (ControlField 0x3C) =
     Inr (IP_Publish (message_of (publish_flags_new True ExactlyOnce False) 7 [0x61] [1, 2]), [])"
proof -
  have h: "length [0x61 :: u8] < 2 ^ 16" "valid_utf8 [0x61]" by simp_all
  have f: "pf_byte (publish_flags_new True ExactlyOnce False) = 12"
    by (simp add: publish_flags_new_def Let_def)
  show ?thesis
    using publish_roundtrip [OF h, of "[1, 2]" "publish_flags_new True ExactlyOnce False"
        True ExactlyOnce False _ 7]
    by (simp add: publish_body_def packet_eval f)
qed

lemma publish_packet_made:
  assumes "p = \<lparr>op_flags = publish_flags_new dup qos retain, op_topic = topic,
                op_packet_id = pid, op_payload = payload\<rparr>"
    and "length (publish_body p) < 2 ^ 64"
  shows "make_arc_packet publish_impl p =
    (if 2 ^ 28 \<le> length (publish_body p) then Inl (Panic ''packet too big'')
     else if 2 ^ 16 \<le> length topic then Inl (Panic ''array too wide'')
     else Inr (fixed_header PT_Publish (pf_byte (op_flags p)) (length (publish_body p)) @
               publish_body p))"
proof -
  let ?n = "length (publish_body p)"
  have size: "publish_compute_size p = Inr ?n"
    using assms(1) by (auto simp: publish_compute_size_def publish_body_def array_size_def
        publish_flags_new_ok)
  consider "2 ^ 28 \<le> ?n" | "?n < 2 ^ 28" "2 ^ 16 \<le> length topic"
    | "?n < 2 ^ 28" "length topic < 2 ^ 16" by linarith
  then show ?thesis
  proof cases
    case 1
    then show ?thesis
      using assms(2) size
      by (simp add: make_arc_packet_def make_packet_t_def publish_impl_def Let_def
          encode_packet_size_refused MAX_HEADER_SIZE_def)
  next
    case 2
    then show ?thesis
      using size encode_packet_size_header [of ?n] assms(1)
      by (simp add: make_arc_packet_def make_packet_t_def publish_impl_def Let_def
          MAX_HEADER_SIZE_def publish_encode_def write_bytes_def)
  next
    case 3
    then show ?thesis
      using publish.make_arc_packet_ok [of p] publish_wf_new assms
      by (simp add: publish_impl_def)
  qed
qed

text \<open>
  C32. The panics of packet creation are exact: a PUBLISH packet is refused with "packet too
  big" when its body does not fit the four bytes of the remaining-length field, otherwise with
  "array too wide" when its topic does not fit a 16-bit length, and is otherwise built, header
  and body, with every byte initialised.
\<close>

theorem publish_size_limits:
  assumes "p = \<lparr>op_flags = publish_flags_new dup qos retain, op_topic = topic,
                op_packet_id = pid, op_payload = payload\<rparr>"
    and "length (publish_body p) < 2 ^ 64"
  shows "make_arc_packet publish_impl p =
    (if 2 ^ 28 \<le> length (publish_body p) then Inl (Panic ''packet too big'')
     else if 2 ^ 16 \<le> length topic then Inl (Panic ''array too wide'')
     else Inr (fixed_header PT_Publish (pf_byte (op_flags p)) (length (publish_body p)) @
               publish_body p))"
  by (rule publish_packet_made [OF assms])

theorem publish_size_limits_witness:
  "make_arc_packet publish_impl
     \<lparr>op_flags = publish_flags_new False AtMostOnce False, op_topic = replicate 65536 0x61,
      op_packet_id = 0, op_payload = []\<rparr> = Inl (Panic ''array too wide'')"
  using publish_size_limits
    [of _ False AtMostOnce False "replicate 65536 0x61" 0 "[]", OF refl]
  by (simp add: publish_body_def publish_flags_new_ok)

text \<open>
  A CONNECT packet whose fields fit their 16-bit lengths is always built, and the broker's
  decoder returns every field of it: session flag, keep-alive, client identifier, last will,
  user name and password.
\<close>

lemma connect_packet_made:
  assumes "connect_wf p" and "connect_utf8 p"
  shows "make_arc_packet connect_impl p =
      Inr (fixed_header PT_Connect 0 (length (connect_body p)) @ connect_body p) \<and>
    broker_from_bytes (connect_body p) (ControlField (control_byte PT_Connect 0)) =
      Inr (IB_Connect p, [])"
proof -
  have "opt_size x < 2 ^ 16 + 2" if "opt_fits x" for x
    using that by (cases x) auto
  from this [of "cp_username p"] this [of "cp_password p"]
  have "length (connect_body p) < 2 ^ 28"
    using assms(1) by (cases "cp_will p") (auto simp: connect_wf_def connect_body_def will_body_def)
  then show ?thesis
    using connect.make_arc_packet_ok assms
    by (simp add: connect_impl_def broker_from_bytes_def connect_decode_body read_map_def Let_def)
qed

text \<open>
  C30. SUBSCRIBE and UNSUBSCRIBE packets come back with their packet identifier and all their
  topics in order, when each topic fits a 16-bit length and the body fits the header.
\<close>

theorem subscribe_roundtrip:
  assumes "\<forall>tq \<in> set ts. length (fst tq) < 2 ^ 16 \<and> valid_utf8 (fst tq)"
    and "s = \<lparr>sub_packet_id = pid, sub_topics = ts\<rparr>"
    and "u = \<lparr>un_packet_id = pid, un_topics = map fst ts\<rparr>"
    and "length (subscribe_body s) < 2 ^ 28" and "length (unsubscribe_body u) < 2 ^ 28"
  shows "make_arc_packet subscribe_impl s =
      Inr (fixed_header PT_Subscribe 2 (length (subscribe_body s)) @ subscribe_body s) \<and>
    broker_from_bytes (subscribe_body s) (ControlField (control_byte PT_Subscribe 2)) =
      Inr (IB_Subscribe s, []) \<and>
    make_arc_packet unsubscribe_impl u =
      Inr (fixed_header PT_Unsubscribe 2 (length (unsubscribe_body u)) @ unsubscribe_body u) \<and>
    broker_from_bytes (unsubscribe_body u) (ControlField (control_byte PT_Unsubscribe 2)) =
      Inr (IB_Unsubscribe u, [])"
proof -
  have "subscribe_wf s" "unsubscribe_wf u"
    using assms(1-3) by (auto simp: subscribe_wf_def unsubscribe_wf_def)
  moreover have "\<forall>tq \<in> set (sub_topics s). valid_utf8 (fst tq)"
    "\<forall>t \<in> set (un_topics u). valid_utf8 t"
    using assms(1-3) by auto
  ultimately show ?thesis
    using subscribe.make_arc_packet_ok unsubscribe.make_arc_packet_ok assms(4,5)
    by (simp add: subscribe_impl_def unsubscribe_impl_def broker_from_bytes_def Let_def
        read_map_def subscribe_decode_body unsubscribe_decode_body)
qed

theorem subscribe_roundtrip_witness:
  "make_arc_packet subscribe_impl
     \<lparr>sub_packet_id = 3, sub_topics = [([0x61], AtLeastOnce), ([], AtMostOnce)]\<rparr> =
     Inr [0x82, 9, 0, 3, 0, 1, 0x61, 1, 0, 0, 0] \<and>
   make_arc_packet unsubscribe_impl \<lparr>un_packet_id = 3, un_topics = [[0x61], []]\<rparr> =
     Inr [0xA2, 7, 0, 3, 0, 1, 0x61, 0, 0]"
  using subscribe_roundtrip [of "[([0x61], AtLeastOnce), ([], AtMostOnce)]" _ 3]
  by (simp add: subscribe_body_def unsubscribe_body_def topic_filter_body_def packet_eval)





end

