(* ===== verification/Transport.thy ===== *)
theory Transport
  imports Errors
begin

text \<open>
  The byte transports: the \<open>Transport\<close> trait and \<open>TcpTransport\<close> of
  \<open>transport.rs\<close>, and the TLS transport of \<open>tls/mod.rs\<close>. A \<open>dyn Transport\<close> is its table
  of methods, a record over the type of the transport's state. The socket of tokio and the
  session of rustls are not part of the sources: they are records of functions that the
  definitions take as an argument, with what their documentation promises as the locales
  \<open>tcp_socket\<close> and \<open>tls_session\<close>. The contract of a transport is the locale
  \<open>transport_contract\<close>; both transports meet it.
\<close>

section \<open>The trait\<close>

record wanted_flags =
  wants_read :: bool
  wants_write :: bool

text \<open>
  \<open>read\<close> is given the length of the destination and returns the bytes it stored there, so the
  \<open>usize\<close> of the source is their number.
\<close>

record 't transport_ops =
  t_wants :: "'t \<Rightarrow> bool \<Rightarrow> bool \<Rightarrow> wanted_flags"
  t_pre_read :: "('t, io_error, bool) act"
  t_read :: "nat \<Rightarrow> ('t, io_error, u8 list) act"
  t_pre_write :: "('t, io_error, unit) act"
  t_write :: "u8 list \<Rightarrow> bool \<Rightarrow> ('t, io_error, nat) act"
  t_flush :: "('t, io_error, unit) act"
  t_send_close_notify :: "'t \<Rightarrow> 't"

text \<open>
  What the transceiver relies on. \<open>inp t\<close> is the sequence of bytes that the peer has sent or
  will send and that have not been read yet, \<open>out t\<close> the sequence of all bytes
  that were accepted for transmission.
\<close>

definition crash_free :: "('s, 'e, 'a) act \<Rightarrow> bool" where
  "crash_free m = (\<forall>s. no_crash (fst (m s)))"

definition keeps :: "('s \<Rightarrow> 'v) \<Rightarrow> ('s, 'e, 'a) act \<Rightarrow> bool" where
  "keeps f m = (\<forall>s. f (snd (m s)) = f s)"

locale transport_contract =
  fixes T :: "'t transport_ops"
    and inp :: "'t \<Rightarrow> u8 list"
    and out :: "'t \<Rightarrow> u8 list"
  assumes read_ok: "t_read T n t = (Inr bs, t') \<Longrightarrow> length bs \<le> n \<and> inp t = bs @ inp t'"
    and read_err: "t_read T n t = (Inl f, t') \<Longrightarrow> inp t' = inp t"
    and read_out: "keeps out (t_read T n)"
    and write_ok: "t_write T src z t = (Inr k, t') \<Longrightarrow>
      k \<le> length src \<and> out t' = out t @ take k src"
    and write_err: "t_write T src z t = (Inl f, t') \<Longrightarrow> out t' = out t"
    and write_inp: "keeps inp (t_write T src z)"
    and write_zero: "t_write T src True t = (Inl (Err e), t') \<Longrightarrow> io_kind e \<noteq> WouldBlock"
    and flush_blocks: "t_flush T t = (Inl (Err e), t') \<Longrightarrow> io_kind e \<noteq> WouldBlock"
    and others_keep: "keeps inp (t_pre_read T)" "keeps out (t_pre_read T)"
      "keeps inp (t_pre_write T)" "keeps out (t_pre_write T)"
      "keeps inp (t_flush T)" "keeps out (t_flush T)"
      "inp (t_send_close_notify T t) = inp t" "out (t_send_close_notify T t) = out t"
    and no_crashes: "crash_free (t_pre_read T)" "crash_free (t_read T n)"
      "crash_free (t_pre_write T)" "crash_free (t_write T src z)" "crash_free (t_flush T)"

lemma keepsD: "keeps f m \<Longrightarrow> m s = (r, s') \<Longrightarrow> f s' = f s"
  unfolding keeps_def by (metis snd_conv)

lemma crash_freeD: "crash_free m \<Longrightarrow> m s = (r, s') \<Longrightarrow> no_crash r"
  unfolding crash_free_def by (metis fst_conv)

section \<open>TCP\<close>

text \<open>\<open>TcpStream::try_read\<close> and \<open>TcpStream::try_write\<close>.\<close>

record 'c tcp_stream =
  try_read :: "nat \<Rightarrow> ('c, io_error, u8 list) act"
  try_write :: "u8 list \<Rightarrow> ('c, io_error, nat) act"

record 'c tcp_transport =
  tcp :: 'c

definition tcp_transport_new :: "'c \<Rightarrow> 'c tcp_transport" where
  "tcp_transport_new stream = \<lparr>tcp = stream\<rparr>"

abbreviation on_tcp :: "('c, 'e, 'a) act \<Rightarrow> ('c tcp_transport, 'e, 'a) act" where
  "on_tcp \<equiv> act_zoom tcp (\<lambda>c t. t\<lparr>tcp := c\<rparr>)"

definition tcp_write ::
    "'c tcp_stream \<Rightarrow> u8 list \<Rightarrow> bool \<Rightarrow> ('c tcp_transport, io_error, nat) act" where
  "tcp_write S src zero_if_would_block t =
     (if zero_if_would_block
      then case on_tcp (try_write S src) t of
             (Inr x, t') \<Rightarrow> (Inr x, t')
           | (Inl (Err err), t') \<Rightarrow>
               if io_kind err = WouldBlock then (Inr 0, t') else (Inl (Err err), t')
           | (Inl f, t') \<Rightarrow> (Inl f, t')
      else on_tcp (try_write S src) t)"

definition tcp_transport_ops :: "'c tcp_stream \<Rightarrow> 'c tcp_transport transport_ops" where
  "tcp_transport_ops S =
     \<lparr>t_wants = (\<lambda>t rd_hint wr_hint. \<lparr>wants_read = rd_hint, wants_write = wr_hint\<rparr>),
      t_pre_read = act_return True,
      t_read = (\<lambda>n. on_tcp (try_read S n)),
      t_pre_write = act_return (),
      t_write = tcp_write S,
      t_flush = act_return (),
      t_send_close_notify = (\<lambda>t. t)\<rparr>"

locale tcp_socket =
  fixes S :: "'c tcp_stream"
    and c_inp :: "'c \<Rightarrow> u8 list"
    and c_out :: "'c \<Rightarrow> u8 list"
  assumes try_read_ok: "try_read S n c = (Inr bs, c') \<Longrightarrow>
      length bs \<le> n \<and> c_inp c = bs @ c_inp c' \<and> c_out c' = c_out c"
    and try_read_err: "try_read S n c = (Inl f, c') \<Longrightarrow>
      c_inp c' = c_inp c \<and> c_out c' = c_out c \<and> (\<exists>e. f = Err e)"
    and try_write_ok: "try_write S src c = (Inr k, c') \<Longrightarrow>
      k \<le> length src \<and> c_out c' = c_out c @ take k src \<and> c_inp c' = c_inp c"
    and try_write_err: "try_write S src c = (Inl f, c') \<Longrightarrow>
      c_inp c' = c_inp c \<and> c_out c' = c_out c \<and> (\<exists>e. f = Err e)"
begin

lemma tcp_write_cases:
  assumes "tcp_write S src z t = (r, t')"
  obtains k where "r = Inr k" "k \<le> length src" "c_out (tcp t') = c_out (tcp t) @ take k src"
      "c_inp (tcp t') = c_inp (tcp t)"
    | e where "r = Inl (Err e)" "c_out (tcp t') = c_out (tcp t)" "c_inp (tcp t') = c_inp (tcp t)"
      "z \<longrightarrow> io_kind e \<noteq> WouldBlock"
proof -
  obtain r0 c where w: "try_write S src (tcp t) = (r0, c)" by fastforce
  show ?thesis
  proof (cases r0)
    case (Inl f)
    with try_write_err w obtain e where "f = Err e" "c_inp c = c_inp (tcp t)"
      "c_out c = c_out (tcp t)" by blast
    with that assms w Inl show ?thesis
      by (auto simp: tcp_write_def act_zoom_def split: if_splits)
  next
    case (Inr k)
    with that(1) try_write_ok assms w show ?thesis
      by (auto simp: tcp_write_def act_zoom_def split: if_splits)
  qed
qed

end

sublocale tcp_socket \<subseteq> tcp: transport_contract "tcp_transport_ops S"
    "\<lambda>t. c_inp (tcp t)" "\<lambda>t. c_out (tcp t)"
proof
  fix src z t k t' e f
  show "t_write (tcp_transport_ops S) src z t = (Inr k, t') \<Longrightarrow>
      k \<le> length src \<and> c_out (tcp t') = c_out (tcp t) @ take k src"
    by (auto simp: tcp_transport_ops_def elim: tcp_write_cases)
  show "t_write (tcp_transport_ops S) src z t = (Inl f, t') \<Longrightarrow> c_out (tcp t') = c_out (tcp t)"
    by (auto simp: tcp_transport_ops_def elim: tcp_write_cases)
  show "t_write (tcp_transport_ops S) src True t = (Inl (Err e), t') \<Longrightarrow> io_kind e \<noteq> WouldBlock"
    by (auto simp: tcp_transport_ops_def elim: tcp_write_cases)
  have "c_inp (tcp (snd (tcp_write S src z t))) = c_inp (tcp t)"
    "no_crash (fst (tcp_write S src z t))" for t
    by (cases "tcp_write S src z t"; auto elim: tcp_write_cases)+
  then show "keeps (\<lambda>t. c_inp (tcp t)) (t_write (tcp_transport_ops S) src z)"
    "crash_free (t_write (tcp_transport_ops S) src z)"
    by (simp_all add: keeps_def crash_free_def tcp_transport_ops_def)
next
  fix n t
  have "no_crash (fst (try_read S n c))" "c_out (snd (try_read S n c)) = c_out c" for c
    by (cases "try_read S n c" rule: prod.exhaust; cases "fst (try_read S n c)";
        use try_read_ok try_read_err in fastforce)+
  then show "crash_free (t_read (tcp_transport_ops S) n)"
    "keeps (\<lambda>t. c_out (tcp t)) (t_read (tcp_transport_ops S) n)"
    by (simp_all add: crash_free_def keeps_def tcp_transport_ops_def act_zoom_def split: prod.splits)
       (metis fst_conv snd_conv)+
qed (use try_read_ok try_read_err in
  \<open>auto simp: tcp_transport_ops_def act_zoom_def keeps_def crash_free_def act_simps
     split: prod.splits\<close>)

subsection \<open>A concrete socket\<close>

text \<open>
  A socket that plays a script: what each read finds (a chunk of bytes, or nothing yet) and how
  many bytes each write accepts. At the end of the script the peer has closed its side, and
  writes are accepted in full.
\<close>

record script =
  sc_reads :: "u8 list option list"
  sc_writes :: "nat option list"
  sc_out :: "u8 list"

definition script_read :: "nat \<Rightarrow> (script, io_error, u8 list) act" where
  "script_read n s =
     (case sc_reads s of
        [] \<Rightarrow> (Inr [], s)
      | None # rs \<Rightarrow> (Inl (Err would_block), s\<lparr>sc_reads := rs\<rparr>)
      | Some c # rs \<Rightarrow>
          if c = [] then (Inl (Err would_block), s\<lparr>sc_reads := rs\<rparr>)
          else (Inr (take n c),
                s\<lparr>sc_reads := (if length c \<le> n then rs else Some (drop n c) # rs)\<rparr>))"

definition script_write :: "u8 list \<Rightarrow> (script, io_error, nat) act" where
  "script_write src s =
     (case sc_writes s of
        [] \<Rightarrow> (Inr (length src), s\<lparr>sc_out := sc_out s @ src\<rparr>)
      | None # ws \<Rightarrow> (Inl (Err would_block), s\<lparr>sc_writes := ws\<rparr>)
      | Some k # ws \<Rightarrow>
          if k = 0 then (Inl (Err would_block), s\<lparr>sc_writes := ws\<rparr>)
          else (Inr (min k (length src)), s\<lparr>sc_writes := ws, sc_out := sc_out s @ take k src\<rparr>))"

definition script_tcp :: "script tcp_stream" where
  "script_tcp = \<lparr>try_read = script_read, try_write = script_write\<rparr>"

definition script_inp :: "script \<Rightarrow> u8 list" where
  "script_inp s = concat (map (\<lambda>r. case r of Some c \<Rightarrow> c | None \<Rightarrow> []) (sc_reads s))"

interpretation scripted: tcp_socket script_tcp script_inp sc_out
  by unfold_locales
    (auto simp: script_tcp_def script_read_def script_write_def script_inp_def min_def
      split: list.splits option.splits if_splits)

section \<open>TLS\<close>

text \<open>
  The parts of rustls' \<open>ConnectionCommon\<close> that the transport calls. \<open>read_tls\<close> and
  \<open>write_tls\<close> are given the \<open>TryRWProxy\<close>, that is the two functions of the socket;
  \<open>process_new_packets\<close> returns the number of plaintext bytes ready to be read.
\<close>

record ('s, 'c) tls_connection =
  c_wants_read :: "'s \<Rightarrow> bool"
  c_wants_write :: "'s \<Rightarrow> bool"
  c_read_tls :: "(nat \<Rightarrow> ('c, io_error, u8 list) act) \<Rightarrow> ('s \<times> 'c, io_error, nat) act"
  c_process_new_packets :: "('s, nat, nat) act"
  c_reader_read :: "nat \<Rightarrow> ('s, io_error, u8 list) act"
  c_write_tls :: "(u8 list \<Rightarrow> ('c, io_error, nat) act) \<Rightarrow> ('s \<times> 'c, io_error, nat) act"
  c_writer_write :: "u8 list \<Rightarrow> ('s, io_error, nat) act"
  c_writer_flush :: "('s, io_error, unit) act"
  c_send_close_notify :: "'s \<Rightarrow> 's"

record ('s, 'c) tls_transport =
  tls_tcp :: 'c
  tls :: 's

definition tls_transport_new :: "'c \<Rightarrow> 's \<Rightarrow> ('s, 'c) tls_transport" where
  "tls_transport_new c s = \<lparr>tls_tcp = c, tls = s\<rparr>"

abbreviation on_tls :: "('s, 'e, 'a) act \<Rightarrow> (('s, 'c) tls_transport, 'e, 'a) act" where
  "on_tls \<equiv> act_zoom tls (\<lambda>s t. t\<lparr>tls := s\<rparr>)"

abbreviation on_both :: "('s \<times> 'c, 'e, 'a) act \<Rightarrow> (('s, 'c) tls_transport, 'e, 'a) act" where
  "on_both \<equiv> act_zoom (\<lambda>t. (tls t, tls_tcp t)) (\<lambda>(s, c) t. t\<lparr>tls := s, tls_tcp := c\<rparr>)"

definition tls_error :: "nat \<Rightarrow> io_error" where
  "tls_error err = IoError Other (TlsPayload err)"

definition tls_process ::
    "('s, 'c) tls_connection \<Rightarrow> (('s, 'c) tls_transport, io_error, bool) act" where
  "tls_process C t =
     (case c_process_new_packets C (tls t) of
        (r, s) \<Rightarrow> (res_bind (map_err tls_error r) (\<lambda>n. Inr (0 < n)), t\<lparr>tls := s\<rparr>))"

definition tls_pre_read ::
    "('s, 'c) tls_connection \<Rightarrow> 'c tcp_stream \<Rightarrow> (('s, 'c) tls_transport, io_error, bool) act" where
  "tls_pre_read C S t =
     (case on_both (c_read_tls C (try_read S)) t of
        (Inl (Err err), t') \<Rightarrow>
          if io_kind err = WouldBlock then (Inr False, t') else tls_process C t'
      | (Inl f, t') \<Rightarrow> (Inl f, t')
      | (Inr _, t') \<Rightarrow> tls_process C t')"

definition tls_pre_write ::
    "('s, 'c) tls_connection \<Rightarrow> 'c tcp_stream \<Rightarrow> (('s, 'c) tls_transport, io_error, unit) act" where
  "tls_pre_write C S t =
     (case on_both (c_write_tls C (try_write S)) t of
        (Inr written, t') \<Rightarrow>
          if written \<le> 0 then (Inl (Err (IoError UnexpectedEof NoPayload)), t') else (Inr (), t')
      | (Inl (Err err), t') \<Rightarrow>
          if io_kind err = WouldBlock then (Inr (), t') else (Inl (Err err), t')
      | (Inl f, t') \<Rightarrow> (Inl f, t'))"

definition tls_write ::
    "('s, 'c) tls_connection \<Rightarrow> u8 list \<Rightarrow> bool \<Rightarrow> (('s, 'c) tls_transport, io_error, nat) act" where
  "tls_write C src zero_if_would_block =
     act_bind (on_tls (c_writer_write C src)) (\<lambda>written.
       if written \<le> 0 \<and> \<not> zero_if_would_block then act_fail (Err would_block)
       else act_return written)"

definition tls_transport_ops ::
    "('s, 'c) tls_connection \<Rightarrow> 'c tcp_stream \<Rightarrow> ('s, 'c) tls_transport transport_ops" where
  "tls_transport_ops C S =
     \<lparr>t_wants = (\<lambda>t _ _. \<lparr>wants_read = c_wants_read C (tls t), wants_write = c_wants_write C (tls t)\<rparr>),
      t_pre_read = tls_pre_read C S,
      t_read = (\<lambda>n. on_tls (c_reader_read C n)),
      t_pre_write = tls_pre_write C S,
      t_write = tls_write C,
      t_flush = on_tls (c_writer_flush C),
      t_send_close_notify = (\<lambda>t. t\<lparr>tls := c_send_close_notify C (tls t)\<rparr>)\<rparr>"

text \<open>
  A TLS session, with \<open>s_inp\<close> the plaintext that the peer has sent or will send and that has
  not been read, and \<open>s_out\<close> the plaintext accepted for transmission. Both depend on
  session and socket, and the calls that move records between the two keep them.
\<close>

locale tls_session =
  fixes C :: "('s, 'c) tls_connection"
    and S :: "'c tcp_stream"
    and s_inp :: "'s \<times> 'c \<Rightarrow> u8 list"
    and s_out :: "'s \<Rightarrow> u8 list"
  assumes read_tls: "keeps s_inp (c_read_tls C (try_read S))"
      "keeps (\<lambda>(s, c). s_out s) (c_read_tls C (try_read S))"
      "crash_free (c_read_tls C (try_read S))"
    and write_tls: "keeps s_inp (c_write_tls C (try_write S))"
      "keeps (\<lambda>(s, c). s_out s) (c_write_tls C (try_write S))"
      "crash_free (c_write_tls C (try_write S))"
    and process: "c_process_new_packets C s = (r, s') \<Longrightarrow>
      s_inp (s', c) = s_inp (s, c) \<and> s_out s' = s_out s \<and> no_crash r"
    and reader_ok: "c_reader_read C n s = (Inr bs, s') \<Longrightarrow>
      length bs \<le> n \<and> s_inp (s, c) = bs @ s_inp (s', c) \<and> s_out s' = s_out s"
    and reader_err: "c_reader_read C n s = (Inl f, s') \<Longrightarrow>
      s_inp (s', c) = s_inp (s, c) \<and> s_out s' = s_out s \<and> (\<exists>e. f = Err e)"
    and writer_ok: "c_writer_write C src s = (Inr k, s') \<Longrightarrow>
      k \<le> length src \<and> s_out s' = s_out s @ take k src \<and> s_inp (s', c) = s_inp (s, c)"
    and writer_err: "c_writer_write C src s = (Inl f, s') \<Longrightarrow>
      s_out s' = s_out s \<and> s_inp (s', c) = s_inp (s, c) \<and>
      (\<exists>e. f = Err e \<and> io_kind e \<noteq> WouldBlock)"
    and writer_flush: "c_writer_flush C s = (fr, s') \<Longrightarrow>
      s_out s' = s_out s \<and> s_inp (s', c) = s_inp (s, c) \<and> no_crash fr \<and>
      (\<forall>e. fr = Inl (Err e) \<longrightarrow> io_kind e \<noteq> WouldBlock)"
    and close_notify: "s_out (c_send_close_notify C s) = s_out s"
      "s_inp (c_send_close_notify C s, c) = s_inp (s, c)"

context tls_session
begin

abbreviation t_inp :: "('s, 'c) tls_transport \<Rightarrow> u8 list" where
  "t_inp t \<equiv> s_inp (tls t, tls_tcp t)"

abbreviation t_out :: "('s, 'c) tls_transport \<Rightarrow> u8 list" where
  "t_out t \<equiv> s_out (tls t)"

lemma on_both_keeps:
  assumes "keeps s_inp m" and "keeps (\<lambda>(s, c). s_out s) m" and "crash_free m"
    and "on_both m t = (r, t')"
  shows "t_inp t' = t_inp t \<and> t_out t' = t_out t \<and> no_crash r"
  using assms
  by (auto simp: act_zoom_def split: prod.splits dest!: keepsD crash_freeD)

lemma tls_process_keeps:
  "tls_process C t = (r, t') \<Longrightarrow> t_inp t' = t_inp t \<and> t_out t' = t_out t \<and> no_crash r"
  by (auto simp: tls_process_def split: prod.splits dest!: process [where c = "tls_tcp t"]
      intro!: no_crash_bind)

lemma tls_pre_read_keeps:
  assumes "tls_pre_read C S t = (r, t')"
  shows "t_inp t' = t_inp t \<and> t_out t' = t_out t \<and> no_crash r"
proof -
  obtain r0 t0 where b: "on_both (c_read_tls C (try_read S)) t = (r0, t0)" by fastforce
  note k = on_both_keeps [OF read_tls b]
  show ?thesis
    using assms b k
    by (auto simp: tls_pre_read_def split: sum.splits fault.splits if_splits
        dest!: tls_process_keeps)
qed

lemma tls_pre_write_keeps:
  assumes "tls_pre_write C S t = (r, t')"
  shows "t_inp t' = t_inp t \<and> t_out t' = t_out t \<and> no_crash r"
proof -
  obtain r0 t0 where b: "on_both (c_write_tls C (try_write S)) t = (r0, t0)" by fastforce
  note k = on_both_keeps [OF write_tls b]
  show ?thesis
    using assms b k
    by (auto simp: tls_pre_write_def split: sum.splits fault.splits if_splits)
qed

lemma tls_write_cases:
  assumes "tls_write C src z t = (r, t')"
  obtains k where "r = Inr k" "k \<le> length src" "t_out t' = t_out t @ take k src"
      "t_inp t' = t_inp t"
    | e where "r = Inl (Err e)" "t_out t' = t_out t" "t_inp t' = t_inp t"
      "z \<longrightarrow> io_kind e \<noteq> WouldBlock"
proof -
  obtain r0 s where w: "c_writer_write C src (tls t) = (r0, s)" by fastforce
  show ?thesis
  proof (cases r0)
    case (Inl f)
    with writer_err [where c = "tls_tcp t"] w that(2) assms show ?thesis
      by (fastforce simp: tls_write_def act_bind_def act_zoom_def)
  next
    case (Inr k)
    with writer_ok [where c = "tls_tcp t"] w that assms show ?thesis
      by (fastforce simp: tls_write_def act_bind_def act_zoom_def act_simps split: if_splits)
  qed
qed

lemma tls_read_keeps:
  assumes "on_tls (c_reader_read C n) t = (r, t')"
  shows "t_out t' = t_out t \<and> no_crash r"
  using assms reader_ok [where c = "tls_tcp t"] reader_err [where c = "tls_tcp t"]
  by (cases r) (fastforce simp: act_zoom_def split: prod.splits)+

lemma tls_flush_keeps:
  assumes "on_tls (c_writer_flush C) t = (r, t')"
  shows "t_inp t' = t_inp t \<and> t_out t' = t_out t \<and> no_crash r"
  using assms writer_flush [where c = "tls_tcp t"]
  by (auto simp: act_zoom_def split: prod.splits)

end

sublocale tls_session \<subseteq> tls: transport_contract "tls_transport_ops C S" t_inp t_out
proof
  fix src z t k t' e f n
  show "t_write (tls_transport_ops C S) src z t = (Inr k, t') \<Longrightarrow>
      k \<le> length src \<and> t_out t' = t_out t @ take k src"
    by (auto simp: tls_transport_ops_def elim: tls_write_cases)
  show "t_write (tls_transport_ops C S) src z t = (Inl f, t') \<Longrightarrow> t_out t' = t_out t"
    by (auto simp: tls_transport_ops_def elim: tls_write_cases)
  show "t_write (tls_transport_ops C S) src True t = (Inl (Err e), t') \<Longrightarrow> io_kind e \<noteq> WouldBlock"
    by (auto simp: tls_transport_ops_def elim: tls_write_cases)
  show "t_flush (tls_transport_ops C S) t = (Inl (Err e), t') \<Longrightarrow> io_kind e \<noteq> WouldBlock"
    using writer_flush by (fastforce simp: tls_transport_ops_def act_zoom_def split: prod.splits)
  have "t_inp (snd (tls_write C src z t)) = t_inp t" "no_crash (fst (tls_write C src z t))" for t
    by (cases "tls_write C src z t"; auto elim: tls_write_cases)+
  then show "keeps t_inp (t_write (tls_transport_ops C S) src z)"
    "crash_free (t_write (tls_transport_ops C S) src z)"
    by (simp_all add: keeps_def crash_free_def tls_transport_ops_def)
  show "keeps t_out (t_read (tls_transport_ops C S) n)"
    "crash_free (t_read (tls_transport_ops C S) n)"
    unfolding keeps_def crash_free_def
    using tls_read_keeps by (simp add: tls_transport_ops_def, metis prod.collapse)+
  show "keeps t_inp (t_pre_read (tls_transport_ops C S))"
    "keeps t_out (t_pre_read (tls_transport_ops C S))"
    "crash_free (t_pre_read (tls_transport_ops C S))"
    unfolding keeps_def crash_free_def
    using tls_pre_read_keeps by (simp add: tls_transport_ops_def, metis prod.collapse)+
  show "keeps t_inp (t_pre_write (tls_transport_ops C S))"
    "keeps t_out (t_pre_write (tls_transport_ops C S))"
    "crash_free (t_pre_write (tls_transport_ops C S))"
    unfolding keeps_def crash_free_def
    using tls_pre_write_keeps by (simp add: tls_transport_ops_def, metis prod.collapse)+
  show "keeps t_inp (t_flush (tls_transport_ops C S))"
    "keeps t_out (t_flush (tls_transport_ops C S))"
    "crash_free (t_flush (tls_transport_ops C S))"
    unfolding keeps_def crash_free_def
    using tls_flush_keeps by (simp add: tls_transport_ops_def, metis prod.collapse)+
next
  fix n t bs t' and f
  show "t_read (tls_transport_ops C S) n t = (Inr bs, t') \<Longrightarrow>
      length bs \<le> n \<and> t_inp t = bs @ t_inp t'"
    using reader_ok by (fastforce simp: tls_transport_ops_def act_zoom_def split: prod.splits)
  show "t_read (tls_transport_ops C S) n t = (Inl f, t') \<Longrightarrow> t_inp t' = t_inp t"
    using reader_err by (fastforce simp: tls_transport_ops_def act_zoom_def split: prod.splits)
qed (simp_all add: tls_transport_ops_def close_notify)

section \<open>Transports that deliver\<close>

text \<open>
  A transport over a connection that stays up until all of \<open>inp\<close> has arrived:
  a read returns something while there is something to come, or reports \<open>WouldBlock\<close>,
  which it does only finitely often.
\<close>

locale delivering = transport_contract +
  fixes patience :: "'a \<Rightarrow> nat"
  assumes read_some: "t_read T n t = (Inr bs, t') \<Longrightarrow> 0 < n \<Longrightarrow> inp t \<noteq> [] \<Longrightarrow> bs \<noteq> []"
    and read_patience: "t_read T n t = (Inr bs, t') \<Longrightarrow> patience t' \<le> patience t"
    and read_blocked: "t_read T n t = (Inl f, t') \<Longrightarrow>
      f = Err would_block \<and> patience t' < patience t"

definition script_patience :: "script \<Rightarrow> nat" where
  "script_patience s = length (filter (\<lambda>r. r = None \<or> r = Some []) (sc_reads s))"

interpretation scripted_tcp: delivering "tcp_transport_ops script_tcp"
    "\<lambda>t. script_inp (tcp t)" "\<lambda>t. sc_out (tcp t)" "\<lambda>t. script_patience (tcp t)"
  by unfold_locales
    (auto simp: tcp_transport_ops_def script_tcp_def script_read_def script_inp_def act_zoom_def
      script_patience_def split: list.splits option.splits if_splits prod.splits)

section \<open>A concrete TLS session\<close>

text \<open>A session that encrypts nothing, over the scripted socket.\<close>

record null_tls =
  nt_rx :: "u8 list"
  nt_tx :: "u8 list"
  nt_out :: "u8 list"

definition null_tls_connection :: "(null_tls, script) tls_connection" where
  "null_tls_connection =
     \<lparr>c_wants_read = (\<lambda>s. True),
      c_wants_write = (\<lambda>s. nt_tx s \<noteq> []),
      c_read_tls = (\<lambda>rd (s, c).
        case rd 4096 c of
          (Inr bs, c') \<Rightarrow> (Inr (length bs), (s\<lparr>nt_rx := nt_rx s @ bs\<rparr>, c'))
        | (Inl f, c') \<Rightarrow> (Inl f, (s, c'))),
      c_process_new_packets = (\<lambda>s. (Inr (length (nt_rx s)), s)),
      c_reader_read = (\<lambda>n s.
        if nt_rx s = [] then (Inl (Err would_block), s)
        else (Inr (take n (nt_rx s)), s\<lparr>nt_rx := drop n (nt_rx s)\<rparr>)),
      c_write_tls = (\<lambda>wr (s, c).
        case wr (nt_tx s) c of
          (Inr k, c') \<Rightarrow> (Inr k, (s\<lparr>nt_tx := drop k (nt_tx s)\<rparr>, c'))
        | (Inl f, c') \<Rightarrow> (Inl f, (s, c'))),
      c_writer_write = (\<lambda>src s.
        (Inr (length src), s\<lparr>nt_tx := nt_tx s @ src, nt_out := nt_out s @ src\<rparr>)),
      c_writer_flush = (\<lambda>s. (Inr (), s)),
      c_send_close_notify = (\<lambda>s. s)\<rparr>"

interpretation null_session: tls_session null_tls_connection script_tcp
    "\<lambda>(s, c). nt_rx s @ script_inp c" nt_out
proof unfold_locales
  let ?C = null_tls_connection and ?i = "\<lambda>(s, c). nt_rx s @ script_inp c"
  show "keeps ?i (c_read_tls ?C (try_read script_tcp))"
    "keeps (\<lambda>(s, c). nt_out s) (c_read_tls ?C (try_read script_tcp))"
    "crash_free (c_read_tls ?C (try_read script_tcp))"
    using scripted.try_read_ok scripted.try_read_err
    by (fastforce simp: null_tls_connection_def keeps_def crash_free_def
        split: prod.splits sum.splits)+
  show "keeps ?i (c_write_tls ?C (try_write script_tcp))"
    "keeps (\<lambda>(s, c). nt_out s) (c_write_tls ?C (try_write script_tcp))"
    "crash_free (c_write_tls ?C (try_write script_tcp))"
    using scripted.try_write_ok scripted.try_write_err
    by (fastforce simp: null_tls_connection_def keeps_def crash_free_def
        split: prod.splits sum.splits)+
qed (auto simp: null_tls_connection_def split: if_splits)

end

