(* ===== verification/Packet_Reader.thy ===== *)
theory Packet_Reader
  imports Packet_Codec Transport
begin

unbundle bit_operations_syntax

text \<open>
  \<open>packet_reader.rs\<close>: the buffer that cuts the incoming byte stream into packets. The
  definitions come first; the specification is \<open>split_frame\<close>, which cuts one packet off
  a whole stream, and the theorems say that the reader computes it, however the transport
  chops the stream into reads.
\<close>

section \<open>Model\<close>

record packet_size_info =
  psi_size :: nat
  start_offset :: nat

record packet_reader =
  pr_bytes :: "u8 list"
  pr_size :: "packet_size_info option"

definition packet_reader_default :: packet_reader where
  "packet_reader_default = \<lparr>pr_bytes = [], pr_size = None\<rparr>"

datatype packet_read_state =
    Incoming incoming_packet
  | ConnectionClosed
  | NeedMoreData

definition MAX_PACKET_SIZE :: nat where
  "MAX_PACKET_SIZE = 512000000"

text \<open>
  The unsafe block of \<open>recv_n\<close> lets the transport fill the \<open>n\<close> bytes reserved behind the
  vector and then extends the vector over the bytes read; extending it further would expose
  uninitialised memory.
\<close>

definition recv_n :: "'t transport_ops \<Rightarrow> nat \<Rightarrow> (packet_reader \<times> 't, io_error, bool) act" where
  "recv_n T n = (\<lambda>(pr, t).
     if n \<le> 0 then (Inr False, (pr, t))
     else case t_read T n t of
            (Inl f, t') \<Rightarrow> (Inl f, (pr, t'))
          | (Inr bs, t') \<Rightarrow>
              if n < length bs then (Inl (UB ''set_len past the bytes read''), (pr, t'))
              else if length bs \<le> 0 then (Inr True, (pr, t'))
              else (Inr False, (pr\<lparr>pr_bytes := pr_bytes pr @ bs\<rparr>, t')))"

function parse_packet_size_from ::
    "u8 list \<Rightarrow> nat \<Rightarrow> usize \<Rightarrow> nat \<Rightarrow> (io_error, (nat \<times> usize) option) result" where
  "parse_packet_size_from bytes pos ret shift =
     (if length bytes \<le> pos then Inr None
      else if 64 \<le> shift then Inl (Panic ''attempt to shift left with overflow'')
      else
        let b = bytes ! pos;
            ret = ret OR push_bit shift (ucast (b AND 0x7f));
            pos = pos + 1
        in
        if b AND 0x80 = 0 then Inr (Some (pos, ret))
        else parse_packet_size_from bytes pos ret (shift + 7))"
  by pat_completeness auto
termination by (relation "measure (\<lambda>(bytes, pos, ret, shift). length bytes - pos)") auto

declare parse_packet_size_from.simps [simp del]

definition parse_packet_size ::
    "packet_reader \<Rightarrow> (io_error, packet_size_info option) result" where
  "parse_packet_size pr =
     res_bind (parse_packet_size_from (pr_bytes pr) 1 0 0) (\<lambda>r.
       case r of
         None \<Rightarrow> Inr None
       | Some (pos, ret) \<Rightarrow>
           if 2 ^ 64 \<le> unat ret + pos then Inl (Panic ''attempt to add with overflow'')
           else if MAX_PACKET_SIZE < unat ret + pos then Inl (Err (into_io_error ReachedMaxSize))
           else Inr (Some \<lparr>psi_size = unat ret + pos, start_offset = pos\<rparr>))"

text \<open>
  The end of \<open>recv\<close> when all bytes of the packet are there. \<open>cfg_test\<close> tells whether the
  crate is compiled for its tests, where \<open>panic_in_test!\<close> panics.
\<close>

definition take_packet ::
    "bool \<Rightarrow> packet_size_info \<Rightarrow> (packet_reader, io_error, packet_read_state) act" where
  "take_packet cfg_test si pr =
     (if pr_bytes pr = [] then (Inl (Panic ''index out of bounds''), pr)
      else if psi_size si < start_offset si \<or> length (pr_bytes pr) < psi_size si
        then (Inl (Panic ''slice index out of range''), pr)
      else
        let ctrl_field = ControlField (pr_bytes pr ! 0);
            rd = reader_new (drop (start_offset si) (take (psi_size si) (pr_bytes pr)));
            ret = from_bytes rd ctrl_field;
            pr' =
              (if psi_size si < length (pr_bytes pr)
               then pr\<lparr>pr_bytes := drop (psi_size si) (pr_bytes pr)\<rparr>
               else pr\<lparr>pr_bytes := [], pr_size := None\<rparr>)
        in
        case ret of
          Inl (Panic m) \<Rightarrow> (Inl (Panic m), pr)
        | Inl (UB m) \<Rightarrow> (Inl (UB m), pr)
        | _ \<Rightarrow>
          if cfg_test \<and> (case ret of Inr (_, rd') \<Rightarrow> 0 < remaining rd' | Inl _ \<Rightarrow> False)
            then (Inl (Panic ''Did not read packet in its entirety''), pr)
          else
            let answer = res_bind (map_err into_io_error ret) (\<lambda>(pkt, _). Inr (Incoming pkt)) in
            if psi_size si < length (pr_bytes pr)
            then case parse_packet_size pr' of
                   Inl (Err err) \<Rightarrow> (Inl (Err err), pr'\<lparr>pr_bytes := []\<rparr>)
                 | Inl f \<Rightarrow> (Inl f, pr')
                 | Inr x \<Rightarrow> (answer, pr'\<lparr>pr_size := x\<rparr>)
            else (answer, pr'))"

definition recv :: "bool \<Rightarrow> 't transport_ops \<Rightarrow> (packet_reader \<times> 't, io_error, packet_read_state) act" where
  "recv cfg_test T = (\<lambda>(pr, t).
     case pr_size pr of
       Some si \<Rightarrow>
         (case (if length (pr_bytes pr) < psi_size si
                then recv_n T (psi_size si - length (pr_bytes pr)) (pr, t)
                else (Inr False, (pr, t))) of
            (Inl f, s) \<Rightarrow> (Inl f, s)
          | (Inr True, s) \<Rightarrow> (Inr ConnectionClosed, s)
          | (Inr False, (pr, t)) \<Rightarrow>
              if psi_size si \<le> length (pr_bytes pr)
              then (case take_packet cfg_test si pr of (r, pr) \<Rightarrow> (r, (pr, t)))
              else (Inr NeedMoreData, (pr, t)))
     | None \<Rightarrow>
         if MAX_HEADER_SIZE < length (pr_bytes pr)
         then (Inl (Panic ''attempt to subtract with overflow''), (pr, t))
         else
           (case recv_n T (MAX_HEADER_SIZE - length (pr_bytes pr)) (pr, t) of
              (Inl f, s) \<Rightarrow> (Inl f, s)
            | (Inr True, s) \<Rightarrow> (Inr ConnectionClosed, s)
            | (Inr False, (pr, t)) \<Rightarrow>
                (case parse_packet_size pr of
                   Inl (Err err) \<Rightarrow> (Inl (Err err), (pr\<lparr>pr_bytes := []\<rparr>, t))
                 | Inl f \<Rightarrow> (Inl f, (pr, t))
                 | Inr x \<Rightarrow> (Inr NeedMoreData, (pr\<lparr>pr_size := x\<rparr>, t)))))"

section \<open>The remaining-length field\<close>

text \<open>Value and length of the field at the front of a byte sequence, if it is complete.\<close>

fun scan_size :: "u8 list \<Rightarrow> (nat \<times> nat) option" where
  "scan_size [] = None"
| "scan_size (b # bs) =
     (if b AND 0x80 = 0 then Some (unat (b AND 0x7f), 1)
      else case scan_size bs of
             None \<Rightarrow> None
           | Some (v, k) \<Rightarrow> Some (unat (b AND 0x7f) + 128 * v, k + 1))"

lemma unat_and_0x7f_less: "unat ((b :: u8) AND 0x7f) < 128"
proof -
  have "b AND 0x7f \<le> 0x7f" by (rule word_and_le1)
  then show ?thesis by (simp add: word_le_nat_alt)
qed

lemma scan_size_bounds:
  "scan_size bs = Some (v, k) \<Longrightarrow> 0 < k \<and> k \<le> length bs \<and> v < 128 ^ k"
proof (induction bs arbitrary: v k)
  case (Cons b bs)
  show ?case
  proof (cases "b AND 0x80 = 0")
    case True
    with Cons.prems show ?thesis by (auto simp: unat_and_0x7f_less)
  next
    case False
    with Cons.prems obtain v' k' where s: "scan_size bs = Some (v', k')"
      and v: "v = unat (b AND 0x7f) + 128 * v'" and k: "k = k' + 1"
      by (auto split: option.splits)
    have "v' < 128 ^ k'" using Cons.IH [OF s] by simp
    then have "v < 128 * 128 ^ k'"
      using v unat_and_0x7f_less [of b] by linarith
    then show ?thesis using Cons.IH [OF s] k by simp
  qed
qed simp

lemma scan_size_append:
  "scan_size bs = Some (v, k) \<Longrightarrow> scan_size (bs @ cs) = Some (v, k)"
  by (induction bs arbitrary: v k) (auto split: if_splits option.splits)

lemma scan_size_take:
  "scan_size bs = Some (v, k) \<Longrightarrow> k \<le> n \<Longrightarrow> scan_size (take n bs) = Some (v, k)"
proof (induction bs arbitrary: v k n)
  case (Cons b bs)
  then show ?case
    by (cases n) (auto split: if_splits option.splits dest: scan_size_bounds)
qed simp

lemma digit_bound:
  fixes x p d :: nat
  assumes "x < p" and "d < 128"
  shows "x + p * d < p * 128"
proof -
  have "x + p * d < p * (1 + d)" using assms(1) by simp
  also have "\<dots> \<le> p * 128" using assms(2) by (intro mult_left_mono) auto
  finally show ?thesis .
qed

lemma unat_or_push_bit:
  fixes ret w :: usize
  assumes "unat ret < 2 ^ s" and "unat w < 128" and "s \<le> 56"
  shows "unat (ret OR push_bit s w) = unat ret + 2 ^ s * unat w"
proof -
  have p: "(2 :: nat) ^ s * 128 \<le> 2 ^ 56 * 128"
    using assms(3) by (intro mult_right_mono power_increasing) auto
  with digit_bound [OF assms(1,2)] have le: "unat ret + 2 ^ s * unat w < 2 ^ 64"
    by simp
  have "ret = take_bit s ret"
    using assms(1,3)
    by (simp add: word_unat_eq_iff unsigned_take_bit_eq take_bit_nat_eq_self)
  then have "ret AND push_bit s w = 0"
    by (metis (no_types, lifting) bit_and_iff bit_eqI bit_push_bit_iff bit_take_bit_iff
        bit_0_eq bot_apply bot_bool_def not_less)
  then have "ret OR push_bit s w = ret + push_bit s w"
    by (simp add: disjunctive_add_eq_or)
  also have "\<dots> = of_nat (unat ret + 2 ^ s * unat w)"
    by (simp add: push_bit_eq_mult mult.commute)
  finally have eq: "ret OR push_bit s w = of_nat (unat ret + 2 ^ s * unat w)" .
  show ?thesis
    unfolding eq by (rule unat_of_nat_less) (use le in simp)
qed

lemma parse_packet_size_from_scan:
  assumes "length bytes \<le> 5" and "1 \<le> pos" and "unat ret < 2 ^ (7 * (pos - 1))"
  shows "parse_packet_size_from bytes pos ret (7 * (pos - 1)) =
    Inr (case scan_size (drop pos bytes) of
           None \<Rightarrow> None
         | Some (v, k) \<Rightarrow> Some (pos + k, of_nat (unat ret + 2 ^ (7 * (pos - 1)) * v)))"
  using assms
proof (induction "length bytes - pos" arbitrary: pos ret)
  case 0
  then show ?case by (simp add: parse_packet_size_from.simps)
next
  case (Suc n)
  then have pos: "pos < length bytes" by simp
  let ?s = "7 * (pos - 1)" and ?b = "bytes ! pos"
  let ?w = "ucast (?b AND 0x7f) :: usize"
  let ?ret = "ret OR push_bit ?s ?w"
  have w: "unat ?w = unat (?b AND 0x7f)"
    using unat_and_0x7f_less [of ?b] by (simp add: unsigned_ucast_eq take_bit_nat_eq_self)
  have ret: "unat ?ret = unat ret + 2 ^ ?s * unat (?b AND 0x7f)"
    using unat_or_push_bit [of ret ?s ?w] Suc.prems pos w unat_and_0x7f_less [of ?b] by simp
  then have ret_eq: "?ret = of_nat (unat ret + 2 ^ ?s * unat (?b AND 0x7f))"
    by (metis of_nat_unat ucast_id)
  have "7 * pos = ?s + 7" using Suc.prems(2) by simp
  then have less: "unat ?ret < 2 ^ (7 * pos)"
    using ret digit_bound [OF Suc.prems(3) unat_and_0x7f_less [of ?b]]
    by (simp only: power_add) simp
  have d: "drop pos bytes = ?b # drop (pos + 1) bytes"
    using pos by (simp add: Cons_nth_drop_Suc)
  show ?case
  proof (cases "?b AND 0x80 = 0")
    case True
    then show ?thesis
      using pos Suc.prems(1,2) ret_eq
      by (subst parse_packet_size_from.simps) (simp add: d Let_def)
  next
    case False
    have "(2 :: usize) ^ (pos * 7) = 128 * 2 ^ (pos * 7 - 7)"
      using Suc.prems(2) by (cases pos) (simp_all add: power_add)
    moreover have "?s + 7 = 7 * (pos + 1 - 1)" using Suc.prems(2) by simp
    ultimately show ?thesis
      using pos Suc.prems ret False Suc.hyps(1) [of "pos + 1" ?ret] Suc.hyps(2) less
      by (subst parse_packet_size_from.simps)
        (auto simp: d Let_def algebra_simps split: option.splits)
  qed
qed

section \<open>The specification and the invariant\<close>

text \<open>
  One packet cut off the front of a stream: its control byte, its body and the rest of the
  stream, if the stream holds a complete packet. The remaining-length field has at most four
  bytes.
\<close>

definition split_frame :: "u8 list \<Rightarrow> (u8 \<times> u8 list \<times> u8 list) option" where
  "split_frame s =
     (case s of
        [] \<Rightarrow> None
      | c # r \<Rightarrow>
          (case scan_size (take 4 r) of
             None \<Rightarrow> None
           | Some (v, k) \<Rightarrow>
               if k + v \<le> length r then Some (c, take v (drop k r), drop (k + v) r) else None))"

definition size_info :: "nat \<Rightarrow> nat \<Rightarrow> packet_size_info" where
  "size_info v k = \<lparr>psi_size = v + (1 + k), start_offset = 1 + k\<rparr>"

definition reader_inv :: "packet_reader \<Rightarrow> bool" where
  "reader_inv pr =
     (case pr_size pr of
        None \<Rightarrow> length (pr_bytes pr) \<le> 5 \<and> scan_size (tl (pr_bytes pr)) = None
      | Some si \<Rightarrow>
          pr_bytes pr \<noteq> [] \<and> length (pr_bytes pr) \<le> max 5 (psi_size si) \<and>
          (case scan_size (take 4 (tl (pr_bytes pr))) of
             None \<Rightarrow> False
           | Some (v, k) \<Rightarrow> si = size_info v k))"

text \<open>What one call of \<open>recv\<close> may do, with the unread stream before and after it.\<close>

definition frame_spec ::
    "u8 list \<Rightarrow> (io_error, packet_read_state) result \<Rightarrow> u8 list \<Rightarrow> bool" where
  "frame_spec s r s' =
     (case r of
        Inr NeedMoreData \<Rightarrow> s' = s
      | Inr ConnectionClosed \<Rightarrow> s' = s
      | Inr (Incoming p) \<Rightarrow>
          (\<exists>c body rest. split_frame s = Some (c, body, s') \<and>
             from_bytes body (ControlField c) = Inr (p, rest))
      | Inl (Err e) \<Rightarrow>
          s' = s \<or> (\<exists>c body d. split_frame s = Some (c, body, s') \<and>
             from_bytes body (ControlField c) = Inl (Err d) \<and> e = into_io_error d)
      | _ \<Rightarrow> False)"

lemma split_frame_append:
  assumes "split_frame s = Some (c, body, r)"
  shows "split_frame (s @ xs) = Some (c, body, r @ xs)"
proof -
  from assms obtain r0 v k where s: "s = c # r0" and sc: "scan_size (take 4 r0) = Some (v, k)"
    and len: "k + v \<le> length r0" and parts: "body = take v (drop k r0)" "r = drop (k + v) r0"
    by (auto simp: split_frame_def split: list.splits option.splits if_splits)
  have "scan_size (take 4 (r0 @ xs)) = Some (v, k)"
    using scan_size_append [OF sc] by simp
  then show ?thesis
    using s len parts by (simp add: split_frame_def)
qed

lemma split_frame_shorter:
  "split_frame s = Some (c, body, r) \<Longrightarrow> length r + 2 \<le> length s"
  by (auto simp: split_frame_def split: list.splits option.splits if_splits dest!: scan_size_bounds)

lemma parse_packet_size_scan:
  assumes "length (pr_bytes pr) \<le> 5"
  shows "parse_packet_size pr =
    Inr (case scan_size (tl (pr_bytes pr)) of None \<Rightarrow> None | Some (v, k) \<Rightarrow> Some (size_info v k))"
proof (cases "scan_size (tl (pr_bytes pr))")
  case None
  then show ?thesis
    using parse_packet_size_from_scan [OF assms, of 1 0]
    by (simp add: parse_packet_size_def drop_Suc)
next
  case (Some vk)
  then obtain v k where vk: "scan_size (tl (pr_bytes pr)) = Some (v, k)" by (cases vk) auto
  note b = scan_size_bounds [OF vk]
  then have k: "k \<le> 4" using assms by auto
  have "(128 :: nat) ^ k \<le> 128 ^ 4" by (rule power_increasing) (use k in simp_all)
  with b have "v < 268435456" by simp
  moreover from this have "unat (of_nat v :: usize) = v"
    by (intro unat_of_nat_less) simp
  ultimately show ?thesis
    using parse_packet_size_from_scan [OF assms, of 1 0] vk k
    by (simp add: parse_packet_size_def drop_Suc MAX_PACKET_SIZE_def size_info_def)
qed

lemma reader_inv_parse:
  assumes "length bs \<le> 5" and "parse_packet_size \<lparr>pr_bytes = bs, pr_size = s\<rparr> = Inr x"
  shows "reader_inv \<lparr>pr_bytes = bs, pr_size = x\<rparr>"
  using assms parse_packet_size_scan [of "\<lparr>pr_bytes = bs, pr_size = s\<rparr>"]
  by (cases bs) (auto simp: reader_inv_def split: option.splits)

lemma take_packet_spec:
  assumes inv: "reader_inv pr" and si: "pr_size pr = Some si"
    and len: "psi_size si \<le> length (pr_bytes pr)"
    and step: "take_packet False si pr = (r, pr')"
  shows "frame_spec (pr_bytes pr @ xs) r (pr_bytes pr' @ xs) \<and> reader_inv pr' \<and>
    length (pr_bytes pr') < length (pr_bytes pr)"
proof -
  obtain bs where pr: "pr = \<lparr>pr_bytes = bs, pr_size = Some si\<rparr>" using si by (cases pr) simp
  from inv si pr obtain c r0 v k where bs: "bs = c # r0"
    and sc: "scan_size (take 4 r0) = Some (v, k)" and sv: "si = size_info v k"
    and le: "length bs \<le> max 5 (psi_size si)"
    by (cases bs) (auto simp: reader_inv_def split: option.splits)
  let ?body = "take v (drop k r0)" and ?rest = "drop (k + v) r0"
  have fr: "split_frame (bs @ xs) = Some (c, ?body, ?rest @ xs)"
    using sc len bs sv pr by (intro split_frame_append) (simp add: split_frame_def size_info_def)
  have body: "drop (start_offset si) (take (psi_size si) bs) = ?body"
    by (simp add: bs sv size_info_def drop_take)
  have k: "0 < k" using scan_size_bounds [OF sc] by simp
  obtain res where res: "from_bytes ?body (ControlField c) = res" by simp
  have nc: "no_crash res" using from_bytes_no_crash res by metis
  let ?ans = "res_bind (map_err into_io_error res) (\<lambda>(pkt, _). Inr (Incoming pkt))"
  have ok: "frame_spec (bs @ xs) ?ans (?rest @ xs)"
    using fr res nc by (cases res rule: sum.exhaust)
      (auto simp: frame_spec_def no_crash_def split: fault.splits)
  show ?thesis
  proof (cases "psi_size si < length bs")
    case True
    have small: "length ?rest \<le> 5" using le bs True by auto
    obtain x where x: "parse_packet_size \<lparr>pr_bytes = ?rest, pr_size = Some si\<rparr> = Inr x"
      using parse_packet_size_scan small by auto
    have "drop (psi_size si) bs = ?rest" by (simp add: bs sv size_info_def add.commute)
    then have "r = ?ans \<and> pr' = \<lparr>pr_bytes = ?rest, pr_size = x\<rparr>"
      using step True nc x body res len k sv
      by (cases res rule: sum.exhaust)
        (auto simp: take_packet_def pr bs reader_new_def size_info_def no_crash_def Let_def
          split: fault.splits)
    then show ?thesis
      using ok reader_inv_parse [OF small x] pr bs k by simp
  next
    case False
    then have "?rest = []" using bs sv by (simp add: size_info_def)
    moreover have "r = ?ans \<and> pr' = \<lparr>pr_bytes = [], pr_size = None\<rparr>"
      using step False nc body res len k sv
      by (cases res rule: sum.exhaust)
        (auto simp: take_packet_def pr bs reader_new_def size_info_def no_crash_def Let_def
          split: fault.splits)
    ultimately show ?thesis
      using ok pr bs by (simp add: reader_inv_def)
  qed
qed

section \<open>The reader refines its specification\<close>

text \<open>
  The one state in which the reader makes no progress: the fixed header is full and its size
  field still announces another byte.
\<close>

definition stuck :: "packet_reader \<Rightarrow> bool" where
  "stuck pr = (pr_size pr = None \<and> length (pr_bytes pr) = 5)"

text \<open>The part of the stream that no packet has been made of yet.\<close>

definition unread :: "('t \<Rightarrow> u8 list) \<Rightarrow> packet_reader \<times> 't \<Rightarrow> u8 list" where
  "unread inp = (\<lambda>(pr, t). pr_bytes pr @ inp t)"

lemma reader_inv_grow:
  assumes "reader_inv pr" and "pr_size pr = Some si" and "length (pr_bytes pr) < psi_size si"
    and "length bs \<le> psi_size si - length (pr_bytes pr)"
  shows "reader_inv (pr\<lparr>pr_bytes := pr_bytes pr @ bs\<rparr>)"
proof -
  from assms(1,2) obtain v k where "scan_size (take 4 (tl (pr_bytes pr))) = Some (v, k)"
    "si = size_info v k" "pr_bytes pr \<noteq> []"
    by (auto simp: reader_inv_def split: option.splits)
  then show ?thesis
    using scan_size_append [of "take 4 (tl (pr_bytes pr))" v k
        "take (4 - (length (pr_bytes pr) - 1)) bs"] assms(2-4)
    by (auto simp: reader_inv_def)
qed

context transport_contract
begin

lemma recv_n_cases:
  assumes "recv_n T n (pr, t) = (r, (pr', t'))" and "0 < n"
  obtains bs where "r = Inr False" "0 < length bs" "length bs \<le> n"
      "pr' = pr\<lparr>pr_bytes := pr_bytes pr @ bs\<rparr>" "inp t = bs @ inp t'"
    | "r = Inr True" "pr' = pr" "inp t' = inp t"
    | e where "r = Inl (Err e)" "pr' = pr" "inp t' = inp t"
proof -
  obtain rr t1 where rd: "t_read T n t = (rr, t1)" by fastforce
  show ?thesis
  proof (cases rr)
    case (Inl f)
    moreover have "no_crash rr" using crash_freeD [OF no_crashes(2) rd] .
    ultimately show ?thesis
      using that(3) assms rd read_err [of n t f t1]
      by (cases f) (auto simp: recv_n_def)
  next
    case (Inr bs)
    then show ?thesis
      using that(1,2) assms rd read_ok [of n t bs t1]
      by (auto simp: recv_n_def split: if_splits)
  qed
qed

lemma recv_header:
  assumes inv: "reader_inv pr" and sz: "pr_size pr = None"
    and step: "recv False T (pr, t) = (r, (pr', t'))"
  shows "frame_spec (unread inp (pr, t)) r (unread inp (pr', t')) \<and> reader_inv pr' \<and>
    (is_Err r \<or> r = Inr ConnectionClosed \<or> stuck pr \<or>
     length (inp t') < length (inp t) \<and> r = Inr NeedMoreData)"
proof -
  have len: "length (pr_bytes pr) \<le> 5" using inv sz by (simp add: reader_inv_def)
  obtain rn pr1 t1 where n: "recv_n T (MAX_HEADER_SIZE - length (pr_bytes pr)) (pr, t) = (rn, (pr1, t1))"
    by (metis prod.exhaust)
  show ?thesis
  proof (cases "length (pr_bytes pr) = 5")
    case True
    then have "parse_packet_size pr = Inr None"
      using parse_packet_size_scan [OF len] inv sz by (simp add: reader_inv_def)
    then have "r = Inr NeedMoreData \<and> pr' = pr \<and> t' = t"
      using step sz True by (auto simp: recv_def recv_n_def MAX_HEADER_SIZE_def)
    then show ?thesis
      using inv True sz by (simp add: frame_spec_def stuck_def)
  next
    case False
    then have "0 < MAX_HEADER_SIZE - length (pr_bytes pr)"
      using len by (simp add: MAX_HEADER_SIZE_def)
    from n this show ?thesis
    proof (cases rule: recv_n_cases)
      case (1 bs)
      have small: "length (pr_bytes pr @ bs) \<le> 5"
        using 1(3) len by (simp add: MAX_HEADER_SIZE_def)
      obtain x where x: "parse_packet_size pr1 = Inr x"
        using parse_packet_size_scan [of pr1] small 1(4) by auto
      then have "r = Inr NeedMoreData \<and> pr' = pr1\<lparr>pr_size := x\<rparr> \<and> t' = t1"
        using step sz n 1 len by (auto simp: recv_def MAX_HEADER_SIZE_def)
      moreover have "reader_inv (pr1\<lparr>pr_size := x\<rparr>)"
        using reader_inv_parse [OF small, of "pr_size pr" x] x 1(4) by (cases pr) simp
      ultimately show ?thesis
        using 1 by (simp add: frame_spec_def unread_def)
    next
      case 2
      then show ?thesis
        using step sz n inv len by (auto simp: recv_def frame_spec_def unread_def MAX_HEADER_SIZE_def)
    next
      case (3 e)
      then show ?thesis
        using step sz n inv len
        by (auto simp: recv_def frame_spec_def unread_def is_Err_def MAX_HEADER_SIZE_def)
    qed
  qed
qed

lemma recv_body:
  assumes inv: "reader_inv pr" and sz: "pr_size pr = Some si"
    and step: "recv False T (pr, t) = (r, (pr', t'))"
  shows "frame_spec (unread inp (pr, t)) r (unread inp (pr', t')) \<and> reader_inv pr' \<and>
    (is_Err r \<or> r = Inr ConnectionClosed \<or>
     length (unread inp (pr', t')) + length (inp t') < length (unread inp (pr, t)) + length (inp t))"
proof (cases "length (pr_bytes pr) < psi_size si")
  case False
  then obtain r1 pr1 where tp: "take_packet False si pr = (r1, pr1)" by fastforce
  then have "r = r1 \<and> pr' = pr1 \<and> t' = t"
    using step sz False by (auto simp: recv_def)
  then show ?thesis
    using take_packet_spec [OF inv sz _ tp, of "inp t"] False by (simp add: unread_def)
next
  case True
  let ?n = "psi_size si - length (pr_bytes pr)"
  obtain rn pr1 t1 where n: "recv_n T ?n (pr, t) = (rn, (pr1, t1))"
    by (metis prod.exhaust)
  have "0 < ?n" using True by simp
  from n this show ?thesis
  proof (cases rule: recv_n_cases)
    case (1 bs)
    have sz1: "pr_size pr1 = Some si" using 1(4) sz by simp
    have inv1: "reader_inv pr1"
      using reader_inv_grow [OF inv sz True] 1(3,4) by simp
    show ?thesis
    proof (cases "psi_size si \<le> length (pr_bytes pr1)")
      case False
      then have "r = Inr NeedMoreData \<and> pr' = pr1 \<and> t' = t1"
        using step sz n 1(1) True by (auto simp: recv_def)
      then show ?thesis
        using inv1 1 by (simp add: frame_spec_def unread_def)
    next
      case len: True
      obtain r1 pr2 where tp: "take_packet False si pr1 = (r1, pr2)" by fastforce
      then have "r = r1 \<and> pr' = pr2 \<and> t' = t1"
        using step sz n 1(1) True len by (auto simp: recv_def)
      then show ?thesis
        using take_packet_spec [OF inv1 sz1 len tp, of "inp t1"] 1 by (simp add: unread_def)
    qed
  next
    case 2
    then show ?thesis
      using step sz n inv True by (auto simp: recv_def frame_spec_def unread_def)
  next
    case (3 e)
    then show ?thesis
      using step sz n inv True by (auto simp: recv_def frame_spec_def unread_def is_Err_def)
  qed
qed

lemma recv_refines:
  assumes "reader_inv pr" and "recv False T (pr, t) = (r, (pr', t'))"
  shows "frame_spec (unread inp (pr, t)) r (unread inp (pr', t')) \<and> reader_inv pr'"
  using assms recv_header recv_body by (cases "pr_size pr") blast+

lemma recv_progress:
  assumes "reader_inv pr" and "recv False T (pr, t) = (Inr x, (pr', t'))"
    and "x \<noteq> ConnectionClosed" and "\<not> stuck pr"
  shows "length (unread inp (pr', t')) + length (inp t') < length (unread inp (pr, t)) + length (inp t)"
proof (cases "pr_size pr")
  case None
  have "length (unread inp (pr', t')) = length (unread inp (pr, t))" if "x = NeedMoreData"
    using recv_refines [OF assms(1,2)] that by (simp add: frame_spec_def)
  then show ?thesis
    using recv_header [OF assms(1) None assms(2)] assms(3,4) by (auto simp: is_Err_def)
next
  case (Some si)
  then show ?thesis
    using recv_body [OF assms(1) Some assms(2)] assms(3) by (auto simp: is_Err_def)
qed

end

section \<open>Whole streams\<close>

text \<open>The packets that a stream starts with, and what follows them.\<close>

inductive parses :: "u8 list \<Rightarrow> incoming_packet list \<Rightarrow> u8 list \<Rightarrow> bool" where
  parses_Nil: "parses s [] s"
| parses_Cons: "split_frame s = Some (c, body, s1) \<Longrightarrow>
    from_bytes body (ControlField c) = Inr (p, rest) \<Longrightarrow> parses s1 ps s2 \<Longrightarrow>
    parses s (p # ps) s2"

inductive_cases parses_NilE: "parses s [] s'"
inductive_cases parses_ConsE: "parses s (p # ps) s'"

text \<open>
  The packets that \<open>n\<close> calls of \<open>recv\<close> return, made one after the other until the connection
  is closed or an error other than \<open>WouldBlock\<close> occurs.
\<close>

fun recv_calls ::
    "'t transport_ops \<Rightarrow> nat \<Rightarrow> packet_reader \<times> 't \<Rightarrow> incoming_packet list \<times> (packet_reader \<times> 't)" where
  "recv_calls T 0 s = ([], s)"
| "recv_calls T (Suc n) s =
     (case recv False T s of
        (Inr (Incoming p), s') \<Rightarrow> (case recv_calls T n s' of (ps, s'') \<Rightarrow> (p # ps, s''))
      | (Inr NeedMoreData, s') \<Rightarrow> recv_calls T n s'
      | (Inr ConnectionClosed, s') \<Rightarrow> ([], s')
      | (Inl (Err e), s') \<Rightarrow> if io_kind e = WouldBlock then recv_calls T n s' else ([], s')
      | (Inl _, s') \<Rightarrow> ([], s'))"

lemma parses_deterministic:
  "parses s ps s1 \<Longrightarrow> parses s qs s2 \<Longrightarrow> length ps = length qs \<Longrightarrow> ps = qs \<and> s1 = s2"
proof (induction arbitrary: qs rule: parses.induct)
  case (parses_Nil s)
  then show ?case by (auto elim: parses_NilE)
next
  case (parses_Cons s c body s1 p rest ps s2)
  then obtain q qs' where "qs = q # qs'" by (cases qs) auto
  with parses_Cons show ?case by (auto elim!: parses_ConsE)
qed

lemma parses_append:
  "parses s ps s1 \<Longrightarrow> parses s1 qs s2 \<Longrightarrow> parses s (ps @ qs) s2"
  by (induction rule: parses.induct) (auto intro: parses.intros)

lemma parses_take: "parses s ps s' \<Longrightarrow> \<exists>s1. parses s (take k ps) s1 \<and> parses s1 (drop k ps) s'"
proof (induction arbitrary: k rule: parses.induct)
  case (parses_Nil s)
  then show ?case by (auto intro: parses.intros)
next
  case (parses_Cons s c body s1 p rest ps s2)
  show ?case
  proof (cases k)
    case 0
    then show ?thesis using parses_Cons.hyps by (auto intro: parses.intros)
  next
    case (Suc k')
    then show ?thesis using parses_Cons.IH [of k'] parses_Cons.hyps by (auto intro: parses.intros)
  qed
qed

context transport_contract
begin

lemma recv_calls_parses:
  "reader_inv pr \<Longrightarrow> recv_calls T n (pr, t) = (ps, s') \<Longrightarrow>
   \<exists>rest. parses (unread inp (pr, t)) ps rest \<and>
     (unread inp s' = rest \<or> (\<exists>c body. split_frame rest = Some (c, body, unread inp s')))"
proof (induction n arbitrary: pr t ps s')
  case 0
  then show ?case by (auto intro: parses_Nil)
next
  case (Suc n)
  obtain r pr1 t1 where r: "recv False T (pr, t) = (r, (pr1, t1))" by (metis prod.exhaust)
  have fs: "frame_spec (unread inp (pr, t)) r (unread inp (pr1, t1))" and inv: "reader_inv pr1"
    using recv_refines [OF Suc.prems(1) r] by simp_all
  consider p where "r = Inr (Incoming p)" | "r = Inr NeedMoreData" | "r = Inr ConnectionClosed"
    | e where "r = Inl (Err e)"
    using fs by (cases r) (auto simp: frame_spec_def split: fault.splits packet_read_state.splits)
  then show ?case
  proof cases
    case (1 p)
    obtain ps1 s1 where c: "recv_calls T n (pr1, t1) = (ps1, s1)" by (metis prod.exhaust)
    then have "ps = p # ps1" "s' = s1" using Suc.prems(2) r 1 by auto
    then show ?thesis
      using Suc.IH [OF inv c] fs 1 by (auto simp: frame_spec_def intro: parses_Cons)
  next
    case 2
    then show ?thesis
      using Suc.IH [OF inv, of t1 ps s'] Suc.prems(2) r fs by (simp add: frame_spec_def)
  next
    case 3
    then show ?thesis
      using Suc.prems(2) r fs by (auto simp: frame_spec_def intro: parses_Nil)
  next
    case (4 e)
    show ?thesis
    proof (cases "io_kind e = WouldBlock")
      case True
      then have "unread inp (pr1, t1) = unread inp (pr, t)"
        using fs 4 by (auto simp: frame_spec_def)
      then show ?thesis
        using Suc.IH [OF inv, of t1 ps s'] Suc.prems(2) r 4 True by simp
    next
      case False
      then have "ps = []" "s' = (pr1, t1)" using Suc.prems(2) r 4 by auto
      then show ?thesis
        using fs 4 by (auto simp: frame_spec_def intro!: exI [of _ "unread inp (pr, t)"] parses_Nil)
    qed
  qed
qed

end

lemma incomplete_frame:
  assumes "reader_inv pr"
    and "case pr_size pr of None \<Rightarrow> True | Some si \<Rightarrow> length (pr_bytes pr) < psi_size si"
  shows "split_frame (pr_bytes pr) = None"
  using assms
  by (cases "pr_bytes pr")
    (auto simp: reader_inv_def split_frame_def size_info_def split: option.splits)

lemma stuck_no_frame:
  assumes "reader_inv pr" and "stuck pr"
  shows "split_frame (pr_bytes pr @ xs) = None"
  using assms
  by (cases "pr_bytes pr") (auto simp: reader_inv_def stuck_def split_frame_def)

context delivering
begin

lemma recv_n_delivers:
  assumes "recv_n T n (pr, t) = (r, (pr', t'))" and "0 < n"
  shows "patience t' \<le> patience t \<and> (r = Inr True \<longrightarrow> inp t = []) \<and>
    (\<forall>f. r = Inl f \<longrightarrow> f = Err would_block \<and> patience t' < patience t)"
proof -
  obtain rr t1 where rd: "t_read T n t = (rr, t1)" by fastforce
  show ?thesis
  proof (cases rr)
    case (Inl f)
    with read_blocked [of n t f t1] rd assms show ?thesis by (auto simp: recv_n_def)
  next
    case (Inr bs)
    with read_some [of n t bs t1] read_patience [of n t bs t1] read_ok [of n t bs t1] rd assms
    show ?thesis by (auto simp: recv_n_def split: if_splits)
  qed
qed

lemma take_packet_answer:
  assumes "take_packet False si pr = (r, pr')"
  shows "r \<noteq> Inr ConnectionClosed \<and> r \<noteq> Inr NeedMoreData"
  using assms
  by (auto simp: take_packet_def Let_def res_bind_eq_Inr
      split: if_splits sum.splits fault.splits prod.splits)

definition delivered :: "packet_reader \<times> 'a \<Rightarrow> (io_error, packet_read_state) result \<Rightarrow> packet_reader \<times> 'a \<Rightarrow> bool" where
  "delivered = (\<lambda>(pr, t) r (pr', t').
     patience t' \<le> patience t \<and> length (inp t') \<le> length (inp t) \<and>
     (r = Inr ConnectionClosed \<longrightarrow> inp t = [] \<and> split_frame (pr_bytes pr) = None) \<and>
     (\<forall>e. r = Inl (Err e) \<longrightarrow>
        (if io_kind e = WouldBlock then patience t' < patience t
         else length (unread inp (pr', t')) < length (unread inp (pr, t)))))"

lemma take_packet_delivered:
  assumes "reader_inv pr1" and "pr_size pr1 = Some si" and "psi_size si \<le> length (pr_bytes pr1)"
    and "take_packet False si pr1 = (r, pr2)" and "patience t1 \<le> patience t"
    and "length (inp t1) \<le> length (inp t)" and "unread inp (pr1, t1) = unread inp (pr, t)"
  shows "delivered (pr, t) r (pr2, t1)"
proof -
  have "length (pr_bytes pr1) + length (inp t1) = length (pr_bytes pr) + length (inp t)"
    using assms(7) by (metis length_append unread_def case_prod_conv)
  moreover have "pr_bytes pr2 @ inp t1 \<noteq> pr_bytes pr @ inp t"
    using take_packet_spec [OF assms(1-4), of "inp t1"] assms(7)
    by (metis append_same_eq less_irrefl unread_def case_prod_conv)
  ultimately show ?thesis
    using take_packet_spec [OF assms(1-4), of "inp t1"] take_packet_answer [OF assms(4)] assms(5-7)
    by (auto simp: delivered_def frame_spec_def unread_def)
qed

lemma recv_delivers:
  assumes inv: "reader_inv pr" and step: "recv False T (pr, t) = (r, (pr', t'))"
  shows "delivered (pr, t) r (pr', t')"
proof (cases "pr_size pr")
  case None
  have len: "length (pr_bytes pr) \<le> 5" using inv None by (simp add: reader_inv_def)
  obtain rn pr1 t1 where n: "recv_n T (MAX_HEADER_SIZE - length (pr_bytes pr)) (pr, t) = (rn, (pr1, t1))"
    by (metis prod.exhaust)
  show ?thesis
  proof (cases "length (pr_bytes pr) = 5")
    case True
    then show ?thesis
      using step None parse_packet_size_scan [OF len]
      by (auto simp: recv_def recv_n_def MAX_HEADER_SIZE_def delivered_def)
  next
    case False
    then have pos: "0 < MAX_HEADER_SIZE - length (pr_bytes pr)"
      using len by (simp add: MAX_HEADER_SIZE_def)
    note d = recv_n_delivers [OF n pos]
    from n pos show ?thesis
    proof (cases rule: recv_n_cases)
      case (1 bs)
      then have "parse_packet_size pr1 \<noteq> Inl f" for f
        using parse_packet_size_scan [of pr1] len by (simp add: MAX_HEADER_SIZE_def)
      then show ?thesis
        using step None n 1 d len
        by (auto simp: recv_def delivered_def MAX_HEADER_SIZE_def split: sum.splits)
    qed (use step None n d len incomplete_frame [OF inv] in
        \<open>auto simp: recv_def delivered_def MAX_HEADER_SIZE_def\<close>)
  qed
next
  case (Some si)
  show ?thesis
  proof (cases "length (pr_bytes pr) < psi_size si")
    case False
    then obtain r1 pr1 where tp: "take_packet False si pr = (r1, pr1)" by fastforce
    then show ?thesis
      using step Some False take_packet_delivered [OF inv Some _ tp, of t t pr] by (auto simp: recv_def)
  next
    case True
    obtain rn pr1 t1 where n: "recv_n T (psi_size si - length (pr_bytes pr)) (pr, t) = (rn, (pr1, t1))"
      by (metis prod.exhaust)
    have pos: "0 < psi_size si - length (pr_bytes pr)" using True by simp
    note d = recv_n_delivers [OF n pos]
    from n pos show ?thesis
    proof (cases rule: recv_n_cases)
      case (1 bs)
      have sz1: "pr_size pr1 = Some si" using 1(4) Some by simp
      obtain r1 pr2 where tp: "take_packet False si pr1 = (r1, pr2)" by fastforce
      have "reader_inv pr1" using reader_inv_grow [OF inv Some True, of bs] 1 by simp
      with tp sz1 d 1 have "delivered (pr, t) r1 (pr2, t1)" if "psi_size si \<le> length (pr_bytes pr1)"
        by (intro take_packet_delivered) (use that in \<open>auto simp: unread_def\<close>)
      then show ?thesis
        using step Some n 1 d True tp
        by (auto simp: recv_def delivered_def split: if_splits)
    qed (use step Some n d True incomplete_frame [OF inv] in
        \<open>auto simp: recv_def delivered_def\<close>)
  qed
qed

lemma parses_frame:
  assumes "parses s ps []" and "split_frame s = Some (c, body, s1)"
  obtains p ps1 rest where "ps = p # ps1" "from_bytes body (ControlField c) = Inr (p, rest)"
    "parses s1 ps1 []"
proof (cases ps)
  case Nil
  with assms have False by (auto simp: split_frame_def elim: parses_NilE)
  then show ?thesis ..
next
  case (Cons p ps1)
  with assms that show ?thesis by (auto elim: parses_ConsE)
qed

lemma recv_calls_complete:
  assumes "reader_inv pr" and "parses (unread inp (pr, t)) ps []"
    and "length (unread inp (pr, t)) + length (inp t) + patience t < n"
  shows "fst (recv_calls T n (pr, t)) = ps"
  using assms
proof (induction n arbitrary: pr t ps)
  case (Suc n)
  obtain r pr1 t1 where r: "recv False T (pr, t) = (r, (pr1, t1))" by (metis prod.exhaust)
  have fs: "frame_spec (unread inp (pr, t)) r (unread inp (pr1, t1))" and inv: "reader_inv pr1"
    using recv_refines [OF Suc.prems(1) r] by simp_all
  note d = recv_delivers [OF Suc.prems(1) r]
  have Nil: "ps = []" if "split_frame (unread inp (pr, t)) = None"
    using Suc.prems(2) that by (cases ps) (auto elim: parses_ConsE)
  have ns: "\<not> stuck pr"
  proof
    assume st: "stuck pr"
    then have "ps = []"
      using stuck_no_frame [OF Suc.prems(1), of "inp t"] Nil by (simp add: unread_def)
    then have "unread inp (pr, t) = []" using Suc.prems(2) by (auto elim: parses_NilE)
    with st show False by (auto simp: unread_def stuck_def)
  qed
  have less: "length (unread inp (pr1, t1)) + length (inp t1) + patience t1 < n"
    if "r = Inr x" "x \<noteq> ConnectionClosed" for x
    using recv_progress [OF Suc.prems(1) r [unfolded that(1)] that(2) ns] d Suc.prems(3)
    by (simp add: delivered_def)
  consider p where "r = Inr (Incoming p)" | "r = Inr NeedMoreData" | "r = Inr ConnectionClosed"
    | e where "r = Inl (Err e)"
    using fs by (cases r) (auto simp: frame_spec_def split: fault.splits packet_read_state.splits)
  then show ?case
  proof cases
    case (1 p)
    then obtain c body rest where sf: "split_frame (unread inp (pr, t)) = Some (c, body, unread inp (pr1, t1))"
      and fb: "from_bytes body (ControlField c) = Inr (p, rest)"
      using fs by (auto simp: frame_spec_def)
    from parses_frame [OF Suc.prems(2) sf] fb obtain ps1 where
      "ps = p # ps1" "parses (unread inp (pr1, t1)) ps1 []" by auto
    then show ?thesis
      using Suc.IH [OF inv, of t1 ps1] less r 1 by (simp add: case_prod_beta)
  next
    case 2
    then show ?thesis
      using Suc.IH [OF inv, of t1 ps] less Suc.prems(2) fs r by (simp add: frame_spec_def)
  next
    case 3
    then show ?thesis using d r Nil by (simp add: delivered_def unread_def)
  next
    case (4 e)
    have same: "unread inp (pr1, t1) = unread inp (pr, t)"
    proof (rule ccontr)
      assume "\<not> ?thesis"
      then obtain c body d where sf: "split_frame (unread inp (pr, t)) = Some (c, body, unread inp (pr1, t1))"
        and "from_bytes body (ControlField c) = Inl (Err d)"
        using fs 4 by (auto simp: frame_spec_def)
      with parses_frame [OF Suc.prems(2) sf] show False by auto
    qed
    then have "io_kind e = WouldBlock \<and> patience t1 < patience t \<and> length (inp t1) \<le> length (inp t)"
      using d 4 by (auto simp: delivered_def split: if_splits)
    then show ?thesis
      using Suc.IH [OF inv, of t1 ps] Suc.prems(2,3) same r 4 by simp
  qed
qed simp

end

section \<open>Encoded packets on the wire\<close>

lemma size_byte_last:
  assumes "n < 128"
  shows "(of_nat n :: u8) AND 0x80 = 0" and "unat ((of_nat n :: u8) AND 0x7f) = n"
proof -
  have "\<not> bit (of_nat n :: u8) 7"
    using assms by (simp only: bit_simps) (simp add: bit_iff_odd)
  then show "(of_nat n :: u8) AND 0x80 = 0"
    using and_exp_eq_0_iff_not_bit [of "of_nat n :: u8" 7] by simp
  have "(of_nat n :: u8) AND 0x7f = take_bit 7 (of_nat n)"
    by (simp add: take_bit_eq_mask mask_eq_exp_minus_1)
  then show "unat ((of_nat n :: u8) AND 0x7f) = n"
    using assms by (simp add: unsigned_take_bit_eq unat_of_nat_less take_bit_nat_eq_self)
qed

lemma size_byte_continue:
  assumes "m < 128"
  shows "(of_nat (m + 128) :: u8) AND 0x80 \<noteq> 0" and "unat ((of_nat (m + 128) :: u8) AND 0x7f) = m"
proof -
  have "odd ((m + 128) div 2 ^ 7)" using assms by (simp add: div_add_self2)
  then have "bit (of_nat (m + 128) :: u8) 7"
    by (simp only: bit_simps) (simp add: bit_iff_odd)
  then show "(of_nat (m + 128) :: u8) AND 0x80 \<noteq> 0"
    using and_exp_eq_0_iff_not_bit [of "of_nat (m + 128) :: u8" 7] by simp
  have "(of_nat (m + 128) :: u8) AND 0x7f = take_bit 7 (of_nat (m + 128))"
    by (simp add: take_bit_eq_mask mask_eq_exp_minus_1)
  moreover have "unat (of_nat (m + 128) :: u8) = m + 128"
    using assms by (intro unat_of_nat_less) simp
  ultimately show "unat ((of_nat (m + 128) :: u8) AND 0x7f) = m"
    using assms by (simp only: unsigned_take_bit_eq) (simp add: take_bit_eq_mod)
qed

lemma scan_size_size_bytes: "scan_size (size_bytes n @ r) = Some (n, length (size_bytes n))"
proof (induction n rule: size_bytes.induct)
  case (1 n)
  show ?case
  proof (cases "n < 128")
    case True
    then show ?thesis by (simp add: size_bytes_small size_byte_last)
  next
    case False
    then show ?thesis
      using 1 size_byte_continue [of "n mod 128"] by (simp add: size_bytes_big)
  qed
qed

lemma split_frame_encoded:
  assumes "length body < 2 ^ 28"
  shows "split_frame (fixed_header ty flags (length body) @ body @ rest)
    = Some (control_byte ty flags, body, rest)"
proof -
  have "length (size_bytes (length body)) \<le> 4"
    using assms length_size_bytes_header by blast
  then have "scan_size (take 4 (size_bytes (length body) @ body @ rest))
      = Some (length body, length (size_bytes (length body)))"
    using scan_size_take [OF scan_size_size_bytes] by blast
  then show ?thesis
    by (simp add: split_frame_def fixed_header_def)
qed

text \<open>A PUBLISH packet that can be sent, and the message its receiver reads.\<close>

record message =
  m_dup :: bool
  m_qos :: qos
  m_retain :: bool
  m_topic :: rstr
  m_packet_id :: u16
  m_payload :: "u8 list"

definition outgoing :: "message \<Rightarrow> outgoing_publish_packet" where
  "outgoing m =
     \<lparr>op_flags = publish_flags_new (m_dup m) (m_qos m) (m_retain m), op_topic = m_topic m,
      op_packet_id = m_packet_id m, op_payload = m_payload m\<rparr>"

definition received :: "message \<Rightarrow> incoming_packet" where
  "received m =
     IP_Publish (message_of (publish_flags_new (m_dup m) (m_qos m) (m_retain m))
       (if m_qos m = AtMostOnce then 0 else m_packet_id m) (m_topic m) (m_payload m))"

definition sendable :: "message \<Rightarrow> bool" where
  "sendable m =
     (length (m_topic m) < 2 ^ 16 \<and> valid_utf8 (m_topic m) \<and>
      length (m_topic m) + length (m_payload m) < 2 ^ 28 - 4)"

lemma publish_frame:
  assumes "sendable m" and "make_arc_packet publish_impl (outgoing m) = Inr bs"
  shows "parses (bs @ rest) [received m] rest"
proof -
  let ?f = "publish_flags_new (m_dup m) (m_qos m) (m_retain m)"
  have "length (publish_body (outgoing m)) < 2 ^ 28"
    using assms(1) by (auto simp: sendable_def publish_body_def outgoing_def)
  moreover have "publish_wf (outgoing m)"
    using assms(1) by (simp add: publish_wf_def outgoing_def sendable_def publish_flags_new_ok)
  ultimately have "split_frame (bs @ rest)
      = Some (control_byte PT_Publish (pf_byte ?f), publish_body (outgoing m), rest)"
    using assms(2) publish.make_arc_packet_ok [of "outgoing m"]
      split_frame_encoded [of "publish_body (outgoing m)" PT_Publish "pf_byte ?f" rest]
    by (simp add: publish_impl_def outgoing_def)
  moreover have "from_bytes (publish_body (outgoing m))
      (ControlField (control_byte PT_Publish (pf_byte ?f))) = Inr (received m, [])"
    using publish_decode_body [of "m_topic m" ?f, OF _ _ refl, of "m_packet_id m" "m_payload m"]
      assms(1)
    by (simp add: from_bytes_def publish_flags_new_ok read_map_def sendable_def received_def
        outgoing_def)
  ultimately show ?thesis by (rule parses_Cons [OF _ _ parses_Nil])
qed

lemma publish_stream:
  assumes "list_all2 (\<lambda>m bs. sendable m \<and> make_arc_packet publish_impl (outgoing m) = Inr bs) ms bss"
  shows "parses (concat bss) (map received ms) []"
  using assms
proof (induction rule: list_all2_induct)
  case Nil
  then show ?case by (simp add: parses_Nil)
next
  case (Cons m ms bs bss)
  then show ?case
    using parses_append [OF publish_frame [of m bs "concat bss"]] by simp
qed

end
