(* ===== verification/Reader_Properties.thy ===== *)
theory Reader_Properties
  imports Packet_Reader
begin

text \<open>
  The properties of the packet reader, on its own and together with the encoders.
\<close>

text \<open>
  C7. Each call of \<open>recv\<close> refines the cutting of one packet off the unread stream: it
  leaves the stream as it is, or removes exactly the first packet of it and returns that
  packet decoded (or the decoder's error); it keeps the reader's invariant, and never panics.
  This holds for every transport that meets the contract of the \<open>Transport\<close> trait, however it
  cuts the stream into reads.
\<close>

theorem recv_refines_split_frame:
  assumes "transport_contract T inp out" and "reader_inv pr"
    and "recv False T (pr, t) = (r, (pr', t'))"
  shows "frame_spec (unread inp (pr, t)) r (unread inp (pr', t')) \<and> reader_inv pr' \<and> no_crash r"
proof -
  have "frame_spec (unread inp (pr, t)) r (unread inp (pr', t')) \<and> reader_inv pr'"
    by (rule transport_contract.recv_refines [OF assms])
  moreover from this have "no_crash r"
    by (auto simp: frame_spec_def no_crash_def split: sum.splits fault.splits)
  ultimately show ?thesis by blast
qed

theorem recv_refines_split_frame_witness:
  "recv False (tcp_transport_ops script_tcp)
     (packet_reader_default, tcp_transport_new \<lparr>sc_reads = [Some [0xD0, 0]], sc_writes = [], sc_out = []\<rparr>)
   = (Inr NeedMoreData,
      (\<lparr>pr_bytes = [0xD0, 0], pr_size = Some \<lparr>psi_size = 2, start_offset = 2\<rparr>\<rparr>,
       tcp_transport_new \<lparr>sc_reads = [], sc_writes = [], sc_out = []\<rparr>)) \<and>
   reader_inv \<lparr>pr_bytes = [0xD0, 0], pr_size = Some \<lparr>psi_size = 2, start_offset = 2\<rparr>\<rparr>"
proof -
  have *: "recv False (tcp_transport_ops script_tcp)
     (packet_reader_default, tcp_transport_new \<lparr>sc_reads = [Some [0xD0, 0]], sc_writes = [], sc_out = []\<rparr>)
   = (Inr NeedMoreData,
      (\<lparr>pr_bytes = [0xD0, 0], pr_size = Some \<lparr>psi_size = 2, start_offset = 2\<rparr>\<rparr>,
       tcp_transport_new \<lparr>sc_reads = [], sc_writes = [], sc_out = []\<rparr>))"
    by code_simp
  have "reader_inv packet_reader_default" by (simp add: reader_inv_def packet_reader_default_def)
  then show ?thesis
    using * recv_refines_split_frame [OF scripted.tcp.transport_contract_axioms _ *] by blast
qed

text \<open>
  From a fresh reader, the packets returned by any number of calls of \<open>recv\<close> are exactly
  the packets that the received byte stream starts with, in order, none lost, duplicated or
  invented.
\<close>

lemma recv_stream_prefix:
  assumes "transport_contract T inp out"
    and "recv_calls T n (packet_reader_default, t) = (ps, s')"
  shows "\<exists>rest. parses (inp t) ps rest \<and>
    (unread inp s' = rest \<or> (\<exists>c body. split_frame rest = Some (c, body, unread inp s')))"
proof -
  have "reader_inv packet_reader_default" by (simp add: reader_inv_def packet_reader_default_def)
  from transport_contract.recv_calls_parses [OF assms(1) this assms(2)]
  show ?thesis by (simp add: unread_def packet_reader_default_def)
qed

text \<open>
  C8. Messages encoded by one side with \<open>make_arc_packet\<close> and sent back to back are all
  received, in order and unchanged, when the connection delivers every byte, with
  interruptions of any finite number: enough calls of \<open>recv\<close> return exactly these messages.
\<close>

theorem publish_stream_delivered:
  assumes "delivering T inp out patience"
    and "list_all2 (\<lambda>m bs. sendable m \<and> make_arc_packet publish_impl (outgoing m) = Inr bs) ms bss"
    and "inp t = concat bss"
    and "2 * length (concat bss) + patience t < n"
  shows "fst (recv_calls T n (packet_reader_default, t)) = map received ms"
proof (rule delivering.recv_calls_complete [OF assms(1)])
  show "reader_inv packet_reader_default" by (simp add: reader_inv_def packet_reader_default_def)
  show "parses (unread inp (packet_reader_default, t)) (map received ms) []"
    using publish_stream [OF assms(2)] assms(3) by (simp add: unread_def packet_reader_default_def)
  show "length (unread inp (packet_reader_default, t)) + length (inp t) + patience t < n"
    using assms(3,4) by (simp add: unread_def packet_reader_default_def)
qed

theorem publish_stream_delivered_witness:
  "fst (recv_calls (tcp_transport_ops script_tcp) 25 (packet_reader_default,
      tcp_transport_new \<lparr>sc_reads = [Some [0x30], None, Some [4, 0, 1, 0x61], Some [5, 0x30, 3, 0, 1], Some [0x62]],
        sc_writes = [], sc_out = []\<rparr>))
   = map received
      [\<lparr>m_dup = False, m_qos = AtMostOnce, m_retain = False, m_topic = [0x61], m_packet_id = 0, m_payload = [5]\<rparr>,
       \<lparr>m_dup = False, m_qos = AtMostOnce, m_retain = False, m_topic = [0x62], m_packet_id = 0, m_payload = []\<rparr>]"
proof (rule publish_stream_delivered [OF scripted_tcp.delivering_axioms])
  let ?ms = "[\<lparr>m_dup = False, m_qos = AtMostOnce, m_retain = False, m_topic = [0x61], m_packet_id = 0, m_payload = [5]\<rparr>,
       \<lparr>m_dup = False, m_qos = AtMostOnce, m_retain = False, m_topic = [0x62], m_packet_id = 0, m_payload = []\<rparr>]"
  show "list_all2 (\<lambda>m bs. sendable m \<and> make_arc_packet publish_impl (outgoing m) = Inr bs) ?ms
      [[0x30, 4, 0, 1, 0x61, 5], [0x30, 3, 0, 1, 0x62]]"
    by code_simp
qed (simp_all add: tcp_transport_new_def script_inp_def script_patience_def)

end
