(* ===== verification/Subscription.thy ===== *)
theory Subscription
  imports Packets
begin

unbundle bit_operations_syntax

text \<open>
  \<open>commands.rs\<close> and \<open>subscription.rs\<close>: the commands sent to the transceiver task, and the
  tree of subscriptions through which received messages are dispatched. Channels and boxed
  callbacks are handles into a world that the definitions thread through; the operations on
  them are the record \<open>sinks\<close>, an argument of the definitions. A method that returns a
  reference into the tree (\<open>get_or_create\<close>, \<open>get\<close>) is given what the caller does with the
  reference.
\<close>

section \<open>Commands\<close>

type_synonym handle = nat

record fast_callback =
  cb_id :: u32
  cb_f :: handle

datatype subscription_kind =
    Void
  | Lossy handle
  | Unbounded handle
  | FastCallback fast_callback

record publish_command =
  pc_packet_id :: u16
  pc_qos :: qos
  pc_packet :: "u8 list"

record subscribe_command =
  sc_topic :: rstr
  sc_qos :: qos
  sc_kind :: subscription_kind

datatype unsub_kind = UnsubFastCallback u32 | Immediate

record unsub_command =
  uc_topic :: rstr
  uc_kind :: unsub_kind

datatype command =
    CmdPublish publish_command
  | CmdSubscribe subscribe_command
  | CmdUnsub unsub_command
  | CmdDisconnect

section \<open>Sinks\<close>

text \<open>
  \<open>mpsc::Sender::try_send\<close>, \<open>mpsc::UnboundedSender::send\<close> and the call of a boxed closure.
\<close>

datatype try_send_result = SendOk | SendFull | SendClosed

record 'w sinks =
  try_send :: "handle \<Rightarrow> incoming_publish_packet \<Rightarrow> 'w \<Rightarrow> try_send_result \<times> 'w"
  unbounded_send :: "handle \<Rightarrow> incoming_publish_packet \<Rightarrow> 'w \<Rightarrow> bool \<times> 'w"
  call_fn :: "handle \<Rightarrow> incoming_publish_packet \<Rightarrow> 'w \<Rightarrow> 'w"

section \<open>A subscription\<close>

record subscription =
  lossy_queue :: "handle list"
  unbounded_queue :: "handle list"
  fast_callbacks :: "fast_callback list"
  subscribed :: bool

definition subscription_default :: subscription where
  "subscription_default =
     \<lparr>lossy_queue = [], unbounded_queue = [], fast_callbacks = [], subscribed = False\<rparr>"

text \<open>\<open>Vec::swap_remove\<close>, for an index in range.\<close>

definition swap_remove :: "nat \<Rightarrow> 'a list \<Rightarrow> 'a list" where
  "swap_remove i xs =
     (if i = length xs - 1 then butlast xs else (butlast xs)[i := last xs])"

lemma length_swap_remove [simp]: "length (swap_remove i xs) = length xs - 1"
  by (simp add: swap_remove_def)

function prune_from ::
    "nat \<Rightarrow> ('a \<Rightarrow> 'w \<Rightarrow> bool \<times> 'w) \<Rightarrow> 'a list \<Rightarrow> 'w \<Rightarrow> 'a list \<times> 'w" where
  "prune_from i predicate vec w =
     (if i < length vec
      then case predicate (vec ! i) w of
             (True, w) \<Rightarrow> prune_from i predicate (swap_remove i vec) w
           | (False, w) \<Rightarrow> prune_from (i + 1) predicate vec w
      else (vec, w))"
  by pat_completeness auto
termination by (relation "measure (\<lambda>(i, _, vec, _). length vec - i)") auto

declare prune_from.simps [simp del]

definition prune :: "('a \<Rightarrow> 'w \<Rightarrow> bool \<times> 'w) \<Rightarrow> 'a list \<Rightarrow> 'w \<Rightarrow> 'a list \<times> 'w" where
  "prune predicate vec w = prune_from 0 predicate vec w"

definition sub_dispatch ::
    "'w sinks \<Rightarrow> incoming_publish_packet \<Rightarrow> subscription \<Rightarrow> 'w \<Rightarrow> subscription \<times> 'w" where
  "sub_dispatch S msg sub w =
     (case prune (\<lambda>q w. case try_send S q msg w of (r, w) \<Rightarrow> (r = SendClosed, w))
             (lossy_queue sub) w of
        (lossy, w) \<Rightarrow>
      case prune (\<lambda>q w. case unbounded_send S q msg w of (ok, w) \<Rightarrow> (\<not> ok, w))
             (unbounded_queue sub) w of
        (unbounded, w) \<Rightarrow>
          (sub\<lparr>lossy_queue := lossy, unbounded_queue := unbounded\<rparr>,
           fold (\<lambda>cb. call_fn S (cb_f cb) msg) (fast_callbacks sub) w))"

text \<open>
  \<open>slice::binary_search_by_key\<close> of the standard library: the index of an element with the key,
  or the index at which it can be inserted.
\<close>

function binary_search_loop ::
    "fast_callback list \<Rightarrow> u32 \<Rightarrow> nat \<Rightarrow> nat \<Rightarrow> nat + nat" where
  "binary_search_loop xs key left right =
     (if left < right
      then
        let mid = left + (right - left) div 2; k = cb_id (xs ! mid) in
        if k < key then binary_search_loop xs key (mid + 1) right
        else if key < k then binary_search_loop xs key left mid
        else Inr mid
      else Inl left)"
  by pat_completeness auto
termination
  by (relation "measure (\<lambda>(_, _, left, right). right - left)") (auto simp: less_diff_conv)

declare binary_search_loop.simps [simp del]

definition binary_search_by_key :: "u32 \<Rightarrow> fast_callback list \<Rightarrow> nat + nat" where
  "binary_search_by_key key xs = binary_search_loop xs key 0 (length xs)"

definition vec_insert :: "nat \<Rightarrow> 'a \<Rightarrow> 'a list \<Rightarrow> 'a list" where
  "vec_insert i x xs = take i xs @ x # drop i xs"

definition vec_remove :: "nat \<Rightarrow> 'a list \<Rightarrow> 'a list" where
  "vec_remove i xs = take i xs @ drop (i + 1) xs"

definition add_fast_callback :: "bool \<Rightarrow> fast_callback \<Rightarrow> (subscription, 'e, unit) act" where
  "add_fast_callback cfg_test new_cb sub =
     (if fast_callbacks sub = [] \<or> cb_id (last (fast_callbacks sub)) < cb_id new_cb
      then (Inr (), sub\<lparr>fast_callbacks := fast_callbacks sub @ [new_cb]\<rparr>)
      else case binary_search_by_key (cb_id new_cb) (fast_callbacks sub) of
             Inl index \<Rightarrow>
               (Inr (), sub\<lparr>fast_callbacks := vec_insert index new_cb (fast_callbacks sub)\<rparr>)
           | Inr _ \<Rightarrow>
               if cfg_test then (Inl (Panic ''Duplicate fast callback''), sub) else (Inr (), sub))"

definition remove_fast_callback :: "u32 \<Rightarrow> subscription \<Rightarrow> subscription" where
  "remove_fast_callback cid sub =
     (case binary_search_by_key cid (fast_callbacks sub) of
        Inr index \<Rightarrow> sub\<lparr>fast_callbacks := vec_remove index (fast_callbacks sub)\<rparr>
      | Inl _ \<Rightarrow> sub)"

fun sub_add :: "bool \<Rightarrow> subscription_kind \<Rightarrow> (subscription, 'e, unit) act" where
  "sub_add cfg_test Void sub = (Inr (), sub)"
| "sub_add cfg_test (Lossy queue) sub =
     (Inr (), sub\<lparr>lossy_queue := lossy_queue sub @ [queue]\<rparr>)"
| "sub_add cfg_test (Unbounded queue) sub =
     (Inr (), sub\<lparr>unbounded_queue := unbounded_queue sub @ [queue]\<rparr>)"
| "sub_add cfg_test (FastCallback cb) sub = add_fast_callback cfg_test cb sub"

definition sub_clear :: "subscription \<Rightarrow> subscription" where
  "sub_clear sub =
     sub\<lparr>lossy_queue := [], unbounded_queue := [], fast_callbacks := [], subscribed := False\<rparr>"

definition set_subscribed :: "subscription \<Rightarrow> subscription" where
  "set_subscribed sub = sub\<lparr>subscribed := True\<rparr>"

definition is_subscribed :: "subscription \<Rightarrow> bool" where
  "is_subscribed sub = subscribed sub"

section \<open>Topics\<close>

record topic_slicer =
  ts_head :: rstr
  ts_tail :: "rstr option"

definition slash :: u8 where
  "slash = 0x2F"

text \<open>\<open>s.find('/')\<close> on the bytes of the string: in UTF-8 the slash is one byte of its own.\<close>

definition topic_slicer_new :: "rstr \<Rightarrow> topic_slicer" where
  "topic_slicer_new s =
     (let head_pos = length (takeWhile (\<lambda>b. b \<noteq> slash) s) in
      if head_pos < length s
      then \<lparr>ts_head = take head_pos s, ts_tail = Some (drop (head_pos + 1) s)\<rparr>
      else \<lparr>ts_head = s, ts_tail = None\<rparr>)"

definition slicer_tail :: "topic_slicer \<Rightarrow> topic_slicer option" where
  "slicer_tail ts = map_option topic_slicer_new (ts_tail ts)"

definition slicer_size :: "topic_slicer \<Rightarrow> nat" where
  "slicer_size ts =
     length (ts_head ts) + (case ts_tail ts of None \<Rightarrow> 0 | Some s \<Rightarrow> length s + 1)"

lemma slicer_size_new: "slicer_size (topic_slicer_new s) = length s"
  by (cases s) (auto simp: topic_slicer_new_def slicer_size_def Let_def)

lemma slicer_tail_less: "slicer_tail ts = Some ts' \<Longrightarrow> slicer_size ts' < slicer_size ts"
  by (auto simp: slicer_tail_def slicer_size_new) (simp add: slicer_size_def)

section \<open>The subscription tree\<close>

datatype node =
  Node (exact: "rstr \<Rightarrow> entry option") (any: "entry option") (any_recursive: subscription)
and entry =
  Entry (e_sub: subscription) (children: node)

definition node_default :: node where
  "node_default = Node (\<lambda>_. None) None subscription_default"

definition entry_default :: entry where
  "entry_default = Entry subscription_default node_default"

definition star :: rstr where
  "star = [0x2A]"

definition hash :: rstr where
  "hash = [0x23]"

function node_dispatch ::
    "'w sinks \<Rightarrow> incoming_publish_packet \<Rightarrow> topic_slicer \<Rightarrow> node \<Rightarrow> 'w \<Rightarrow> node \<times> 'w" and
  entry_dispatch ::
    "'w sinks \<Rightarrow> incoming_publish_packet \<Rightarrow> topic_slicer option \<Rightarrow> entry \<Rightarrow> 'w \<Rightarrow> entry \<times> 'w" where
  "node_dispatch S msg topic (Node ex an re) w =
     (case sub_dispatch S msg re w of (re, w) \<Rightarrow>
      case (case an of
              None \<Rightarrow> (None, w)
            | Some e \<Rightarrow>
                (case entry_dispatch S msg (slicer_tail topic) e w of (e, w) \<Rightarrow> (Some e, w))) of
        (an, w) \<Rightarrow>
      case ex (ts_head topic) of
        None \<Rightarrow> (Node ex an re, w)
      | Some e \<Rightarrow>
          (case entry_dispatch S msg (slicer_tail topic) e w of
             (e, w) \<Rightarrow> (Node (ex(ts_head topic \<mapsto> e)) an re, w)))"
| "entry_dispatch S msg None (Entry sub ch) w =
     (case sub_dispatch S msg sub w of (sub, w) \<Rightarrow> (Entry sub ch, w))"
| "entry_dispatch S msg (Some sub_topic) (Entry sub ch) w =
     (case node_dispatch S msg sub_topic ch w of (ch, w) \<Rightarrow> (Entry sub ch, w))"
  by pat_completeness auto

termination
  by (relation "measure (\<lambda>x. case x of
      Inl (S, msg, topic, n, w) \<Rightarrow> 2 * slicer_size topic + 2
    | Inr (S, msg, None, e, w) \<Rightarrow> 0
    | Inr (S, msg, Some topic, e, w) \<Rightarrow> 2 * slicer_size topic + 3)")
    (auto split: option.splits dest: slicer_tail_less)

declare node_dispatch.simps [simp del]

definition get_or_create_exact :: "rstr \<Rightarrow> node \<Rightarrow> entry" where
  "get_or_create_exact k n = (case exact n k of Some e \<Rightarrow> e | None \<Rightarrow> entry_default)"

definition get_or_create_any :: "node \<Rightarrow> entry" where
  "get_or_create_any n = (case any n of Some e \<Rightarrow> e | None \<Rightarrow> entry_default)"

fun set_exact :: "rstr \<Rightarrow> entry \<Rightarrow> node \<Rightarrow> node" where
  "set_exact k e (Node ex an re) = Node (ex(k \<mapsto> e)) an re"

fun set_any :: "entry \<Rightarrow> node \<Rightarrow> node" where
  "set_any e (Node ex an re) = Node ex (Some e) re"

fun set_any_recursive :: "subscription \<Rightarrow> node \<Rightarrow> node" where
  "set_any_recursive sub (Node ex an re) = Node ex an sub"

text \<open>
  \<open>get_or_create\<close>: the loop descends from the root and creates the nodes it misses, which stay
  created when the topic turns out to be invalid. \<open>f\<close> is what the caller does with the
  reference to the subscription.
\<close>

function get_or_create_from ::
    "topic_slicer \<Rightarrow> (subscription \<Rightarrow> 'a \<times> subscription) \<Rightarrow> node \<Rightarrow> (unit + 'a) \<times> node" where
  "get_or_create_from ts f n =
     (case slicer_tail ts of
        Some tail \<Rightarrow>
          if ts_head ts = hash then (Inl (), n)
          else if ts_head ts = star
          then
            let e = get_or_create_any n in
            (case get_or_create_from tail f (children e) of
               (r, ch) \<Rightarrow> (r, set_any (Entry (e_sub e) ch) n))
          else
            let e = get_or_create_exact (ts_head ts) n in
            (case get_or_create_from tail f (children e) of
               (r, ch) \<Rightarrow> (r, set_exact (ts_head ts) (Entry (e_sub e) ch) n))
      | None \<Rightarrow>
          if ts_head ts = hash
          then (case f (any_recursive n) of (a, sub) \<Rightarrow> (Inr a, set_any_recursive sub n))
          else if ts_head ts = star
          then
            let e = get_or_create_any n in
            (case f (e_sub e) of (a, sub) \<Rightarrow> (Inr a, set_any (Entry sub (children e)) n))
          else
            let e = get_or_create_exact (ts_head ts) n in
            (case f (e_sub e) of
               (a, sub) \<Rightarrow> (Inr a, set_exact (ts_head ts) (Entry sub (children e)) n)))"
  by pat_completeness auto
termination by (relation "measure (\<lambda>(ts, _). slicer_size ts)") (auto dest: slicer_tail_less)

declare get_or_create_from.simps [simp del]

definition get_or_create ::
    "rstr \<Rightarrow> (subscription \<Rightarrow> 'a \<times> subscription) \<Rightarrow> node \<Rightarrow> (unit + 'a) \<times> node" where
  "get_or_create topic f root = get_or_create_from (topic_slicer_new topic) f root"

text \<open>\<open>get\<close> does not create anything; \<open>Inr None\<close> is the \<open>Ok(None)\<close> of the source.\<close>

function get_from ::
    "topic_slicer \<Rightarrow> (subscription \<Rightarrow> 'a \<times> subscription) \<Rightarrow> node \<Rightarrow> (unit + 'a option) \<times> node" where
  "get_from ts f n =
     (case slicer_tail ts of
        Some tail \<Rightarrow>
          if ts_head ts = hash then (Inl (), n)
          else if ts_head ts = star
          then (case any n of
                  None \<Rightarrow> (Inr None, n)
                | Some e \<Rightarrow>
                    (case get_from tail f (children e) of
                       (r, ch) \<Rightarrow> (r, set_any (Entry (e_sub e) ch) n)))
          else (case exact n (ts_head ts) of
                  None \<Rightarrow> (Inr None, n)
                | Some e \<Rightarrow>
                    (case get_from tail f (children e) of
                       (r, ch) \<Rightarrow> (r, set_exact (ts_head ts) (Entry (e_sub e) ch) n)))
      | None \<Rightarrow>
          if ts_head ts = hash
          then (case f (any_recursive n) of (a, sub) \<Rightarrow> (Inr (Some a), set_any_recursive sub n))
          else if ts_head ts = star
          then (case any n of
                  None \<Rightarrow> (Inr None, n)
                | Some e \<Rightarrow>
                    (case f (e_sub e) of
                       (a, sub) \<Rightarrow> (Inr (Some a), set_any (Entry sub (children e)) n)))
          else (case exact n (ts_head ts) of
                  None \<Rightarrow> (Inr None, n)
                | Some e \<Rightarrow>
                    (case f (e_sub e) of
                       (a, sub) \<Rightarrow> (Inr (Some a), set_exact (ts_head ts) (Entry sub (children e)) n))))"
  by pat_completeness auto
termination by (relation "measure (\<lambda>(ts, _). slicer_size ts)") (auto dest: slicer_tail_less)

declare get_from.simps [simp del]

definition get ::
    "rstr \<Rightarrow> (subscription \<Rightarrow> 'a \<times> subscription) \<Rightarrow> node \<Rightarrow> (unit + 'a option) \<times> node" where
  "get topic f root = get_from (topic_slicer_new topic) f root"

definition set_clear :: "rstr \<Rightarrow> node \<Rightarrow> (unit + bool) \<times> node" where
  "set_clear topic root =
     (case get topic (\<lambda>sub. if is_subscribed sub then (True, sub_clear sub) else (False, sub)) root of
        (Inl (), root) \<Rightarrow> (Inl (), root)
      | (Inr (Some True), root) \<Rightarrow> (Inr True, root)
      | (Inr _, root) \<Rightarrow> (Inr False, root))"

definition set_dispatch ::
    "'w sinks \<Rightarrow> incoming_publish_packet \<Rightarrow> node \<Rightarrow> 'w \<Rightarrow> ('e, unit) result \<times> node \<times> 'w" where
  "set_dispatch S msg root w =
     (case (publish_topic msg :: ('e, rstr) result) of
        Inl f \<Rightarrow> (Inl f, root, w)
      | Inr topic \<Rightarrow>
          (case node_dispatch S msg (topic_slicer_new topic) root w of
             (root, w) \<Rightarrow> (Inr (), root, w)))"

section \<open>Pruning\<close>

text \<open>
  The calls of the predicate on a list of elements, one after the other, with the elements it
  returned false for.
\<close>

fun visit :: "('a \<Rightarrow> 'w \<Rightarrow> bool \<times> 'w) \<Rightarrow> 'a list \<Rightarrow> 'w \<Rightarrow> 'a list \<times> 'w" where
  "visit P [] w = ([], w)"
| "visit P (x # xs) w =
     (case P x w of (b, w) \<Rightarrow>
      case visit P xs w of (ys, w) \<Rightarrow> (if b then ys else x # ys, w))"

lemma swap_remove_parts:
  assumes "i < length xs"
  shows "take i (swap_remove i xs) = take i xs"
    and "mset (drop i xs) = add_mset (xs ! i) (mset (drop i (swap_remove i xs)))"
proof -
  from assms obtain ys z where xs: "xs = ys @ [z]" by (metis length_greater_0_conv rev_exhaust gr_zeroI less_zeroE)
  show "take i (swap_remove i xs) = take i xs"
    using assms by (simp add: swap_remove_def xs)
  show "mset (drop i xs) = add_mset (xs ! i) (mset (drop i (swap_remove i xs)))"
  proof (cases "i = length ys")
    case True
    then show ?thesis by (simp add: swap_remove_def xs)
  next
    case False
    with assms xs have i: "i < length ys" by simp
    then have "drop i ys = ys ! i # drop (Suc i) ys" by (simp add: Cons_nth_drop_Suc)
    moreover have "drop i (ys[i := z]) = z # drop (Suc i) ys"
      using i by (simp add: drop_update_swap Cons_nth_drop_Suc [symmetric] flip: drop_Suc_Cons)
    ultimately show ?thesis
      using i by (simp add: swap_remove_def xs nth_append)
  qed
qed

lemma prune_from_visits:
  assumes "i \<le> length vec"
  shows "\<exists>ys kept w'. mset ys = mset (drop i vec) \<and> visit P ys w = (kept, w') \<and>
    prune_from i P vec w = (take i vec @ kept, w')"
  using assms
proof (induction i P vec w rule: prune_from.induct)
  case (1 i P vec w)
  show ?case
  proof (cases "i < length vec")
    case False
    then show ?thesis using "1.prems" by (simp add: prune_from.simps)
  next
    case True
    obtain b w1 where p: "P (vec ! i) w = (b, w1)" by fastforce
    show ?thesis
    proof (cases b)
      case b: True
      note sw = swap_remove_parts [OF True]
      have "i \<le> length (swap_remove i vec)" using True by simp
      with "1.IH"(1) [OF True p [symmetric]] b obtain ys kept w' where
        "mset ys = mset (drop i (swap_remove i vec))" "visit P ys w1 = (kept, w')"
        "prune_from i P (swap_remove i vec) w1 = (take i (swap_remove i vec) @ kept, w')"
        by auto
      then show ?thesis
        using True p b sw
        by (intro exI [of _ "vec ! i # ys"] exI [of _ kept] exI [of _ w'])
          (simp add: prune_from.simps [of i])
    next
      case b: False
      have "i + 1 \<le> length vec" using True by simp
      with "1.IH"(2) [OF True p [symmetric]] b obtain ys kept w' where
        "mset ys = mset (drop (i + 1) vec)" "visit P ys w1 = (kept, w')"
        "prune_from (i + 1) P vec w1 = (take (i + 1) vec @ kept, w')"
        by auto
      moreover have "mset (drop i vec) = add_mset (vec ! i) (mset (drop (i + 1) vec))"
        using True by (simp add: Cons_nth_drop_Suc [symmetric])
      ultimately show ?thesis
        using True p b
        by (intro exI [of _ "vec ! i # ys"] exI [of _ "vec ! i # kept"] exI [of _ w'])
          (simp add: prune_from.simps [of i] take_Suc_conv_app_nth)
    qed
  qed
qed

lemma prune_visits:
  obtains ys kept w' where "mset ys = mset vec" "visit P ys w = (kept, w')"
    "prune P vec w = (kept, w')"
  using prune_from_visits [of 0 vec P w] by (auto simp: prune_def)

lemma visit_kept: "visit P ys w = (kept, w') \<Longrightarrow> mset kept \<subseteq># mset ys"
proof (induction ys arbitrary: w kept w')
  case (Cons y ys)
  obtain b w1 where "P y w = (b, w1)" by fastforce
  moreover obtain ks w2 where "visit P ys w1 = (ks, w2)" by fastforce
  ultimately show ?case
    using Cons.prems Cons.IH [of w1 ks w2] by (auto intro: subset_mset.order_trans split: if_splits)
qed simp

lemma visit_world: "snd (visit P ys w) = fold (\<lambda>y w. snd (P y w)) ys w"
  by (induction ys arbitrary: w) (auto split: prod.splits, metis snd_conv)

section \<open>Fast callbacks\<close>

text \<open>The callbacks of a subscription are kept in strictly increasing order of their ids.\<close>

definition callbacks_sorted :: "fast_callback list \<Rightarrow> bool" where
  "callbacks_sorted cbs = sorted_wrt (\<lambda>a b. cb_id a < cb_id b) cbs"

lemma binary_search_loop_correct:
  assumes "callbacks_sorted xs" and "right \<le> length xs"
    and "\<And>j. j < left \<Longrightarrow> j < length xs \<Longrightarrow> cb_id (xs ! j) < key"
    and "\<And>j. right \<le> j \<Longrightarrow> j < length xs \<Longrightarrow> key < cb_id (xs ! j)"
    and "left \<le> right"
  shows "case binary_search_loop xs key left right of
      Inr i \<Rightarrow> i < length xs \<and> cb_id (xs ! i) = key
    | Inl i \<Rightarrow> i \<le> length xs \<and> (\<forall>j < i. cb_id (xs ! j) < key) \<and>
        (\<forall>j. i \<le> j \<longrightarrow> j < length xs \<longrightarrow> key < cb_id (xs ! j))"
  using assms
proof (induction xs key left right rule: binary_search_loop.induct)
  case (1 xs key left right)
  show ?case
  proof (cases "left < right")
    case False
    then show ?thesis
      using "1.prems" by (subst binary_search_loop.simps) auto
  next
    case True
    let ?mid = "left + (right - left) div 2"
    have mid: "left \<le> ?mid" "?mid < right" using True by auto
    have sorted: "cb_id (xs ! i) < cb_id (xs ! j)" if "i < j" "j < length xs" for i j
      using "1.prems"(1) that by (simp add: callbacks_sorted_def sorted_wrt_iff_nth_less)
    consider "cb_id (xs ! ?mid) < key" | "key < cb_id (xs ! ?mid)" | "cb_id (xs ! ?mid) = key"
      by fastforce
    then show ?thesis
    proof cases
      case 1
      have "cb_id (xs ! j) < key" if "j < ?mid + 1" "j < length xs" for j
      proof (cases "j = ?mid")
        case False
        then have "cb_id (xs ! j) < cb_id (xs ! ?mid)"
          using that mid "1.prems"(2) by (intro sorted) auto
        from this 1 show ?thesis by (rule less_trans)
      qed (use 1 in simp)
      then show ?thesis
        using "1.IH"(1) [OF True refl refl 1] "1.prems" mid True 1
        by (subst binary_search_loop.simps) (simp add: Let_def)
    next
      case 2
      have less: "key < cb_id (xs ! j)" if "?mid \<le> j" "j < length xs" for j
      proof (cases "j = ?mid")
        case False
        then have "cb_id (xs ! ?mid) < cb_id (xs ! j)"
          using that by (intro sorted) auto
        with 2 show ?thesis by (rule less_trans)
      qed (use 2 in simp)
      have n: "\<not> cb_id (xs ! ?mid) < key" using 2 by simp
      show ?thesis
        using "1.IH"(2) [OF True refl refl n 2] "1.prems" mid True 2 n less
        by (subst binary_search_loop.simps) (simp add: Let_def)
    next
      case 3
      then show ?thesis
        using True mid "1.prems"(2) by (subst binary_search_loop.simps) (simp add: Let_def)
    qed
  qed
qed

lemma filter_take_drop:
  assumes "\<And>j. j < i \<Longrightarrow> P (xs ! j)" and "\<And>j. i \<le> j \<Longrightarrow> j < length xs \<Longrightarrow> \<not> P (xs ! j)"
    and "i \<le> length xs"
  shows "filter P xs = take i xs"
proof -
  have "filter P (take i xs) = take i xs"
    using assms(1,3) by (auto simp: filter_id_conv in_set_conv_nth)
  moreover have "filter P (drop i xs) = []"
    using assms(2) by (auto simp: filter_empty_conv in_set_conv_nth)
  ultimately show ?thesis
    by (metis append_Nil2 append_take_drop_id filter_append)
qed

lemma binary_search_cases:
  assumes "callbacks_sorted xs"
  obtains i where "binary_search_by_key key xs = Inr i" "i < length xs" "cb_id (xs ! i) = key"
    | i where "binary_search_by_key key xs = Inl i" "key \<notin> cb_id ` set xs"
      "take i xs = filter (\<lambda>c. cb_id c < key) xs" "drop i xs = filter (\<lambda>c. key < cb_id c) xs"
proof (cases "binary_search_by_key key xs")
  case (Inr i)
  then show ?thesis
    using that(1) binary_search_loop_correct [OF assms, of "length xs" 0 key]
    by (simp add: binary_search_by_key_def)
next
  case (Inl i)
  then have i: "i \<le> length xs" "\<forall>j < i. cb_id (xs ! j) < key"
    "\<forall>j. i \<le> j \<longrightarrow> j < length xs \<longrightarrow> key < cb_id (xs ! j)"
    using binary_search_loop_correct [OF assms, of "length xs" 0 key]
    by (simp_all add: binary_search_by_key_def)
  have ne: "cb_id (xs ! j) \<noteq> key" if "j < length xs" for j
    using i(2,3) that by (cases "j < i") (auto simp: not_less)
  then have "key \<notin> cb_id ` set xs" by (metis (mono_tags, lifting) imageE in_set_conv_nth)
  moreover have t: "filter (\<lambda>c. cb_id c < key) xs = take i xs"
    using i by (intro filter_take_drop) (auto simp: not_less less_imp_le)
  moreover have "filter (\<lambda>c. \<not> cb_id c < key) xs = drop i xs"
  proof -
    have "filter (\<lambda>c. \<not> cb_id c < key) (take i xs) = []"
      using i(1,2) by (auto simp: filter_empty_conv in_set_conv_nth)
    moreover have "filter (\<lambda>c. \<not> cb_id c < key) (drop i xs) = drop i xs"
      using i(3) by (auto simp: filter_id_conv in_set_conv_nth not_less less_imp_le)
    ultimately show ?thesis by (metis append_Nil append_take_drop_id filter_append)
  qed
  moreover have "filter (\<lambda>c. \<not> cb_id c < key) xs = filter (\<lambda>c. key < cb_id c) xs"
    using calculation(1) by (intro filter_cong) (auto simp: not_less order_less_le)
  ultimately show ?thesis using that(2) Inl by simp
qed

lemma callbacks_sorted_filter: "callbacks_sorted xs \<Longrightarrow> callbacks_sorted (filter P xs)"
  by (simp add: callbacks_sorted_def sorted_wrt_filter)

lemma callbacks_sorted_insert:
  assumes "callbacks_sorted xs"
  shows "callbacks_sorted
    (filter (\<lambda>c. cb_id c < cb_id new) xs @ new # filter (\<lambda>c. cb_id new < cb_id c) xs)"
  using callbacks_sorted_filter [OF assms]
  by (fastforce simp: callbacks_sorted_def sorted_wrt_append)

lemma remove_nth_filter:
  assumes "callbacks_sorted xs" and "i < length xs"
  shows "vec_remove i xs = filter (\<lambda>c. cb_id c \<noteq> cb_id (xs ! i)) xs"
proof -
  have s: "cb_id (xs ! j) < cb_id (xs ! k)" if "j < k" "k < length xs" for j k
    using assms(1) that by (simp add: callbacks_sorted_def sorted_wrt_iff_nth_less)
  let ?P = "\<lambda>c. cb_id c \<noteq> cb_id (xs ! i)"
  have "filter ?P (take i xs) = take i xs"
    using s [of _ i] assms(2) by (fastforce simp: filter_id_conv in_set_conv_nth)
  moreover have "filter ?P (drop (Suc i) xs) = drop (Suc i) xs"
  proof (intro filter_True ballI)
    fix c assume "c \<in> set (drop (Suc i) xs)"
    then obtain j where j: "j < length xs - Suc i" and c: "c = xs ! (Suc i + j)"
      using assms(2) by (auto simp: in_set_conv_nth)
    have "cb_id (xs ! i) < cb_id c" unfolding c by (rule s) (use j in simp_all)
    then show "cb_id c \<noteq> cb_id (xs ! i)" by simp
  qed
  ultimately have "filter ?P (take i xs @ xs ! i # drop (Suc i) xs) = vec_remove i xs"
    by (simp add: vec_remove_def)
  then show ?thesis
    by (simp only: id_take_nth_drop [OF assms(2), symmetric])
qed

text \<open>Adding and removing a callback, as operations on the ordered list.\<close>

definition insert_callback :: "fast_callback \<Rightarrow> fast_callback list \<Rightarrow> fast_callback list" where
  "insert_callback new cbs =
     (if cb_id new \<in> cb_id ` set cbs then cbs
      else filter (\<lambda>c. cb_id c < cb_id new) cbs @ new # filter (\<lambda>c. cb_id new < cb_id c) cbs)"

lemma add_fast_callback_correct:
  assumes "callbacks_sorted (fast_callbacks sub)"
  shows "add_fast_callback False new sub =
    (Inr (), sub\<lparr>fast_callbacks := insert_callback new (fast_callbacks sub)\<rparr>)"
proof (cases "fast_callbacks sub = [] \<or> cb_id (last (fast_callbacks sub)) < cb_id new")
  case True
  have less: "cb_id c < cb_id new" if "c \<in> set (fast_callbacks sub)" for c
  proof -
    have ne: "fast_callbacks sub \<noteq> []" using that by auto
    then have "c = last (fast_callbacks sub) \<or> cb_id c < cb_id (last (fast_callbacks sub))"
      using assms that
      by (cases "fast_callbacks sub" rule: rev_cases) (auto simp: callbacks_sorted_def sorted_wrt_append)
    with True ne show ?thesis by auto
  qed
  then have "filter (\<lambda>c. cb_id c < cb_id new) (fast_callbacks sub) = fast_callbacks sub"
    "filter (\<lambda>c. cb_id new < cb_id c) (fast_callbacks sub) = []"
    by (auto simp: filter_id_conv filter_empty_conv dest: less_asym)
  moreover have "cb_id new \<notin> cb_id ` set (fast_callbacks sub)"
    using less by (metis imageE less_irrefl)
  ultimately show ?thesis using True by (simp add: add_fast_callback_def insert_callback_def)
next
  case False
  from assms show ?thesis
  proof (cases rule: binary_search_cases [where key = "cb_id new"])
    case (1 i)
    then have "cb_id new \<in> cb_id ` set (fast_callbacks sub)" by (metis image_eqI nth_mem)
    then show ?thesis
      using False 1 by (cases sub) (simp add: add_fast_callback_def insert_callback_def)
  next
    case (2 i)
    then show ?thesis
      using False by (simp add: add_fast_callback_def insert_callback_def vec_insert_def)
  qed
qed

lemma insert_callback_sorted:
  "callbacks_sorted cbs \<Longrightarrow> callbacks_sorted (insert_callback new cbs)"
  by (simp add: insert_callback_def callbacks_sorted_insert)

lemma remove_fast_callback_correct:
  assumes "callbacks_sorted (fast_callbacks sub)"
  shows "remove_fast_callback cid sub =
    sub\<lparr>fast_callbacks := filter (\<lambda>c. cb_id c \<noteq> cid) (fast_callbacks sub)\<rparr>"
  using assms
proof (cases rule: binary_search_cases [where key = cid])
  case (1 i)
  then show ?thesis
    using remove_nth_filter [OF assms] by (simp add: remove_fast_callback_def)
next
  case (2 i)
  then have "filter (\<lambda>c. cb_id c \<noteq> cid) (fast_callbacks sub) = fast_callbacks sub"
    by (auto simp: filter_id_conv)
  with 2 show ?thesis by (cases sub) (simp add: remove_fast_callback_def)
qed

section \<open>The tree as a map from topic filters\<close>

datatype level = Exact rstr | AnyLevel

text \<open>A topic filter: the path of an entry, or the path of a node followed by \<open>#\<close>.\<close>

datatype topic_filter = Leaf "level list" | Recursive "level list"

fun tf_cons :: "level \<Rightarrow> topic_filter \<Rightarrow> topic_filter" where
  "tf_cons l (Leaf ls) = Leaf (l # ls)"
| "tf_cons l (Recursive ls) = Recursive (l # ls)"

definition to_level :: "rstr \<Rightarrow> level" where
  "to_level k = (if k = star then AnyLevel else Exact k)"

function levels_of :: "topic_slicer \<Rightarrow> rstr list" where
  "levels_of ts = ts_head ts # (case slicer_tail ts of None \<Rightarrow> [] | Some t \<Rightarrow> levels_of t)"
  by pat_completeness auto
termination by (relation "measure slicer_size") (auto dest: slicer_tail_less)

declare levels_of.simps [simp del]

text \<open>The levels of a topic, separated by slashes.\<close>

definition levels :: "rstr \<Rightarrow> rstr list" where
  "levels topic = levels_of (topic_slicer_new topic)"

fun parse_filter :: "rstr list \<Rightarrow> topic_filter option" where
  "parse_filter [] = None"
| "parse_filter [k] = Some (if k = hash then Recursive [] else Leaf [to_level k])"
| "parse_filter (k # ks) =
     (if k = hash then None else map_option (tf_cons (to_level k)) (parse_filter ks))"

fun child :: "level \<Rightarrow> node \<Rightarrow> entry option" where
  "child (Exact k) n = exact n k"
| "child AnyLevel n = any n"

definition the_child :: "level \<Rightarrow> node \<Rightarrow> entry" where
  "the_child l n = (case child l n of Some e \<Rightarrow> e | None \<Rightarrow> entry_default)"

fun set_child :: "level \<Rightarrow> entry \<Rightarrow> node \<Rightarrow> node" where
  "set_child (Exact k) e n = set_exact k e n"
| "set_child AnyLevel e n = set_any e n"

text \<open>The subscription at a filter; a node that does not exist is an empty one.\<close>

fun leaf_at :: "level list \<Rightarrow> node \<Rightarrow> subscription" where
  "leaf_at [] n = subscription_default"
| "leaf_at [l] n = e_sub (the_child l n)"
| "leaf_at (l # ls) n = leaf_at ls (children (the_child l n))"

fun recursive_at :: "level list \<Rightarrow> node \<Rightarrow> subscription" where
  "recursive_at [] n = any_recursive n"
| "recursive_at (l # ls) n = recursive_at ls (children (the_child l n))"

fun sub_at :: "topic_filter \<Rightarrow> node \<Rightarrow> subscription" where
  "sub_at (Leaf ls) n = leaf_at ls n"
| "sub_at (Recursive ls) n = recursive_at ls n"

lemma leaf_at_Cons:
  "leaf_at (l # ls) n =
     (if ls = [] then e_sub (the_child l n) else leaf_at ls (children (the_child l n)))"
  by (cases ls) auto

lemma child_set_child [simp]: "child l (set_child m e n) = (if l = m then Some e else child l n)"
  by (cases n; cases l; cases m) auto

lemma the_child_set_child [simp]:
  "the_child l (set_child m e n) = (if l = m then e else the_child l n)"
  by (simp add: the_child_def)

lemma any_recursive_set_child [simp]: "any_recursive (set_child m e n) = any_recursive n"
  by (cases n; cases m) auto

lemma child_set_any_recursive [simp]: "child l (set_any_recursive s n) = child l n"
  by (cases n; cases l) auto

lemma the_child_set_any_recursive [simp]: "the_child l (set_any_recursive s n) = the_child l n"
  by (simp add: the_child_def)

lemma any_recursive_set [simp]: "any_recursive (set_any_recursive s n) = s"
  by (cases n) auto

lemma sub_at_tf_cons:
  "f \<noteq> Leaf [] \<Longrightarrow> sub_at (tf_cons l f) n = sub_at f (children (the_child l n))"
  by (cases f) (auto simp: leaf_at_Cons)

lemma sub_at_set_child:
  "sub_at (tf_cons l f) (set_child m (Entry s ch) n) =
     (if l = m then (if f = Leaf [] then s else sub_at f ch) else sub_at (tf_cons l f) n)"
  "sub_at (Recursive []) (set_child m e n) = any_recursive n"
  by (cases f; auto simp: leaf_at_Cons)+

lemma parse_filter_not_Leaf_Nil: "parse_filter ks = Some f \<Longrightarrow> f \<noteq> Leaf []"
proof (induction ks arbitrary: f rule: parse_filter.induct)
  case (3 k k' ks)
  then show ?case by (auto split: if_splits elim: tf_cons.elims)
qed (auto split: if_splits)

lemma topic_filter_cases:
  obtains "f = Leaf []" | "f = Recursive []" | l g where "f = tf_cons l g"
proof (cases f)
  case (Leaf ls)
  then show ?thesis using that by (cases ls) (metis tf_cons.simps(1))+
next
  case (Recursive ls)
  then show ?thesis using that by (cases ls) (metis tf_cons.simps(2))+
qed

lemma tf_cons_inj [simp]: "tf_cons l f = tf_cons m g \<longleftrightarrow> l = m \<and> f = g"
  by (cases f; cases g) auto

lemma tf_cons_neq [simp]: "tf_cons l f \<noteq> Recursive []" "tf_cons l f \<noteq> Leaf []"
  "Recursive [] \<noteq> tf_cons l f" "Leaf [] \<noteq> tf_cons l f"
  by (cases f; simp)+

lemma tf_cons_eq_Leaf [simp]:
  "tf_cons l g = Leaf [m] \<longleftrightarrow> l = m \<and> g = Leaf []" "Leaf [m] = tf_cons l g \<longleftrightarrow> l = m \<and> g = Leaf []"
  by (cases g; auto)+

lemma the_child_to_level:
  "the_child (to_level k) n = (if k = star then get_or_create_any n else get_or_create_exact k n)"
  by (simp add: to_level_def the_child_def get_or_create_any_def get_or_create_exact_def)

lemma set_child_to_level:
  "set_child (to_level k) e n = (if k = star then set_any e n else set_exact k e n)"
  by (simp add: to_level_def)

lemma child_to_level:
  "child (to_level k) n = (if k = star then any n else exact n k)"
  by (simp add: to_level_def)

lemma get_or_create_from_child:
  "get_or_create_from ts f n =
     (if ts_head ts = hash
      then (case slicer_tail ts of
              Some _ \<Rightarrow> (Inl (), n)
            | None \<Rightarrow> (case f (any_recursive n) of (a, sub) \<Rightarrow> (Inr a, set_any_recursive sub n)))
      else
        let l = to_level (ts_head ts); e = the_child l n in
        (case slicer_tail ts of
           Some t \<Rightarrow>
             (case get_or_create_from t f (children e) of
                (r, ch) \<Rightarrow> (r, set_child l (Entry (e_sub e) ch) n))
         | None \<Rightarrow>
             (case f (e_sub e) of
                (a, sub) \<Rightarrow> (Inr a, set_child l (Entry sub (children e)) n))))"
  by (subst get_or_create_from.simps)
    (simp add: the_child_to_level set_child_to_level Let_def split: option.splits)

lemma get_from_child:
  "get_from ts f n =
     (if ts_head ts = hash
      then (case slicer_tail ts of
              Some _ \<Rightarrow> (Inl (), n)
            | None \<Rightarrow> (case f (any_recursive n) of (a, sub) \<Rightarrow> (Inr (Some a), set_any_recursive sub n)))
      else
        let l = to_level (ts_head ts) in
        (case child l n of
           None \<Rightarrow> (Inr None, n)
         | Some e \<Rightarrow>
             (case slicer_tail ts of
                Some t \<Rightarrow>
                  (case get_from t f (children e) of
                     (r, ch) \<Rightarrow> (r, set_child l (Entry (e_sub e) ch) n))
              | None \<Rightarrow>
                  (case f (e_sub e) of
                     (a, sub) \<Rightarrow> (Inr (Some a), set_child l (Entry sub (children e)) n)))))"
  by (subst get_from.simps)
    (simp add: child_to_level set_child_to_level Let_def split: option.splits)

lemma levels_of_not_Nil [simp]: "levels_of ts \<noteq> []"
  by (subst levels_of.simps) simp

lemma parse_filter_levels:
  "parse_filter (levels_of ts) =
     (case slicer_tail ts of
        None \<Rightarrow> Some (if ts_head ts = hash then Recursive [] else Leaf [to_level (ts_head ts)])
      | Some t \<Rightarrow>
          if ts_head ts = hash then None
          else map_option (tf_cons (to_level (ts_head ts))) (parse_filter (levels_of t)))"
proof (cases "slicer_tail ts")
  case (Some t)
  then obtain k ks where "levels_of t = k # ks" by (cases "levels_of t") auto
  with Some show ?thesis by (subst levels_of.simps) simp
qed (simp add: levels_of.simps [of ts])

lemma sub_at_default [simp]: "sub_at f node_default = subscription_default"
proof (induction f rule: topic_filter.induct)
  case (Leaf ls)
  have c: "the_child l node_default = entry_default" for l
    by (cases l) (simp_all add: the_child_def node_default_def)
  show ?case
    by (induction ls) (auto simp: leaf_at_Cons c entry_default_def)
next
  case (Recursive ls)
  have c: "the_child l node_default = entry_default" for l
    by (cases l) (simp_all add: the_child_def node_default_def)
  show ?case
    by (induction ls) (auto simp: c entry_default_def, simp add: node_default_def)
qed

lemma sub_at_Leaf_Nil [simp]: "sub_at (Leaf []) n = subscription_default"
  by simp

lemma sub_at_set_any_recursive:
  "sub_at q (set_any_recursive s n) = (if q = Recursive [] then s else sub_at q n)"
proof (cases q)
  case (Leaf ls)
  then show ?thesis by (cases ls) (auto simp: leaf_at_Cons)
next
  case (Recursive ls)
  then show ?thesis by (cases ls) auto
qed

text \<open>Replacing the children of one entry, or its subscription, seen through \<open>sub_at\<close>.\<close>

lemma sub_at_set_leaf:
  "sub_at q (set_child l (Entry s (children (the_child l n))) n) =
     (if q = Leaf [l] then s else sub_at q n)"
  by (cases q rule: topic_filter_cases) (auto simp: sub_at_set_child sub_at_tf_cons)

lemma sub_at_set_children_upd:
  assumes "\<And>g. sub_at g ch = (if Some g = p then s else sub_at g (children (the_child l n)))"
    and "p \<noteq> Some (Leaf [])"
  shows "sub_at q (set_child l (Entry (e_sub (the_child l n)) ch) n) =
    (if Some q = map_option (tf_cons l) p then s else sub_at q n)"
proof (cases q rule: topic_filter_cases)
  case (3 m g)
  show ?thesis
  proof (cases "g = Leaf []")
    case True
    then show ?thesis
      using assms(2) 3 by (cases p) (auto simp: sub_at_set_child sub_at_tf_cons)
  next
    case False
    then show ?thesis
      using assms(1) [of g] 3 by (cases p) (auto simp: sub_at_set_child sub_at_tf_cons)
  qed
qed (cases p; simp add: sub_at_set_child)+

lemma get_or_create_from_spec:
  assumes "get_or_create_from ts f n = (r, n')"
  shows "r = (case parse_filter (levels_of ts) of None \<Rightarrow> Inl () | Some p \<Rightarrow> Inr (fst (f (sub_at p n)))) \<and>
    sub_at q n' = (if Some q = parse_filter (levels_of ts) then snd (f (sub_at q n)) else sub_at q n)"
  using assms
proof (induction "slicer_size ts" arbitrary: ts n r n' q rule: less_induct)
  case less
  let ?l = "to_level (ts_head ts)" and ?e = "the_child (to_level (ts_head ts)) n"
  show ?case
  proof (cases "ts_head ts = hash")
    case True
    then show ?thesis
      using less.prems
      by (auto simp: get_or_create_from_child [of ts] parse_filter_levels [of ts]
          sub_at_set_any_recursive split: option.splits prod.splits)
  next
    case False
    show ?thesis
    proof (cases "slicer_tail ts")
      case None
      then show ?thesis
        using less.prems False
        by (auto simp: get_or_create_from_child [of ts] parse_filter_levels [of ts] Let_def
            sub_at_set_leaf split: prod.splits)
    next
      case (Some t)
      obtain r1 ch where g: "get_or_create_from t f (children ?e) = (r1, ch)" by fastforce
      note IH = less.hyps [OF slicer_tail_less [OF Some] g]
      let ?p = "parse_filter (levels_of t)"
      have n': "n' = set_child ?l (Entry (e_sub ?e) ch) n" and r: "r = r1"
        using less.prems False Some g by (simp_all add: get_or_create_from_child [of ts] Let_def)
      have "sub_at q n' = (if Some q = map_option (tf_cons ?l) ?p
          then snd (f (sub_at (the ?p) (children ?e))) else sub_at q n)"
        unfolding n' by (rule sub_at_set_children_upd)
          (cases ?p; use IH parse_filter_not_Leaf_Nil in auto)+
      then show ?thesis
        using r IH False Some parse_filter_not_Leaf_Nil
        by (auto simp: parse_filter_levels [of ts] sub_at_tf_cons split: option.splits)
    qed
  qed
qed

lemma sub_at_no_child:
  assumes "child l n = None"
  shows "sub_at (tf_cons l f) n = subscription_default"
proof (cases "f = Leaf []")
  case True
  then show ?thesis using assms by (simp add: the_child_def entry_default_def)
next
  case False
  then show ?thesis using assms by (simp add: sub_at_tf_cons the_child_def entry_default_def)
qed

text \<open>
  What \<open>get\<close> answers: nothing for a filter without a node, which holds nothing then; an error
  only for a malformed filter.
\<close>

lemma get_from_spec:
  assumes "get_from ts f n = (r, n')"
  shows "(case r of
      Inl _ \<Rightarrow> parse_filter (levels_of ts) = None
    | Inr None \<Rightarrow> (\<forall>p. parse_filter (levels_of ts) = Some p \<longrightarrow> sub_at p n = subscription_default)
    | Inr (Some a) \<Rightarrow> (\<exists>p. parse_filter (levels_of ts) = Some p \<and> a = fst (f (sub_at p n)))) \<and>
    sub_at q n' =
      (if Some q = parse_filter (levels_of ts) \<and> (\<exists>a. r = Inr (Some a))
       then snd (f (sub_at q n)) else sub_at q n)"
  using assms
proof (induction "slicer_size ts" arbitrary: ts n r n' q rule: less_induct)
  case less
  let ?l = "to_level (ts_head ts)"
  show ?case
  proof (cases "ts_head ts = hash")
    case True
    then show ?thesis
      using less.prems
      by (auto simp: get_from_child [of ts] parse_filter_levels [of ts]
          sub_at_set_any_recursive split: option.splits prod.splits)
  next
    case hd: False
    show ?thesis
    proof (cases "child ?l n")
      case None
      then have "r = Inr None" "n' = n"
        using less.prems hd by (simp_all add: get_from_child [of ts])
      moreover have "sub_at p n = subscription_default" if "parse_filter (levels_of ts) = Some p" for p
        using that hd sub_at_no_child [OF None] sub_at_no_child [OF None, of "Leaf []"]
        by (auto simp: parse_filter_levels [of ts] split: option.splits)
      ultimately show ?thesis by simp
    next
      case e: (Some e)
      then have te: "the_child ?l n = e" by (simp add: the_child_def)
      show ?thesis
      proof (cases "slicer_tail ts")
        case None
        then show ?thesis
          using less.prems hd e te sub_at_set_leaf [of q ?l _ n]
          by (auto simp: get_from_child [of ts] parse_filter_levels [of ts] Let_def
              split: prod.splits)
      next
        case (Some t)
        obtain r1 ch where g: "get_from t f (children e) = (r1, ch)" by fastforce
        note IH = less.hyps [OF slicer_tail_less [OF Some] g]
        let ?p = "if \<exists>a. r1 = Inr (Some a) then parse_filter (levels_of t) else None"
        have n': "n' = set_child ?l (Entry (e_sub (the_child ?l n)) ch) n" and r: "r = r1"
          using less.prems hd Some g e te by (simp_all add: get_from_child [of ts] Let_def)
        have p: "?p \<noteq> Some (Leaf [])" using parse_filter_not_Leaf_Nil by auto
        have "sub_at g ch = (if Some g = ?p then snd (f (sub_at (the ?p) (children (the_child ?l n))))
            else sub_at g (children (the_child ?l n)))" for g
          using conjunct2 [OF IH [of g]] te by (cases "parse_filter (levels_of t)") auto
        from sub_at_set_children_upd [OF this p]
        have sub: "sub_at q n' = (if Some q = map_option (tf_cons ?l) ?p
            then snd (f (sub_at (the ?p) (children e))) else sub_at q n)"
          unfolding n' te .
        have pf: "parse_filter (levels_of ts) = map_option (tf_cons ?l) (parse_filter (levels_of t))"
          using hd Some by (simp add: parse_filter_levels [of ts])
        have at: "sub_at (tf_cons ?l g) n = sub_at g (children e)"
          if "parse_filter (levels_of t) = Some g" for g
          using that parse_filter_not_Leaf_Nil te by (simp add: sub_at_tf_cons)
        show ?thesis
          using conjunct1 [OF IH] sub pf at r
          by (cases "parse_filter (levels_of t)") (auto split: sum.splits option.splits)
      qed
    qed
  qed
qed

end
