(* ===== verification/Dispatch.thy ===== *)
theory Dispatch
  imports Subscription
begin

text \<open>
  What the dispatch of a message does: it hands the message once to every queue and callback
  of every subscription whose topic filter matches, and to nothing else.
\<close>

section \<open>Deliveries\<close>

datatype delivery = ToLossy handle | ToUnbounded handle | ToCallback handle

fun deliver :: "'w sinks \<Rightarrow> incoming_publish_packet \<Rightarrow> delivery \<Rightarrow> 'w \<Rightarrow> 'w" where
  "deliver S msg (ToLossy q) w = snd (try_send S q msg w)"
| "deliver S msg (ToUnbounded q) w = snd (unbounded_send S q msg w)"
| "deliver S msg (ToCallback f) w = call_fn S f msg w"

definition sub_sinks :: "subscription \<Rightarrow> delivery multiset" where
  "sub_sinks sub =
     image_mset ToLossy (mset (lossy_queue sub)) +
     image_mset ToUnbounded (mset (unbounded_queue sub)) +
     image_mset (\<lambda>cb. ToCallback (cb_f cb)) (mset (fast_callbacks sub))"

text \<open>A subscription after a dispatch: closed queues may be gone, all else is as before.\<close>

definition pruned :: "subscription \<Rightarrow> subscription \<Rightarrow> bool" where
  "pruned sub sub' =
     (mset (lossy_queue sub') \<subseteq># mset (lossy_queue sub) \<and>
      mset (unbounded_queue sub') \<subseteq># mset (unbounded_queue sub) \<and>
      fast_callbacks sub' = fast_callbacks sub \<and> subscribed sub' = subscribed sub)"

lemma sub_sinks_default [simp]: "sub_sinks subscription_default = {#}"
  by (simp add: sub_sinks_def subscription_default_def)

lemma pruned_default [simp]: "pruned subscription_default subscription_default"
  by (simp add: pruned_def)

lemma fold_map_deliver:
  "fold (deliver S msg) (map ToLossy qs) w = fold (\<lambda>q w. snd (try_send S q msg w)) qs w"
  "fold (deliver S msg) (map ToUnbounded qs) w = fold (\<lambda>q w. snd (unbounded_send S q msg w)) qs w"
  "fold (deliver S msg) (map (\<lambda>cb. ToCallback (cb_f cb)) cbs) w
     = fold (\<lambda>cb. call_fn S (cb_f cb) msg) cbs w"
proof -
  show "fold (deliver S msg) (map ToLossy qs) w = fold (\<lambda>q w. snd (try_send S q msg w)) qs w"
    by (induction qs arbitrary: w) simp_all
  show "fold (deliver S msg) (map ToUnbounded qs) w
      = fold (\<lambda>q w. snd (unbounded_send S q msg w)) qs w"
    by (induction qs arbitrary: w) simp_all
  show "fold (deliver S msg) (map (\<lambda>cb. ToCallback (cb_f cb)) cbs) w
      = fold (\<lambda>cb. call_fn S (cb_f cb) msg) cbs w"
    by (induction cbs arbitrary: w) simp_all
qed

lemma sub_dispatch_spec:
  assumes "sub_dispatch S msg sub w = (sub', w')"
  shows "\<exists>acts. mset acts = sub_sinks sub \<and> w' = fold (deliver S msg) acts w \<and> pruned sub sub'"
proof -
  let ?P = "\<lambda>q w. case try_send S q msg w of (r, w) \<Rightarrow> (r = SendClosed, w)"
  let ?Q = "\<lambda>q w. case unbounded_send S q msg w of (ok, w) \<Rightarrow> (\<not> ok, w)"
  obtain ys ks w1 where a: "mset ys = mset (lossy_queue sub)" "visit ?P ys w = (ks, w1)"
    "prune ?P (lossy_queue sub) w = (ks, w1)" by (rule prune_visits)
  obtain zs us w2 where b: "mset zs = mset (unbounded_queue sub)" "visit ?Q zs w1 = (us, w2)"
    "prune ?Q (unbounded_queue sub) w1 = (us, w2)" by (rule prune_visits)
  let ?acts = "map ToLossy ys @ map ToUnbounded zs @
    map (\<lambda>cb. ToCallback (cb_f cb)) (fast_callbacks sub)"
  have "w1 = fold (\<lambda>q w. snd (try_send S q msg w)) ys w"
    using visit_world [of ?P ys w] a(2) by (simp add: case_prod_beta)
  moreover have "w2 = fold (\<lambda>q w. snd (unbounded_send S q msg w)) zs w1"
    using visit_world [of ?Q zs w1] b(2) by (simp add: case_prod_beta)
  ultimately have "w' = fold (deliver S msg) ?acts w"
    using assms a(3) b(3) by (simp add: sub_dispatch_def fold_map_deliver)
  moreover have "mset ?acts = sub_sinks sub"
    using a(1) b(1) by (simp add: sub_sinks_def)
  moreover have "pruned sub sub'"
    using assms a b visit_kept [OF a(2)] visit_kept [OF b(2)]
    by (auto simp: sub_dispatch_def pruned_def)
  ultimately show ?thesis by blast
qed

section \<open>Matching\<close>

definition level_matches :: "level \<Rightarrow> rstr \<Rightarrow> bool" where
  "level_matches l t = (l = AnyLevel \<or> l = Exact t)"

text \<open>
  A filter matches level by level; a recursive one matches the topics with at least one level
  more than its path.
\<close>

fun filter_matches :: "topic_filter \<Rightarrow> rstr list \<Rightarrow> bool" where
  "filter_matches (Leaf ls) ts = list_all2 level_matches ls ts"
| "filter_matches (Recursive ls) ts =
     (length ls < length ts \<and> list_all2 level_matches ls (take (length ls) ts))"

text \<open>All filters that match, in the order in which the tree is searched.\<close>

fun matching :: "rstr list \<Rightarrow> topic_filter list" where
  "matching [] = [Leaf []]"
| "matching (t # ts) =
     Recursive [] # map (tf_cons AnyLevel) (matching ts) @ map (tf_cons (Exact t)) (matching ts)"

lemma filter_matches_cons [simp]:
  "filter_matches (tf_cons l f) (t # ts) \<longleftrightarrow> level_matches l t \<and> filter_matches f ts"
  by (cases f) auto

lemma filter_matches_Nil [simp]: "\<not> filter_matches (tf_cons l f) []"
  by (cases f) auto

lemma tf_cons_image [simp]: "tf_cons l g \<in> tf_cons m ` A \<longleftrightarrow> l = m \<and> g \<in> A"
  "Recursive [] \<notin> tf_cons m ` A" "Leaf [] \<notin> tf_cons m ` A"
  by auto

lemma set_matching: "f \<in> set (matching ts) \<longleftrightarrow> filter_matches f ts"
proof (induction ts arbitrary: f)
  case Nil
  show ?case by (cases f rule: topic_filter_cases) auto
next
  case (Cons t ts)
  show ?case
    by (cases f rule: topic_filter_cases) (simp_all add: Cons level_matches_def, blast)
qed

lemma distinct_matching: "distinct (matching ts)"
  by (induction ts) (auto simp: distinct_map inj_on_def)

section \<open>Dispatching through the tree\<close>

definition entry_sub :: "topic_filter \<Rightarrow> entry \<Rightarrow> subscription" where
  "entry_sub f e = (if f = Leaf [] then e_sub e else sub_at f (children e))"

definition dispatched ::
    "'w sinks \<Rightarrow> incoming_publish_packet \<Rightarrow> topic_filter list \<Rightarrow> (topic_filter \<Rightarrow> subscription) \<Rightarrow>
     (topic_filter \<Rightarrow> subscription) \<Rightarrow> 'w \<Rightarrow> 'w \<Rightarrow> bool" where
  "dispatched S msg fs look look' w w' =
     ((\<exists>acts. mset acts = sum_list (map (\<lambda>f. sub_sinks (look f)) fs) \<and>
              w' = fold (deliver S msg) acts w) \<and>
      (\<forall>f. if f \<in> set fs then pruned (look f) (look' f) else look' f = look f))"

definition tail_levels :: "topic_slicer option \<Rightarrow> rstr list" where
  "tail_levels rest = (case rest of None \<Rightarrow> [] | Some t \<Rightarrow> levels_of t)"

lemma levels_of_eq: "levels_of ts = ts_head ts # tail_levels (slicer_tail ts)"
  by (subst levels_of.simps) (simp add: tail_levels_def)

lemma sub_at_cons: "sub_at (tf_cons l f) n = entry_sub f (the_child l n)"
  by (cases "f = Leaf []") (auto simp: entry_sub_def sub_at_tf_cons)

lemma dispatched_pruned:
  "dispatched S msg fs look look' w w' \<Longrightarrow> f \<in> set fs \<Longrightarrow> pruned (look f) (look' f)"
  unfolding dispatched_def by metis

lemma dispatched_same:
  "dispatched S msg fs look look' w w' \<Longrightarrow> f \<notin> set fs \<Longrightarrow> look' f = look f"
  unfolding dispatched_def by metis

lemma dispatched_one:
  assumes "sub_dispatch S msg (look f) w = (s, w')" and "look' f = s"
    and "\<And>g. g \<noteq> f \<Longrightarrow> look' g = look g"
  shows "dispatched S msg [f] look look' w w'"
  using sub_dispatch_spec [OF assms(1)] assms(2,3) by (auto simp: dispatched_def)

lemma dispatched_append:
  assumes "dispatched S msg fs look look1 w w1" and "dispatched S msg gs look1 look2 w1 w2"
    and "set fs \<inter> set gs = {}"
  shows "dispatched S msg (fs @ gs) look look2 w w2"
proof -
  obtain as where a: "mset as = sum_list (map (\<lambda>f. sub_sinks (look f)) fs)"
    "w1 = fold (deliver S msg) as w" using assms(1) by (auto simp: dispatched_def)
  obtain bs where b: "mset bs = sum_list (map (\<lambda>f. sub_sinks (look1 f)) gs)"
    "w2 = fold (deliver S msg) bs w1" using assms(2) by (auto simp: dispatched_def)
  have same: "look1 f = look f" if "f \<notin> set fs" for f
    using dispatched_same [OF assms(1) that] .
  then have "map (\<lambda>f. sub_sinks (look1 f)) gs = map (\<lambda>f. sub_sinks (look f)) gs"
    using assms(3) by (intro map_cong refl arg_cong [where f = sub_sinks]) (auto simp: disjoint_iff)
  with a b have "mset (as @ bs) = sum_list (map (\<lambda>f. sub_sinks (look f)) (fs @ gs)) \<and>
      w2 = fold (deliver S msg) (as @ bs) w" by simp
  moreover have "if f \<in> set (fs @ gs) then pruned (look f) (look2 f) else look2 f = look f" for f
  proof (cases "f \<in> set fs")
    case True
    then have "f \<notin> set gs" using assms(3) by auto
    then show ?thesis
      using dispatched_pruned [OF assms(1) True] dispatched_same [OF assms(2), of f] True by simp
  next
    case False
    then show ?thesis
      using dispatched_pruned [OF assms(2), of f] dispatched_same [OF assms(2), of f] same [OF False]
      by simp
  qed
  ultimately show ?thesis unfolding dispatched_def by blast
qed

lemma dispatched_none:
  assumes "\<And>f. f \<in> set fs \<Longrightarrow> look f = subscription_default"
  shows "dispatched S msg fs look look w w"
proof -
  have "sum_list (map (\<lambda>f. sub_sinks (look f)) fs) = {#}"
    using assms by (induction fs) auto
  then show ?thesis using assms by (auto simp: dispatched_def intro!: exI [of _ "[]"])
qed

text \<open>A dispatch into an entry, seen from the node that holds the entry at level \<open>l\<close>.\<close>

lemma dispatched_child:
  assumes d: "dispatched S msg fs (\<lambda>f. entry_sub f e) (\<lambda>f. entry_sub f e') w w'"
    and e: "the_child l n = e"
  shows "dispatched S msg (map (tf_cons l) fs) (\<lambda>f. sub_at f n) (\<lambda>f. sub_at f (set_child l e' n)) w w'"
proof -
  have "sub_at (tf_cons m g) (set_child l e' n) = (if m = l then entry_sub g e' else sub_at (tf_cons m g) n)" for m g
    by (simp add: sub_at_cons)
  note upd = this
  have at: "if f \<in> set (map (tf_cons l) fs) then pruned (sub_at f n) (sub_at f (set_child l e' n))
      else sub_at f (set_child l e' n) = sub_at f n" for f
  proof (cases f rule: topic_filter_cases)
    case (3 m g)
    then show ?thesis
      using dispatched_pruned [OF d, of g] dispatched_same [OF d, of g] e upd [of m g]
      by (simp add: sub_at_cons)
  qed simp_all
  have "map (\<lambda>f. sub_sinks (sub_at f n)) (map (tf_cons l) fs) = map (\<lambda>f. sub_sinks (entry_sub f e)) fs"
    using e by (simp add: sub_at_cons)
  moreover obtain acts where "mset acts = sum_list (map (\<lambda>f. sub_sinks (entry_sub f e)) fs)"
    "w' = fold (deliver S msg) acts w"
    using d unfolding dispatched_def by blast
  ultimately show ?thesis using at unfolding dispatched_def by metis
qed

lemma Leaf_Nil_not_matching: "Leaf [] \<notin> set (matching (levels_of ts))"
  by (simp add: levels_of_eq set_matching del: matching.simps)

lemma dispatched_entry:
  assumes node: "\<And>t n w n' w'. rest = Some t \<Longrightarrow> node_dispatch S msg t n w = (n', w') \<Longrightarrow>
      dispatched S msg (matching (levels_of t)) (\<lambda>f. sub_at f n) (\<lambda>f. sub_at f n') w w'"
    and step: "entry_dispatch S msg rest e w = (e', w')"
  shows "dispatched S msg (matching (tail_levels rest)) (\<lambda>f. entry_sub f e) (\<lambda>f. entry_sub f e') w w'"
proof (cases rest)
  case None
  then obtain sub ch sub1 where "e = Entry sub ch" "e' = Entry sub1 ch" "sub_dispatch S msg sub w = (sub1, w')"
    using step by (cases e) (auto split: prod.splits)
  then show ?thesis
    using None by (auto simp: tail_levels_def entry_sub_def intro!: dispatched_one)
next
  case (Some t)
  then obtain sub ch ch1 where e: "e = Entry sub ch" "e' = Entry sub ch1"
    and n: "node_dispatch S msg t ch w = (ch1, w')"
    using step by (cases e) (auto split: prod.splits)
  let ?fs = "matching (levels_of t)"
  note d = node [OF Some n]
  then obtain acts where a: "mset acts = sum_list (map (\<lambda>f. sub_sinks (sub_at f ch)) ?fs)"
    "w' = fold (deliver S msg) acts w" unfolding dispatched_def by blast
  have ne: "f \<noteq> Leaf []" if "f \<in> set ?fs" for f
    using that Leaf_Nil_not_matching by metis
  then have "map (\<lambda>f. sub_sinks (entry_sub f e)) ?fs = map (\<lambda>f. sub_sinks (sub_at f ch)) ?fs"
    using e by (intro map_cong) (simp_all add: entry_sub_def)
  moreover have "if f \<in> set ?fs then pruned (entry_sub f e) (entry_sub f e')
      else entry_sub f e' = entry_sub f e" for f
    using dispatched_pruned [OF d, of f] dispatched_same [OF d, of f] ne [of f] e
    by (simp add: entry_sub_def)
  ultimately have "dispatched S msg ?fs (\<lambda>f. entry_sub f e) (\<lambda>f. entry_sub f e') w w'"
    using a unfolding dispatched_def by metis
  then show ?thesis using Some by (simp add: tail_levels_def)
qed

lemma dispatched_level:
  assumes entry: "\<And>e w e' w'. entry_dispatch S msg rest e w = (e', w') \<Longrightarrow>
      dispatched S msg fs (\<lambda>f. entry_sub f e) (\<lambda>f. entry_sub f e') w w'"
    and step: "(case child l n of None \<Rightarrow> (n, w)
      | Some e \<Rightarrow> (case entry_dispatch S msg rest e w of (e, w) \<Rightarrow> (set_child l e n, w))) = (n', w')"
  shows "dispatched S msg (map (tf_cons l) fs) (\<lambda>f. sub_at f n) (\<lambda>f. sub_at f n') w w'"
proof (cases "child l n")
  case None
  then show ?thesis using step sub_at_no_child [OF None] by (auto intro!: dispatched_none)
next
  case (Some e)
  then obtain e1 where "entry_dispatch S msg rest e w = (e1, w')" "n' = set_child l e1 n"
    using step by (auto split: prod.splits)
  then show ?thesis
    using dispatched_child [OF entry, of e w e1 w' l n] Some by (simp add: the_child_def)
qed

lemma node_dispatch_steps:
  "node_dispatch S msg topic n w =
     (case sub_dispatch S msg (any_recursive n) w of (re, w) \<Rightarrow>
      let n = set_any_recursive re n; rest = slicer_tail topic in
      case (case child AnyLevel n of None \<Rightarrow> (n, w)
            | Some e \<Rightarrow> (case entry_dispatch S msg rest e w of (e, w) \<Rightarrow> (set_child AnyLevel e n, w))) of
        (n, w) \<Rightarrow>
      (case child (Exact (ts_head topic)) n of None \<Rightarrow> (n, w)
       | Some e \<Rightarrow> (case entry_dispatch S msg rest e w of
            (e, w) \<Rightarrow> (set_child (Exact (ts_head topic)) e n, w))))"
  by (cases n) (auto simp: node_dispatch.simps split: prod.splits option.splits)

lemma node_dispatch_spec:
  assumes "node_dispatch S msg ts n w = (n', w')"
  shows "dispatched S msg (matching (levels_of ts)) (\<lambda>f. sub_at f n) (\<lambda>f. sub_at f n') w w'"
  using assms
proof (induction "slicer_size ts" arbitrary: ts n w n' w' rule: less_induct)
  case less
  let ?rest = "slicer_tail ts"
  let ?m = "matching (tail_levels ?rest)"
  have entry: "dispatched S msg ?m (\<lambda>f. entry_sub f e) (\<lambda>f. entry_sub f e1) v v1"
    if "entry_dispatch S msg ?rest e v = (e1, v1)" for e v e1 v1
    by (rule dispatched_entry [OF less.hyps that]) (auto dest: slicer_tail_less)
  obtain re w1 where s: "sub_dispatch S msg (any_recursive n) w = (re, w1)" by fastforce
  let ?n1 = "set_any_recursive re n"
  obtain n2 w2 where a: "(case child AnyLevel ?n1 of None \<Rightarrow> (?n1, w1)
      | Some e \<Rightarrow> (case entry_dispatch S msg ?rest e w1 of (e, w) \<Rightarrow> (set_child AnyLevel e ?n1, w))) = (n2, w2)"
    by fastforce
  have x: "(case child (Exact (ts_head ts)) n2 of None \<Rightarrow> (n2, w2)
      | Some e \<Rightarrow> (case entry_dispatch S msg ?rest e w2 of
          (e, w) \<Rightarrow> (set_child (Exact (ts_head ts)) e n2, w))) = (n', w')"
    using less.prems by (simp only: node_dispatch_steps s a Let_def prod.case)
  have "dispatched S msg [Recursive []] (\<lambda>f. sub_at f n) (\<lambda>f. sub_at f ?n1) w w1"
    using s by (intro dispatched_one) (auto simp: sub_at_set_any_recursive)
  moreover note dispatched_level [OF entry a]
  moreover note dispatched_level [OF entry x]
  ultimately have "dispatched S msg ([Recursive []] @ map (tf_cons AnyLevel) ?m @
      map (tf_cons (Exact (ts_head ts))) ?m) (\<lambda>f. sub_at f n) (\<lambda>f. sub_at f n') w w'"
    by (intro dispatched_append) auto
  then show ?case by (simp add: levels_of_eq [of ts])
qed

section \<open>Concrete sinks\<close>

text \<open>Sinks that record what they are given; handle 9 is a closed channel.\<close>

definition log_sinks :: "(handle \<times> incoming_publish_packet) list sinks" where
  "log_sinks =
     \<lparr>try_send = (\<lambda>q msg w. if q = 9 then (SendClosed, w) else (SendOk, w @ [(q, msg)])),
      unbounded_send = (\<lambda>q msg w. (True, w @ [(q, msg)])),
      call_fn = (\<lambda>f msg w. w @ [(f, msg)])\<rparr>"

end
