(* ===== verification/Subscription_Properties.thy ===== *)
theory Subscription_Properties
  imports Dispatch Packet_Codec
begin

text \<open>The properties of the subscription tree.\<close>

text \<open>
  C13. A received message is handed exactly once to every queue and every callback of each
  subscription whose topic filter matches the topic of the message, and to nothing else.
  Subscriptions that do not match are not touched; of those that match, only queues may
  disappear.
\<close>

theorem dispatch_delivers_exactly:
  assumes "publish_topic msg = (Inr topic :: ('e, rstr) result)"
  shows "\<exists>n' w' acts. set_dispatch S msg n w = ((Inr () :: ('e, unit) result), n', w') \<and>
    mset acts = (\<Sum>f \<in> {f. filter_matches f (levels topic)}. sub_sinks (sub_at f n)) \<and>
    w' = fold (deliver S msg) acts w \<and>
    (\<forall>f. if filter_matches f (levels topic) then pruned (sub_at f n) (sub_at f n')
         else sub_at f n' = sub_at f n)"
proof -
  obtain n' w' where d: "node_dispatch S msg (topic_slicer_new topic) n w = (n', w')" by fastforce
  let ?fs = "matching (levels topic)"
  have spec: "dispatched S msg ?fs (\<lambda>f. sub_at f n) (\<lambda>f. sub_at f n') w w'"
    using node_dispatch_spec [OF d] by (simp add: levels_def)
  have fs: "set ?fs = {f. filter_matches f (levels topic)}" using set_matching by blast
  have "sum_list (map (\<lambda>f. sub_sinks (sub_at f n)) ?fs)
      = (\<Sum>f \<in> {f. filter_matches f (levels topic)}. sub_sinks (sub_at f n))"
    using sum_list_distinct_conv_sum_set [OF distinct_matching] fs by metis
  moreover obtain acts where "mset acts = sum_list (map (\<lambda>f. sub_sinks (sub_at f n)) ?fs)"
    "w' = fold (deliver S msg) acts w"
    using spec unfolding dispatched_def by blast
  moreover have "if filter_matches f (levels topic) then pruned (sub_at f n) (sub_at f n')
         else sub_at f n' = sub_at f n" for f
    using dispatched_pruned [OF spec, of f] dispatched_same [OF spec, of f] by (simp add: set_matching)
  moreover have "set_dispatch S msg n w = ((Inr () :: ('e, unit) result), n', w')"
    using assms d by (simp add: set_dispatch_def)
  ultimately show ?thesis by metis
qed

text \<open>A tree with the filters \<open>a/*\<close> (queues 1 and 9), \<open>#\<close> (callback 2) and \<open>a/c\<close> (queue 3).\<close>

definition sample_tree :: node where
  "sample_tree =
     snd (get_or_create (str_bytes ''a/c'') (\<lambda>s. ((), s\<lparr>unbounded_queue := [3]\<rparr>))
       (snd (get_or_create (str_bytes ''#'') (\<lambda>s. ((), s\<lparr>fast_callbacks := [\<lparr>cb_id = 0, cb_f = 2\<rparr>]\<rparr>))
         (snd (get_or_create (str_bytes ''a/*'') (\<lambda>s. ((), s\<lparr>lossy_queue := [1, 9]\<rparr>)) node_default)))))"

definition sample_message :: incoming_publish_packet where
  "sample_message = message_of (PublishFlags 0) 0 (str_bytes ''a/b'') [1]"

theorem dispatch_delivers_exactly_witness:
  "\<exists>n' acts. set_dispatch log_sinks sample_message sample_tree []
      = ((Inr () :: (io_error, unit) result), n', [(2, sample_message), (1, sample_message)]) \<and>
    mset acts = (\<Sum>f \<in> {f. filter_matches f (levels (str_bytes ''a/b''))}. sub_sinks (sub_at f sample_tree)) \<and>
    fold (deliver log_sinks sample_message) acts [] = [(2, sample_message), (1, sample_message)]"
proof -
  have t: "publish_topic sample_message = (Inr (str_bytes ''a/b'') :: (io_error, rstr) result)"
    by code_simp
  have w: "snd (snd (set_dispatch log_sinks sample_message sample_tree []
      :: (io_error, unit) result \<times> node \<times> _)) = [(2, sample_message), (1, sample_message)]"
    by code_simp
  from dispatch_delivers_exactly [OF t, of log_sinks sample_tree "[]"] w show ?thesis by auto
qed

text \<open>
  C26. The subscription tree is a map from topic filters to subscriptions, and
  \<open>get_or_create\<close> is its update: it applies the caller's change to the subscription of the
  given filter and to no other. It fails exactly for the malformed filters, those with a \<open>#\<close>
  before their last level, and then changes no subscription.
\<close>

theorem get_or_create_updates:
  "case get_or_create topic f n of (r, n') \<Rightarrow>
     r = (case parse_filter (levels topic) of None \<Rightarrow> Inl () | Some p \<Rightarrow> Inr (fst (f (sub_at p n)))) \<and>
     (\<forall>q. sub_at q n' =
        (if Some q = parse_filter (levels topic) then snd (f (sub_at q n)) else sub_at q n))"
proof -
  obtain r n' where "get_or_create_from (topic_slicer_new topic) f n = (r, n')" by fastforce
  from get_or_create_from_spec [OF this] show ?thesis
    using \<open>get_or_create_from (topic_slicer_new topic) f n = (r, n')\<close>
    by (simp add: get_or_create_def levels_def)
qed

text \<open>
  \<open>get\<close> gives access to the same subscription as \<open>get_or_create\<close> without creating
  anything: it answers that there is none only when the subscription of the filter is empty,
  and an error only for a malformed filter.
\<close>

lemma get_finds:
  "case get topic f n of (r, n') \<Rightarrow>
     (case r of
        Inl _ \<Rightarrow> parse_filter (levels topic) = None
      | Inr None \<Rightarrow>
          (case parse_filter (levels topic) of None \<Rightarrow> True | Some p \<Rightarrow> sub_at p n = subscription_default)
      | Inr (Some a) \<Rightarrow> (\<exists>p. parse_filter (levels topic) = Some p \<and> a = fst (f (sub_at p n)))) \<and>
     (\<forall>q. sub_at q n' =
        (if Some q = parse_filter (levels topic) \<and> (\<exists>a. r = Inr (Some a))
         then snd (f (sub_at q n)) else sub_at q n))"
proof -
  obtain r n' where g: "get_from (topic_slicer_new topic) f n = (r, n')" by fastforce
  note spec = get_from_spec [OF g]
  show ?thesis
    using g spec
    by (auto simp: get_def levels_def split: sum.splits option.splits)
qed

text \<open>
  C27. After \<open>clear\<close> the subscription of the filter is empty and unsubscribed, every other one
  is unchanged, and the answer tells whether the client was subscribed. This needs that a
  subscription without the flag holds nothing, as its documentation says.
\<close>

theorem clear_unsubscribes:
  assumes "parse_filter (levels topic) = Some p"
    and "\<not> subscribed (sub_at p n) \<longrightarrow> sub_at p n = subscription_default"
  shows "\<exists>n'. set_clear topic n = (Inr (subscribed (sub_at p n)), n') \<and>
    (\<forall>q. sub_at q n' = (if q = p then subscription_default else sub_at q n))"
proof -
  let ?f = "\<lambda>sub. if is_subscribed sub then (True, sub_clear sub) else (False, sub)"
  obtain r n' where g: "get_from (topic_slicer_new topic) ?f n = (r, n')" by fastforce
  note spec = get_from_spec [OF g]
  have clear: "sub_clear sub = subscription_default" for sub
    by (cases sub) (simp add: sub_clear_def subscription_default_def)
  consider "r = Inr None" | a where "r = Inr (Some a)"
    using conjunct1 [OF spec] assms(1) by (cases r) (auto simp: levels_def)
  then show ?thesis
  proof cases
    case 1
    have d: "sub_at p n = subscription_default"
      using conjunct1 [OF spec] 1 assms(1) by (simp add: levels_def)
    then show ?thesis
      using g 1 spec by (auto simp: set_clear_def get_def subscription_default_def)
  next
    case (2 a)
    then have "a = fst (?f (sub_at p n))"
      using conjunct1 [OF spec] assms(1) by (simp add: levels_def)
    moreover have "sub_at q n' = (if q = p then subscription_default else sub_at q n)" for q
      using conjunct2 [OF spec, of q] 2 assms by (auto simp: levels_def is_subscribed_def clear)
    ultimately show ?thesis
      using g 2 by (auto simp: set_clear_def get_def is_subscribed_def)
  qed
qed

theorem clear_unsubscribes_witness:
  "\<exists>n'. set_clear (str_bytes ''a'') (snd (get_or_create (str_bytes ''a'')
        (\<lambda>s. ((), s\<lparr>lossy_queue := [1], subscribed := True\<rparr>)) node_default)) = (Inr True, n') \<and>
    sub_at (Leaf [Exact (str_bytes ''a'')]) n' = subscription_default"
proof -
  let ?n = "snd (get_or_create (str_bytes ''a'')
        (\<lambda>s. ((), s\<lparr>lossy_queue := [1], subscribed := True\<rparr>)) node_default)"
  have p: "parse_filter (levels (str_bytes ''a'')) = Some (Leaf [Exact (str_bytes ''a'')])" by code_simp
  have s: "subscribed (sub_at (Leaf [Exact (str_bytes ''a'')]) ?n)" by code_simp
  from clear_unsubscribes [OF p, of ?n] s show ?thesis by (auto simp del: sub_at.simps)
qed

text \<open>
  C28. Fast callbacks stay ordered by strictly increasing id, and on ordered callbacks the
  binary searches are exact: adding inserts the new callback at its place, and ignores it if
  the id is taken; removing removes the callback with the id and no other.
\<close>

theorem fast_callbacks_ordered:
  assumes "callbacks_sorted (fast_callbacks sub)"
  shows "add_fast_callback False new sub =
      (Inr (), sub\<lparr>fast_callbacks := insert_callback new (fast_callbacks sub)\<rparr>) \<and>
    callbacks_sorted (insert_callback new (fast_callbacks sub)) \<and>
    remove_fast_callback cid sub =
      sub\<lparr>fast_callbacks := filter (\<lambda>c. cb_id c \<noteq> cid) (fast_callbacks sub)\<rparr> \<and>
    callbacks_sorted (filter (\<lambda>c. cb_id c \<noteq> cid) (fast_callbacks sub))"
  using assms
  by (simp add: add_fast_callback_correct insert_callback_sorted remove_fast_callback_correct
      callbacks_sorted_filter)

theorem fast_callbacks_ordered_witness:
  "add_fast_callback False \<lparr>cb_id = 2, cb_f = 0\<rparr> (subscription_default
      \<lparr>fast_callbacks := [\<lparr>cb_id = 1, cb_f = 5\<rparr>, \<lparr>cb_id = 3, cb_f = 6\<rparr>]\<rparr>) =
   ((Inr () :: (io_error, unit) result), subscription_default
      \<lparr>fast_callbacks := [\<lparr>cb_id = 1, cb_f = 5\<rparr>, \<lparr>cb_id = 2, cb_f = 0\<rparr>, \<lparr>cb_id = 3, cb_f = 6\<rparr>]\<rparr>)"
proof -
  let ?s = "subscription_default\<lparr>fast_callbacks := [\<lparr>cb_id = 1, cb_f = 5\<rparr>, \<lparr>cb_id = 3, cb_f = 6\<rparr>]\<rparr>"
  have "callbacks_sorted (fast_callbacks ?s)"
    by (simp add: callbacks_sorted_def word_less_nat_alt)
  from conjunct1 [OF fast_callbacks_ordered [OF this, of "\<lparr>cb_id = 2, cb_f = 0\<rparr>" 0]] show ?thesis
    by (rule trans) (simp add: insert_callback_def word_less_nat_alt)
qed

end
