(* ===== verification/Shared.thy ===== *)
theory Shared
  imports Packets "HOL-Library.AList"
begin

text \<open>
  \<open>shared.rs\<close> and the packet keys of \<open>transceiver/util.rs\<close>: what the client handles and the
  transceiver task share. Each field behind a mutex or an atomic is a field of one record, and
  a locked section is one function on it. A waker is the number of the task it wakes; the calls
  of \<open>wake\<close> are recorded in order. The hash maps that the sources iterate over are
  association lists, whose order stands for the unspecified iteration order; nothing proved
  depends on it.
\<close>

section \<open>Hash maps\<close>

type_synonym ('k, 'v) hmap = "('k \<times> 'v) list"

definition hm_wf :: "('k, 'v) hmap \<Rightarrow> bool" where
  "hm_wf m = distinct (map fst m)"

definition hm_get :: "'k \<Rightarrow> ('k, 'v) hmap \<Rightarrow> 'v option" where
  "hm_get k m = map_of m k"

definition hm_insert :: "'k \<Rightarrow> 'v \<Rightarrow> ('k, 'v) hmap \<Rightarrow> ('k, 'v) hmap" where
  "hm_insert k v m = AList.update k v m"

definition hm_remove :: "'k \<Rightarrow> ('k, 'v) hmap \<Rightarrow> ('k, 'v) hmap" where
  "hm_remove k m = AList.delete k m"

lemma hm_get_Nil [simp]: "hm_get k [] = None"
  by (simp add: hm_get_def)

lemma hm_get_insert [simp]: "hm_get k (hm_insert k' v m) = (if k = k' then Some v else hm_get k m)"
  by (simp add: hm_get_def hm_insert_def update_conv')

lemma hm_get_remove [simp]: "hm_get k (hm_remove k' m) = (if k = k' then None else hm_get k m)"
  by (simp add: hm_get_def hm_remove_def delete_conv')

lemma hm_wf_simps [simp]: "hm_wf []" "hm_wf m \<Longrightarrow> hm_wf (hm_insert k v m)" "hm_wf m \<Longrightarrow> hm_wf (hm_remove k m)"
  by (simp_all add: hm_wf_def hm_insert_def hm_remove_def distinct_update distinct_delete)

lemma hm_get_in_set: "hm_wf m \<Longrightarrow> hm_get k m = Some v \<longleftrightarrow> (k, v) \<in> set m"
  by (simp add: hm_wf_def hm_get_def)

section \<open>Packet keys\<close>

record id_type =
  it_ty :: packet_type
  it_id :: u16

definition id_publish :: "u16 \<Rightarrow> id_type" where
  "id_publish i = \<lparr>it_ty = PT_Publish, it_id = i\<rparr>"

definition id_subscribe :: "u16 \<Rightarrow> id_type" where
  "id_subscribe i = \<lparr>it_ty = PT_Subscribe, it_id = i\<rparr>"

definition id_pub_rec :: "u16 \<Rightarrow> id_type" where
  "id_pub_rec i = \<lparr>it_ty = PT_PubRec, it_id = i\<rparr>"

definition id_pub_rel :: "u16 \<Rightarrow> id_type" where
  "id_pub_rel i = \<lparr>it_ty = PT_PubRel, it_id = i\<rparr>"

definition id_unsubscribe :: "u16 \<Rightarrow> id_type" where
  "id_unsubscribe i = \<lparr>it_ty = PT_Unsubscribe, it_id = i\<rparr>"

lemmas id_type_defs =
  id_publish_def id_subscribe_def id_pub_rec_def id_pub_rel_def id_unsubscribe_def

section \<open>Shared state\<close>

type_synonym waker = nat

datatype notify_result = WithoutWaker | WithWaker waker | Failed

type_synonym notifier_map = "(u16, notify_result) hmap"

datatype subscription_state = Existing qos | Pending "waker option list"

record client_shared =
  next_packet_id :: u16
  notify_ack :: notifier_map
  notify_rec :: notifier_map
  notify_comp :: notifier_map
  subs :: "(rstr, subscription_state) hmap"
  next_callback_id :: u32

definition client_shared_new :: client_shared where
  "client_shared_new =
     \<lparr>next_packet_id = 1, notify_ack = [], notify_rec = [], notify_comp = [], subs = [],
      next_callback_id = 0\<rparr>"

text \<open>\<open>fetch_add(1)\<close> on the two counters; atomic integers wrap around.\<close>

definition fetch_packet_id :: "client_shared \<Rightarrow> u16 \<times> client_shared" where
  "fetch_packet_id sh = (next_packet_id sh, sh\<lparr>next_packet_id := next_packet_id sh + 1\<rparr>)"

definition fetch_callback_id :: "client_shared \<Rightarrow> u32 \<times> client_shared" where
  "fetch_callback_id sh = (next_callback_id sh, sh\<lparr>next_callback_id := next_callback_id sh + 1\<rparr>)"

text \<open>The three notifier maps, and the accessors by which a future names its map.\<close>

datatype stage = StAck | StRec | StComp

fun access_notifier_map :: "stage \<Rightarrow> client_shared \<Rightarrow> notifier_map" where
  "access_notifier_map StAck sh = notify_ack sh"
| "access_notifier_map StRec sh = notify_rec sh"
| "access_notifier_map StComp sh = notify_comp sh"

fun set_notifier_map :: "stage \<Rightarrow> notifier_map \<Rightarrow> client_shared \<Rightarrow> client_shared" where
  "set_notifier_map StAck m sh = sh\<lparr>notify_ack := m\<rparr>"
| "set_notifier_map StRec m sh = sh\<lparr>notify_rec := m\<rparr>"
| "set_notifier_map StComp m sh = sh\<lparr>notify_comp := m\<rparr>"

lemma access_set_notifier_map [simp]:
  "access_notifier_map s (set_notifier_map s' m sh) = (if s = s' then m else access_notifier_map s sh)"
  by (cases s; cases s') auto

lemma set_notifier_map_frame [simp]:
  "subs (set_notifier_map s m sh) = subs sh"
  "next_packet_id (set_notifier_map s m sh) = next_packet_id sh"
  "next_callback_id (set_notifier_map s m sh) = next_callback_id sh"
  by (cases s; simp)+

end
