(* ===== verification/Futures.thy ===== *)
theory Futures
  imports Shared
begin

text \<open>
  \<open>futures.rs\<close>: the futures with which a client awaits a stage of a publication or the
  acknowledgement of a subscription. \<open>poll\<close> and \<open>drop\<close> are functions on the future and the
  shared state; what the transceiver task does to the same maps is in \<open>Transceiver\<close>.
\<close>

datatype 'a poll = Ready 'a | PollPending

section \<open>Publications\<close>

record publish_future =
  pf_packet_id :: u16
  pf_notifier :: stage
  pf_result :: "bool option"

definition publish_future_new :: "u16 \<Rightarrow> stage \<Rightarrow> client_shared \<Rightarrow> publish_future \<times> client_shared" where
  "publish_future_new packet_id notifier sh =
     (\<lparr>pf_packet_id = packet_id, pf_notifier = notifier, pf_result = None\<rparr>,
      set_notifier_map notifier
        (hm_insert packet_id WithoutWaker (access_notifier_map notifier sh)) sh)"

definition publish_future_poll ::
    "waker \<Rightarrow> publish_future \<Rightarrow> client_shared \<Rightarrow> bool poll \<times> publish_future \<times> client_shared" where
  "publish_future_poll w fut sh =
     (case pf_result fut of
        Some ret \<Rightarrow> (Ready ret, fut, sh)
      | None \<Rightarrow>
          let map = access_notifier_map (pf_notifier fut) sh in
          (case hm_get (pf_packet_id fut) map of
             Some Failed \<Rightarrow> (Ready True, fut\<lparr>pf_result := Some True\<rparr>, sh)
           | Some _ \<Rightarrow>
               (PollPending, fut,
                set_notifier_map (pf_notifier fut)
                  (hm_insert (pf_packet_id fut) (WithWaker w) map) sh)
           | None \<Rightarrow> (Ready False, fut\<lparr>pf_result := Some False\<rparr>, sh)))"

definition publish_future_drop :: "publish_future \<Rightarrow> client_shared \<Rightarrow> client_shared" where
  "publish_future_drop fut sh =
     (if pf_result fut = None
      then set_notifier_map (pf_notifier fut)
             (hm_remove (pf_packet_id fut) (access_notifier_map (pf_notifier fut) sh)) sh
      else sh)"

section \<open>Subscriptions\<close>

record subscribe_future =
  sf_topic :: rstr
  sf_waker_index :: "nat option"
  sf_result :: "(unit + qos) option"

definition subscribe_future_new :: "rstr \<Rightarrow> subscribe_future" where
  "subscribe_future_new topic = \<lparr>sf_topic = topic, sf_waker_index = None, sf_result = None\<rparr>"

text \<open>Storing a waker at its index panics when the vector is too short.\<close>

definition subscribe_future_poll ::
    "waker \<Rightarrow> subscribe_future \<Rightarrow> client_shared \<Rightarrow>
     ('e, (unit + qos) poll \<times> subscribe_future \<times> client_shared) result" where
  "subscribe_future_poll w fut sh =
     (case sf_result fut of
        Some result \<Rightarrow> Inr (Ready result, fut, sh)
      | None \<Rightarrow>
          (case hm_get (sf_topic fut) (subs sh) of
             None \<Rightarrow> Inr (Ready (Inl ()), fut\<lparr>sf_result := Some (Inl ())\<rparr>, sh)
           | Some (Existing qos) \<Rightarrow> Inr (Ready (Inr qos), fut\<lparr>sf_result := Some (Inr qos)\<rparr>, sh)
           | Some (Pending wakers) \<Rightarrow>
               (case sf_waker_index fut of
                  Some i \<Rightarrow>
                    if i < length wakers
                    then Inr (PollPending, fut,
                           sh\<lparr>subs := hm_insert (sf_topic fut) (Pending (wakers[i := Some w])) (subs sh)\<rparr>)
                    else Inl (Panic ''index out of bounds'')
                | None \<Rightarrow>
                    Inr (PollPending, fut\<lparr>sf_waker_index := Some (length wakers)\<rparr>,
                      sh\<lparr>subs := hm_insert (sf_topic fut) (Pending (wakers @ [Some w])) (subs sh)\<rparr>))))"

definition subscribe_future_drop ::
    "subscribe_future \<Rightarrow> client_shared \<Rightarrow> ('e, client_shared) result" where
  "subscribe_future_drop fut sh =
     (case (sf_result fut, sf_waker_index fut) of
        (None, Some i) \<Rightarrow>
          (case hm_get (sf_topic fut) (subs sh) of
             Some (Pending wakers) \<Rightarrow>
               if i < length wakers
               then Inr (sh\<lparr>subs := hm_insert (sf_topic fut) (Pending (wakers[i := None])) (subs sh)\<rparr>)
               else Inl (Panic ''index out of bounds'')
           | _ \<Rightarrow> Inr sh)
      | _ \<Rightarrow> Inr sh)"

end
