(* ===== verification/Transceiver.thy ===== *)
theory Transceiver
  imports Packet_Reader Subscription Futures
begin

unbundle bit_operations_syntax

text \<open>
  \<open>transceiver/mod.rs\<close>: the task that owns the connection. Its state is the record
  \<open>transceiver\<close>, which also holds what the task does to its surroundings: the wakers it
  woke, what it sent on the connect signal, the world behind the subscription sinks, and the
  number of clock readings. The transport, the sinks, the clock and the two build flags are
  the record \<open>env\<close>, an argument of every method. An \<open>await\<close> takes the events that complete
  it from a list: \<open>select!\<close> is a guard per event and a handler per event.
\<close>

section \<open>State\<close>

record tx_packet =
  tx_bytes :: "u8 list"
  tx_pos :: nat
  tx_set_dup :: bool

record timeout =
  to_t :: nat
  to_packet_id :: id_type

record internal_packet =
  ipk_bytes :: "u8 list"
  ipk_set_dup :: bool

record pending_sub =
  ps_topic :: rstr
  ps_kind :: subscription_kind
  ps_packet :: "u8 list"

text \<open>
  An \<open>Instant\<close> and a \<open>Duration\<close> are numbers of nanoseconds. \<open>connect_sig\<close> says whether the
  oneshot sender is still there. The command queue and the alarm appear as the events they
  produce.
\<close>

record ('t, 'w) transceiver =
  transport :: 't
  pending_packets :: "id_type \<Rightarrow> u8 list option"
  pending_subs :: "u16 \<Rightarrow> pending_sub option"
  tx_pkt :: "tx_packet option"
  rx_pkt :: packet_reader
  connect_sig :: bool
  ping_interval :: nat
  last_tx :: nat
  timeout_queue :: "timeout list"
  internal_pkt_queue :: "internal_packet list"
  shared :: client_shared
  subscriptions :: node
  disconnect_sent :: bool
  cmd_queue_closed :: bool
  ping_req :: "u8 list"
  packet_resend_delay :: nat
  world :: 'w
  clock_reads :: nat
  woken :: "waker list"
  connect_result :: "conn_result option"

record ('t, 'w) env =
  en_transport :: "'t transport_ops"
  en_sinks :: "'w sinks"
  en_clock :: "nat \<Rightarrow> nat"
  en_cfg_test :: bool
  en_debug_assertions :: bool

record shutdown_status =
  ss_disconnect_sent :: bool
  ss_clean :: bool

datatype task_state = WantContinue | WantStop | TaskConnectionClosed

type_synonym ('t, 'w, 'a) meth = "(('t, 'w) transceiver, io_error, 'a) act"

section \<open>Effects\<close>

abbreviation on_transport :: "('t, io_error, 'a) act \<Rightarrow> ('t, 'w, 'a) meth" where
  "on_transport \<equiv> act_zoom transport (\<lambda>c t. t\<lparr>transport := c\<rparr>)"

definition instant_now :: "('t, 'w) env \<Rightarrow> ('t, 'w, nat) meth" where
  "instant_now E t = (Inr (en_clock E (clock_reads t)), t\<lparr>clock_reads := clock_reads t + 1\<rparr>)"

definition lift_res :: "(io_error, 'a) result \<Rightarrow> ('t, 'w, 'a) meth" where
  "lift_res r t = (r, t)"

definition panic_in_test :: "('t, 'w) env \<Rightarrow> string \<Rightarrow> ('t, 'w, unit) meth" where
  "panic_in_test E msg t = (if en_cfg_test E then (Inl (Panic msg), t) else (Inr (), t))"

definition wake :: "waker list \<Rightarrow> ('t, 'w, unit) meth" where
  "wake ws t = (Inr (), t\<lparr>woken := woken t @ ws\<rparr>)"

definition fetch_id :: "('t, 'w, u16) meth" where
  "fetch_id t = (case fetch_packet_id (shared t) of (i, sh) \<Rightarrow> (Inr i, t\<lparr>shared := sh\<rparr>))"

definition timeout_now :: "('t, 'w) env \<Rightarrow> id_type \<Rightarrow> ('t, 'w, timeout) meth" where
  "timeout_now E i = act_bind (instant_now E) (\<lambda>n. act_return \<lparr>to_t = n, to_packet_id = i\<rparr>)"

definition timeout_refresh :: "('t, 'w) env \<Rightarrow> timeout \<Rightarrow> ('t, 'w, timeout) meth" where
  "timeout_refresh E to = act_bind (instant_now E) (\<lambda>n. act_return (to\<lparr>to_t := n\<rparr>))"

definition push_timeout :: "timeout \<Rightarrow> ('t, 'w, unit) meth" where
  "push_timeout to = act_modify (\<lambda>t. t\<lparr>timeout_queue := timeout_queue t @ [to]\<rparr>)"

section \<open>Sending\<close>

definition connected :: "('t, 'w) transceiver \<Rightarrow> bool" where
  "connected t = (\<not> connect_sig t)"

definition write_dup_byte :: "('t, 'w) env \<Rightarrow> u8 list \<Rightarrow> bool \<Rightarrow> ('t, 'w, nat) meth" where
  "write_dup_byte E bytes zero_if_would_block =
     (case bytes of
        [] \<Rightarrow> act_fail (Panic ''index out of bounds'')
      | b # _ \<Rightarrow> on_transport (t_write (en_transport E) [b OR PF_DUP] zero_if_would_block))"

definition write_from :: "('t, 'w) env \<Rightarrow> u8 list \<Rightarrow> nat \<Rightarrow> bool \<Rightarrow> ('t, 'w, nat) meth" where
  "write_from E bytes pos zero_if_would_block =
     (if length bytes < pos then act_fail (Panic ''range start index out of range'')
      else on_transport (t_write (en_transport E) (drop pos bytes) zero_if_would_block))"

definition try_send_packet :: "('t, 'w) env \<Rightarrow> u8 list \<Rightarrow> bool \<Rightarrow> ('t, 'w, unit) meth" where
  "try_send_packet E bytes set_dup t =
     (if en_debug_assertions E \<and> tx_pkt t \<noteq> None
      then (Inl (Panic ''a packet is already in the process of being transmitted''), t)
      else
        act_bind
          (if set_dup
           then act_bind (write_dup_byte E bytes True) (\<lambda>written.
             if 0 < written
             then act_bind (write_from E bytes written True) (\<lambda>more. act_return (written + more))
             else act_return written)
           else write_from E bytes 0 True)
          (\<lambda>written.
             if length bytes \<le> written
             then on_transport (t_flush (en_transport E))
             else act_modify (\<lambda>t. t\<lparr>tx_pkt :=
               Some \<lparr>tx_bytes = bytes, tx_pos = written, tx_set_dup = set_dup\<rparr>\<rparr>)) t)"

definition queue_internal_packet :: "('t, 'w) env \<Rightarrow> u8 list \<Rightarrow> bool \<Rightarrow> ('t, 'w, unit) meth" where
  "queue_internal_packet E bytes set_dup t =
     (if tx_pkt t = None then try_send_packet E bytes set_dup t
      else (Inr (), t\<lparr>internal_pkt_queue :=
        internal_pkt_queue t @ [\<lparr>ipk_bytes = bytes, ipk_set_dup = set_dup\<rparr>]\<rparr>))"

definition queue_internal_packet_with_timeout ::
    "('t, 'w) env \<Rightarrow> u8 list \<Rightarrow> id_type \<Rightarrow> ('t, 'w, unit) meth" where
  "queue_internal_packet_with_timeout E pkt i =
     act_bind (act_get (\<lambda>t. pending_packets t i)) (\<lambda>old.
     act_bind (act_modify (\<lambda>t. t\<lparr>pending_packets := (pending_packets t)(i \<mapsto> pkt)\<rparr>)) (\<lambda>_.
     act_bind
       (if old = None then act_bind (timeout_now E i) push_timeout
        else panic_in_test E ''queue_internal_packet_with_timeout: not a new packet'') (\<lambda>_.
     queue_internal_packet E pkt False)))"

definition clear_packet_timeout :: "id_type \<Rightarrow> ('t, 'w, bool) meth" where
  "clear_packet_timeout i t =
     (Inr (pending_packets t i \<noteq> None),
      t\<lparr>pending_packets := (pending_packets t)(i := None)\<rparr>)"

text \<open>The \<open>while let\<close> of \<open>clear_tx_packet\<close>, over the packets that are still queued.\<close>

fun send_queued :: "('t, 'w) env \<Rightarrow> internal_packet list \<Rightarrow> ('t, 'w, unit) meth" where
  "send_queued E [] t = (Inr (), t\<lparr>internal_pkt_queue := []\<rparr>)"
| "send_queued E (p # ps) t =
     act_bind (try_send_packet E (ipk_bytes p) (ipk_set_dup p))
       (\<lambda>_ t. if tx_pkt t \<noteq> None then (Inr (), t) else send_queued E ps t)
       (t\<lparr>internal_pkt_queue := ps\<rparr>)"

definition clear_tx_packet :: "('t, 'w) env \<Rightarrow> ('t, 'w, unit) meth" where
  "clear_tx_packet E t = send_queued E (internal_pkt_queue t) (t\<lparr>tx_pkt := None\<rparr>)"

text \<open>One round of the loop of \<open>continue_writing_packet\<close>: \<open>Some\<close> is a return.\<close>

definition write_round :: "('t, 'w) env \<Rightarrow> tx_packet \<Rightarrow> ('t, 'w, bool option) meth" where
  "write_round E tx =
     act_bind
       (if tx_set_dup tx \<and> tx_pos tx \<le> 0 then write_dup_byte E (tx_bytes tx) False
        else write_from E (tx_bytes tx) (tx_pos tx) False)
       (\<lambda>written.
          if written \<le> 0 then act_return (Some True)
          else
            let tx = tx\<lparr>tx_pos := tx_pos tx + written\<rparr> in
            act_bind (act_modify (\<lambda>t. t\<lparr>tx_pkt := Some tx\<rparr>)) (\<lambda>_.
            if length (tx_bytes tx) \<le> tx_pos tx
            then
              act_bind (on_transport (t_flush (en_transport E))) (\<lambda>_.
              act_bind (clear_tx_packet E) (\<lambda>_.
              act_bind (instant_now E) (\<lambda>n.
              act_bind (act_modify (\<lambda>t. t\<lparr>last_tx := n\<rparr>)) (\<lambda>_. act_return None))))
            else act_return None))"

definition tx_measure :: "('t, 'w) transceiver \<Rightarrow> nat \<times> nat" where
  "tx_measure t =
     (case tx_pkt t of
        None \<Rightarrow> (0, 0)
      | Some tx \<Rightarrow> (length (internal_pkt_queue t) + 1, length (tx_bytes tx) - tx_pos tx))"

lemma try_send_packet_queue:
  "try_send_packet E bytes dup t = (r, t') \<Longrightarrow> internal_pkt_queue t' = internal_pkt_queue t"
  by (auto simp: try_send_packet_def write_dup_byte_def write_from_def act_bind_def act_simps
      act_zoom_def split: if_splits prod.splits sum.splits list.splits)

lemma send_queued_queue:
  "send_queued E ps t = (Inr u, t') \<Longrightarrow> tx_pkt t = None \<Longrightarrow> tx_pkt t' \<noteq> None \<Longrightarrow>
     length (internal_pkt_queue t') < length ps"
proof (induction ps arbitrary: t)
  case (Cons p ps)
  let ?t = "t\<lparr>internal_pkt_queue := ps\<rparr>"
  from Cons.prems(1) obtain u t1 where s: "try_send_packet E (ipk_bytes p) (ipk_set_dup p) ?t = (Inr u, t1)"
    and rest: "(if tx_pkt t1 \<noteq> None then (Inr (), t1) else send_queued E ps t1) = (Inr (), t')"
    by (auto simp: act_bind_eq_Inr)
  show ?case
  proof (cases "tx_pkt t1 = None")
    case True
    with rest Cons.IH [of t1] Cons.prems(3) show ?thesis by fastforce
  next
    case False
    with rest try_send_packet_queue [OF s] show ?thesis by auto
  qed
qed auto

lemma write_round_decreases:
  assumes "tx_pkt t = Some tx" and "write_round E tx t = (Inr None, t')"
  shows "(tx_measure t', tx_measure t) \<in> less_than <*lex*> less_than"
proof -
  have wq: "internal_pkt_queue t1 = internal_pkt_queue t"
    if "(if tx_set_dup tx \<and> tx_pos tx \<le> 0 then write_dup_byte E (tx_bytes tx) False
        else write_from E (tx_bytes tx) (tx_pos tx) False) t = (Inr k, t1)" for k t1
    using that by (auto simp: write_dup_byte_def write_from_def act_zoom_def act_simps
        split: if_splits prod.splits list.splits)
  from assms(2) obtain k t1 where
    w: "(if tx_set_dup tx \<and> tx_pos tx \<le> 0 then write_dup_byte E (tx_bytes tx) False
        else write_from E (tx_bytes tx) (tx_pos tx) False) t = (Inr k, t1)" and k: "0 < k"
    and rest: "(if length (tx_bytes tx) \<le> tx_pos tx + k
        then act_bind (on_transport (t_flush (en_transport E))) (\<lambda>_.
              act_bind (clear_tx_packet E) (\<lambda>_.
              act_bind (instant_now E) (\<lambda>n.
              act_bind (act_modify (\<lambda>t. t\<lparr>last_tx := n\<rparr>)) (\<lambda>_. act_return None))))
        else act_return None) (t1\<lparr>tx_pkt := Some (tx\<lparr>tx_pos := tx_pos tx + k\<rparr>)\<rparr>) = (Inr (None :: bool option), t')"
    by (auto simp: write_round_def act_bind_eq_Inr act_modify_def act_return_def Let_def split: if_splits)
  show ?thesis
  proof (cases "length (tx_bytes tx) \<le> tx_pos tx + k")
    case True
    with rest obtain u2 t2 t3 where "send_queued E (internal_pkt_queue t1) t2 = (Inr u2, t3)"
      and "tx_pkt t2 = None" "tx_pkt t' = tx_pkt t3" "internal_pkt_queue t' = internal_pkt_queue t3"
      by (fastforce simp: act_bind_eq_Inr act_zoom_eq clear_tx_packet_def instant_now_def act_simps)
    with send_queued_queue [of E "internal_pkt_queue t1" t2 u2 t3] wq [OF w] assms(1)
    show ?thesis by (cases "tx_pkt t3") (auto simp: tx_measure_def)
  next
    case False
    with rest have "t' = t1\<lparr>tx_pkt := Some (tx\<lparr>tx_pos := tx_pos tx + k\<rparr>)\<rparr>"
      by (simp add: act_return_def)
    with False k wq [OF w] assms(1) show ?thesis by (simp add: tx_measure_def)
  qed
qed

function continue_writing_packet :: "('t, 'w) env \<Rightarrow> ('t, 'w, bool) meth" where
  "continue_writing_packet E t =
     (case tx_pkt t of
        None \<Rightarrow> (Inr False, t)
      | Some tx \<Rightarrow>
          (case write_round E tx t of
             (Inl f, t) \<Rightarrow> (Inl f, t)
           | (Inr (Some closed), t) \<Rightarrow> (Inr closed, t)
           | (Inr None, t) \<Rightarrow> continue_writing_packet E t))"
  by pat_completeness auto
termination
  by (relation "inv_image (less_than <*lex*> less_than) (\<lambda>(E, t). tx_measure t)")
    (auto intro: wf_inv_image simp del: in_lex_prod dest!: sym [of "(Inr None, _)"]
      intro!: write_round_decreases)

declare continue_writing_packet.simps [simp del]

section \<open>Incoming packets\<close>

definition unsub_immediate :: "('t, 'w) env \<Rightarrow> rstr \<Rightarrow> ('t, 'w, unit) meth" where
  "unsub_immediate E topic =
     act_bind (act_modify (\<lambda>t. t\<lparr>shared := (shared t)\<lparr>subs := hm_remove topic (subs (shared t))\<rparr>\<rparr>)) (\<lambda>_.
     act_bind (fetch_id) (\<lambda>packet_id.
     act_bind (lift_res (make_arc_packet unsubscribe_impl
         \<lparr>un_packet_id = packet_id, un_topics = [topic]\<rparr>)) (\<lambda>pkt.
     queue_internal_packet_with_timeout E pkt (id_unsubscribe packet_id))))"

definition dispatch_message :: "('t, 'w) env \<Rightarrow> incoming_publish_packet \<Rightarrow> ('t, 'w, unit) meth" where
  "dispatch_message E msg t =
     (case set_dispatch (en_sinks E) msg (subscriptions t) (world t) of
        (r, root, w) \<Rightarrow> (r, t\<lparr>subscriptions := root, world := w\<rparr>))"

text \<open>The subscription is created in the tree before the shared map is updated.\<close>

definition establish_subscription :: "('t, 'w) env \<Rightarrow> pending_sub \<Rightarrow> ('t, 'w, unit) meth" where
  "establish_subscription E ps t =
     (case get_or_create (ps_topic ps)
             (\<lambda>sub. sub_add (en_cfg_test E) (ps_kind ps) (set_subscribed sub))
             (subscriptions t) of
        (Inl _, root) \<Rightarrow>
          panic_in_test E ''Invalid topic, this should have failed earlier'' (t\<lparr>subscriptions := root\<rparr>)
      | (Inr r, root) \<Rightarrow> (r, t\<lparr>subscriptions := root\<rparr>))"

definition sub_accepted :: "('t, 'w) env \<Rightarrow> rstr \<Rightarrow> qos \<Rightarrow> ('t, 'w, waker option list) meth" where
  "sub_accepted E topic qos t =
     (let accept = (\<lambda>t. t\<lparr>shared := (shared t)\<lparr>subs := hm_insert topic (Existing qos) (subs (shared t))\<rparr>\<rparr>) in
      case hm_get topic (subs (shared t)) of
        Some (Existing _) \<Rightarrow>
          act_bind (panic_in_test E ''Got SubAck for a topic which already exists'') (\<lambda>_.
          act_bind (act_modify accept) (\<lambda>_. act_return [])) t
      | Some (Pending wakers) \<Rightarrow> (Inr wakers, accept t)
      | None \<Rightarrow>
          act_bind (panic_in_test E ''Got SubAck for a topic which is absent from the sub map'') (\<lambda>_.
          act_bind (act_modify accept) (\<lambda>_. act_return [])) t)"

definition sub_refused :: "('t, 'w) env \<Rightarrow> rstr \<Rightarrow> ('t, 'w, waker option list) meth" where
  "sub_refused E topic t =
     (let t' = t\<lparr>shared := (shared t)\<lparr>subs := hm_remove topic (subs (shared t))\<rparr>\<rparr> in
      case hm_get topic (subs (shared t)) of
        Some (Existing _) \<Rightarrow>
          act_bind (panic_in_test E ''Got failed SubAck for a topic which already exists'')
            (\<lambda>_. act_return []) t'
      | Some (Pending wakers) \<Rightarrow> (Inr wakers, t')
      | None \<Rightarrow>
          act_bind (panic_in_test E ''Got failed SubAck for a topic which is absent from the sub map'')
            (\<lambda>_. act_return []) t')"

definition present_wakers :: "waker option list \<Rightarrow> waker list" where
  "present_wakers ws = List.map_filter (\<lambda>w. w) ws"

definition process_sub_ack :: "('t, 'w) env \<Rightarrow> sub_ack_packet \<Rightarrow> ('t, 'w, unit) meth" where
  "process_sub_ack E ack t =
     (case pending_subs t (sa_packet_id ack) of
        None \<Rightarrow> (Inr (), t)
      | Some ps \<Rightarrow>
          act_bind (lift_res (sub_results ack)) (\<lambda>results.
            case results of
              [] \<Rightarrow> act_return ()
            | result # _ \<Rightarrow>
                act_bind
                  (case result of
                     Inr qos \<Rightarrow>
                       act_bind (establish_subscription E ps) (\<lambda>_. sub_accepted E (ps_topic ps) qos)
                   | Inl _ \<Rightarrow> sub_refused E (ps_topic ps))
                  (\<lambda>wakers. wake (present_wakers wakers)))
            (t\<lparr>pending_subs := (pending_subs t)(sa_packet_id ack := None)\<rparr>))"

definition process_publish :: "('t, 'w) env \<Rightarrow> incoming_publish_packet \<Rightarrow> ('t, 'w, unit) meth" where
  "process_publish E msg =
     (let info = publish_info msg in
      act_bind (lift_res (flags_qos (pi_flags info))) (\<lambda>qos.
      case qos of
        AtMostOnce \<Rightarrow> dispatch_message E msg
      | AtLeastOnce \<Rightarrow>
          act_bind (lift_res (make_arc_packet pub_ack_impl (simple_new (pi_packet_id info)))) (\<lambda>pkt.
          act_bind (queue_internal_packet E pkt False) (\<lambda>_.
          dispatch_message E msg))
      | ExactlyOnce \<Rightarrow>
          let pub_rec_id = id_pub_rec (pi_packet_id info) in
          act_bind (act_get (\<lambda>t. pending_packets t pub_rec_id)) (\<lambda>pending.
          case pending of
            Some existing \<Rightarrow> queue_internal_packet E existing False
          | None \<Rightarrow>
              act_bind (lift_res (make_arc_packet pub_rec_impl (simple_new (pi_packet_id info)))) (\<lambda>pkt.
              act_bind (queue_internal_packet_with_timeout E pkt pub_rec_id) (\<lambda>_.
              dispatch_message E msg)))))"

text \<open>
  \<open>if let Some(WithWaker(waker)) = map.lock().remove(&id) { waker.wake() }\<close>: the entry goes
  whatever it was.
\<close>

definition remove_notifier :: "stage \<Rightarrow> u16 \<Rightarrow> client_shared \<Rightarrow> waker list \<times> client_shared" where
  "remove_notifier st i sh =
     (let m = access_notifier_map st sh in
      ((case hm_get i m of Some (WithWaker w) \<Rightarrow> [w] | _ \<Rightarrow> []),
       set_notifier_map st (hm_remove i m) sh))"

definition notify_stage :: "stage \<Rightarrow> u16 \<Rightarrow> ('t, 'w, unit) meth" where
  "notify_stage st i t =
     (case remove_notifier st i (shared t) of (ws, sh) \<Rightarrow> wake ws (t\<lparr>shared := sh\<rparr>))"

definition process_pub_ack :: "('t, 'w) env \<Rightarrow> simple_packet \<Rightarrow> ('t, 'w, unit) meth" where
  "process_pub_ack E ack =
     act_bind (clear_packet_timeout (id_publish (sp_packet_id ack))) (\<lambda>cleared.
     if cleared then notify_stage StAck (sp_packet_id ack) else act_return ())"

definition process_pub_rec :: "('t, 'w) env \<Rightarrow> simple_packet \<Rightarrow> ('t, 'w, unit) meth" where
  "process_pub_rec E rec =
     (let pub_rel_id = id_pub_rel (sp_packet_id rec) in
      act_bind (act_get (\<lambda>t. pending_packets t pub_rel_id)) (\<lambda>pending.
      act_bind
        (case pending of
           Some existing \<Rightarrow> queue_internal_packet E existing False
         | None \<Rightarrow>
             act_bind (lift_res (make_arc_packet pub_rel_impl (simple_new (sp_packet_id rec)))) (\<lambda>pkt.
             queue_internal_packet_with_timeout E pkt pub_rel_id)) (\<lambda>_.
      act_bind (clear_packet_timeout (id_publish (sp_packet_id rec))) (\<lambda>cleared.
      if cleared then notify_stage StRec (sp_packet_id rec) else act_return ()))))"

definition process_pub_rel :: "('t, 'w) env \<Rightarrow> simple_packet \<Rightarrow> ('t, 'w, unit) meth" where
  "process_pub_rel E rel =
     act_bind (clear_packet_timeout (id_pub_rec (sp_packet_id rel))) (\<lambda>_.
     act_bind (lift_res (make_arc_packet pub_comp_impl (simple_new (sp_packet_id rel)))) (\<lambda>pkt.
     queue_internal_packet E pkt False))"

definition process_pub_comp :: "('t, 'w) env \<Rightarrow> simple_packet \<Rightarrow> ('t, 'w, unit) meth" where
  "process_pub_comp E cmp =
     act_bind (clear_packet_timeout (id_pub_rel (sp_packet_id cmp))) (\<lambda>cleared.
     if cleared then notify_stage StComp (sp_packet_id cmp) else act_return ())"

fun process_connected :: "('t, 'w) env \<Rightarrow> incoming_packet \<Rightarrow> ('t, 'w, unit) meth" where
  "process_connected E (IP_ConnAck _) = act_return ()"
| "process_connected E (IP_SubAck ack) = process_sub_ack E ack"
| "process_connected E (IP_Publish msg) = process_publish E msg"
| "process_connected E (IP_PubAck ack) = process_pub_ack E ack"
| "process_connected E (IP_PubRec rec) = process_pub_rec E rec"
| "process_connected E (IP_PubRel rel) = process_pub_rel E rel"
| "process_connected E (IP_PubComp cmp) = process_pub_comp E cmp"
| "process_connected E (IP_UnsubAck ack) =
     act_bind (clear_packet_timeout (id_unsubscribe (sp_packet_id ack))) (\<lambda>_. act_return ())"
| "process_connected E IP_PingResp = act_return ()"

definition process_packet :: "('t, 'w) env \<Rightarrow> incoming_packet \<Rightarrow> ('t, 'w, bool) meth" where
  "process_packet E pkt t =
     (if connect_sig t
      then
        let conn_result = (case pkt of IP_ConnAck x \<Rightarrow> conn_ack_result x | _ \<Rightarrow> Inl ProtocolError) in
        (Inr (case conn_result of Inl _ \<Rightarrow> True | Inr _ \<Rightarrow> False),
         t\<lparr>connect_sig := False, connect_result := Some conn_result\<rparr>)
      else act_bind (process_connected E pkt) (\<lambda>_. act_return False) t)"

section \<open>The main loop\<close>

datatype event =
    WriteReady "io_error option"
  | ReadReady "io_error option"
  | CommandRecv "command option"
  | AlarmTick

definition event_enabled :: "('t, 'w) env \<Rightarrow> event \<Rightarrow> ('t, 'w) transceiver \<Rightarrow> bool" where
  "event_enabled E ev t =
     (let wants = t_wants (en_transport E) (transport t) True (tx_pkt t \<noteq> None) in
      case ev of
        WriteReady _ \<Rightarrow> wants_write wants
      | ReadReady _ \<Rightarrow> wants_read wants
      | CommandRecv _ \<Rightarrow> \<not> cmd_queue_closed t \<and> connected t \<and> tx_pkt t = None
      | AlarmTick \<Rightarrow> True)"

definition check_ready :: "io_error option \<Rightarrow> ('t, 'w, unit) meth" where
  "check_ready r = (case r of None \<Rightarrow> act_return () | Some e \<Rightarrow> act_fail (Err e))"

text \<open>\<open>Ok(true)\<close> is a closed connection; a write that would block is not an error.\<close>

definition write_ready :: "('t, 'w) env \<Rightarrow> io_error option \<Rightarrow> ('t, 'w, bool) meth" where
  "write_ready E r =
     act_bind (check_ready r) (\<lambda>_.
     act_bind (on_transport (t_pre_write (en_transport E))) (\<lambda>_ t.
     case continue_writing_packet E t of
       (Inl (Err err), t) \<Rightarrow> if io_kind err \<noteq> WouldBlock then (Inl (Err err), t) else (Inr False, t)
     | (res, t) \<Rightarrow> (res, t)))"

abbreviation on_reader :: "(packet_reader \<times> 't, io_error, 'a) act \<Rightarrow> ('t, 'w, 'a) meth" where
  "on_reader \<equiv> act_zoom (\<lambda>t. (rx_pkt t, transport t)) (\<lambda>(pr, c) t. t\<lparr>rx_pkt := pr, transport := c\<rparr>)"

text \<open>
  The read loop. Nothing bounds the number of rounds, so a loop that does not end is \<open>None\<close>.
\<close>

partial_function (option) read_loop ::
    "('t, 'w) env \<Rightarrow> ('t, 'w) transceiver \<Rightarrow>
     ((io_error, task_state) result \<times> ('t, 'w) transceiver) option" where
  "read_loop E t =
     (case on_reader (recv (en_cfg_test E) (en_transport E)) t of
        (Inr (Incoming pkt), t) \<Rightarrow>
          (case process_packet E pkt t of
             (Inl f, t) \<Rightarrow> Some (Inl f, t)
           | (Inr stop, t) \<Rightarrow> if stop then Some (Inr WantStop, t) else read_loop E t)
      | (Inr ConnectionClosed, t) \<Rightarrow> Some (Inr TaskConnectionClosed, t)
      | (Inr NeedMoreData, t) \<Rightarrow> read_loop E t
      | (Inl (Err err), t) \<Rightarrow>
          Some (if io_kind err = WouldBlock then Inr WantContinue else Inl (Err err), t)
      | (Inl f, t) \<Rightarrow> Some (Inl f, t))"

declare read_loop.simps [code]

definition read_ready ::
    "('t, 'w) env \<Rightarrow> io_error option \<Rightarrow> ('t, 'w) transceiver \<Rightarrow>
     ((io_error, task_state) result \<times> ('t, 'w) transceiver) option" where
  "read_ready E r t =
     (case act_bind (check_ready r) (\<lambda>_. on_transport (t_pre_read (en_transport E))) t of
        (Inl f, t) \<Rightarrow> Some (Inl f, t)
      | (Inr True, t) \<Rightarrow> read_loop E t
      | (Inr False, t) \<Rightarrow> Some (Inr WantContinue, t))"

definition command_publish :: "('t, 'w) env \<Rightarrow> publish_command \<Rightarrow> ('t, 'w, unit) meth" where
  "command_publish E cmd =
     (case pc_qos cmd of
        AtMostOnce \<Rightarrow> try_send_packet E (pc_packet cmd) False
      | _ \<Rightarrow> queue_internal_packet_with_timeout E (pc_packet cmd) (id_publish (pc_packet_id cmd)))"

definition command_subscribe :: "('t, 'w) env \<Rightarrow> subscribe_command \<Rightarrow> ('t, 'w, unit) meth" where
  "command_subscribe E cmd t =
     (case get (sc_topic cmd)
             (\<lambda>sub. if is_subscribed sub
                     then (case sub_add (en_cfg_test E) (sc_kind cmd) sub of (r, sub) \<Rightarrow> (Some r, sub))
                     else (None, sub))
             (subscriptions t) of
        (Inr (Some (Some r)), root) \<Rightarrow> (r, t\<lparr>subscriptions := root\<rparr>)
      | (Inr _, root) \<Rightarrow>
          act_bind fetch_id (\<lambda>packet_id.
          act_bind (lift_res (make_arc_packet subscribe_impl
              \<lparr>sub_packet_id = packet_id, sub_topics = [(sc_topic cmd, sc_qos cmd)]\<rparr>)) (\<lambda>pkt.
          act_bind (act_modify (\<lambda>t. t\<lparr>pending_subs := (pending_subs t)(packet_id \<mapsto>
              \<lparr>ps_topic = sc_topic cmd, ps_kind = sc_kind cmd, ps_packet = pkt\<rparr>)\<rparr>)) (\<lambda>_.
          act_bind (try_send_packet E pkt False) (\<lambda>_.
          act_bind (timeout_now E (id_subscribe packet_id)) push_timeout))))
            (t\<lparr>subscriptions := root\<rparr>)
      | (Inl _, root) \<Rightarrow> (Inr (), t\<lparr>subscriptions := root\<rparr>))"

definition command_unsub :: "('t, 'w) env \<Rightarrow> unsub_command \<Rightarrow> ('t, 'w, unit) meth" where
  "command_unsub E cmd t =
     (case uc_kind cmd of
        UnsubFastCallback i \<Rightarrow>
          (case get (uc_topic cmd) (\<lambda>sub. ((), remove_fast_callback i sub)) (subscriptions t) of
             (_, root) \<Rightarrow> (Inr (), t\<lparr>subscriptions := root\<rparr>))
      | Immediate \<Rightarrow>
          (case set_clear (uc_topic cmd) (subscriptions t) of
             (Inr True, root) \<Rightarrow> unsub_immediate E (uc_topic cmd) (t\<lparr>subscriptions := root\<rparr>)
           | (_, root) \<Rightarrow> (Inr (), t\<lparr>subscriptions := root\<rparr>)))"

fun command_ready :: "('t, 'w) env \<Rightarrow> command option \<Rightarrow> ('t, 'w, task_state) meth" where
  "command_ready E (Some (CmdPublish cmd)) =
     act_bind (command_publish E cmd) (\<lambda>_. act_return WantContinue)"
| "command_ready E (Some (CmdSubscribe cmd)) =
     act_bind (command_subscribe E cmd) (\<lambda>_. act_return WantContinue)"
| "command_ready E (Some (CmdUnsub cmd)) =
     act_bind (command_unsub E cmd) (\<lambda>_. act_return WantContinue)"
| "command_ready E (Some CmdDisconnect) = act_return WantStop"
| "command_ready E None =
     act_bind (act_modify (\<lambda>t. t\<lparr>cmd_queue_closed := True\<rparr>)) (\<lambda>_. act_return WantContinue)"

definition resend_packet :: "('t, 'w) env \<Rightarrow> timeout \<Rightarrow> ('t, 'w, unit) meth" where
  "resend_packet E to t =
     (case (if it_ty (to_packet_id to) = PT_Subscribe
            then map_option ps_packet (pending_subs t (it_id (to_packet_id to)))
            else pending_packets t (to_packet_id to)) of
        None \<Rightarrow> (Inr (), t)
      | Some pkt \<Rightarrow>
          act_bind (queue_internal_packet E pkt (it_ty (to_packet_id to) = PT_Publish)) (\<lambda>_.
          act_bind (timeout_refresh E to) push_timeout) t)"

fun alarm_loop :: "('t, 'w) env \<Rightarrow> nat \<Rightarrow> ('t, 'w, unit) meth" where
  "alarm_loop E 0 t = (Inr (), t)"
| "alarm_loop E (Suc n) t =
     (case timeout_queue t of
        [] \<Rightarrow> (Inl (Panic ''called Option::unwrap() on a None value''), t)
      | to # rest \<Rightarrow>
          act_bind (instant_now E) (\<lambda>now t.
            if now - to_t to < packet_resend_delay t then (Inr (), t)
            else act_bind (resend_packet E to) (\<lambda>_. alarm_loop E n) (t\<lparr>timeout_queue := rest\<rparr>)) t)"

definition alarm_tick :: "('t, 'w) env \<Rightarrow> ('t, 'w, unit) meth" where
  "alarm_tick E t =
     (if connected t
      then
        act_bind (instant_now E) (\<lambda>now t.
          act_bind
            (if ping_interval t \<le> now - last_tx t
             then
               act_bind (instant_now E) (\<lambda>now.
               act_bind (act_modify (\<lambda>t. t\<lparr>last_tx := now\<rparr>)) (\<lambda>_.
               queue_internal_packet E (ping_req t) False))
             else act_return ())
            (\<lambda>_ t. alarm_loop E (length (timeout_queue t)) t) t) t
      else (Inr (), t))"

definition task_step ::
    "('t, 'w) env \<Rightarrow> event \<Rightarrow> ('t, 'w) transceiver \<Rightarrow>
     ((io_error, task_state) result \<times> ('t, 'w) transceiver) option" where
  "task_step E ev t =
     (case ev of
        WriteReady r \<Rightarrow>
          Some (act_bind (write_ready E r)
            (\<lambda>closed. act_return (if closed then TaskConnectionClosed else WantContinue)) t)
      | ReadReady r \<Rightarrow> read_ready E r t
      | CommandRecv cmd \<Rightarrow> Some (command_ready E cmd t)
      | AlarmTick \<Rightarrow> Some (act_bind (alarm_tick E) (\<lambda>_. act_return WantContinue) t))"

text \<open>
  An asynchronous method run on the events that arrive: it has returned, it still waits for an
  event when the list is used up, or it spins without waiting. An event whose guard is false is
  not polled by \<open>select!\<close>.
\<close>

datatype 'a progress = Finished 'a | Waiting | Spinning

type_synonym ('t, 'w, 'a) async =
  "event list \<Rightarrow> ('t, 'w) transceiver \<Rightarrow> 'a progress \<times> ('t, 'w) transceiver \<times> event list"

fun step_loop :: "('t, 'w) env \<Rightarrow> ('t, 'w, (io_error, bool) result) async" where
  "step_loop E [] t = (Waiting, t, [])"
| "step_loop E (ev # evs) t =
     (if event_enabled E ev t
      then case task_step E ev t of
             None \<Rightarrow> (Spinning, t, evs)
           | Some (Inl f, t) \<Rightarrow> (Finished (Inl f), t, evs)
           | Some (Inr TaskConnectionClosed, t) \<Rightarrow> (Finished (Inr True), t, evs)
           | Some (Inr WantStop, t) \<Rightarrow> (Finished (Inr False), t, evs)
           | Some (Inr WantContinue, t) \<Rightarrow> step_loop E evs t
      else step_loop E evs t)"

definition run_task_loop :: "('t, 'w) env \<Rightarrow> ('t, 'w, (io_error, bool) result) async" where
  "run_task_loop E evs t =
     (case tx_pkt t of
        None \<Rightarrow> step_loop E evs t
      | Some pkt \<Rightarrow>
          (case try_send_packet E (tx_bytes pkt) False (t\<lparr>tx_pkt := None\<rparr>) of
             (Inl f, t) \<Rightarrow> (Finished (Inl f), t, evs)
           | (Inr _, t) \<Rightarrow> step_loop E evs t))"

section \<open>Shutting down\<close>

definition read_event :: "('t, 'w) env \<Rightarrow> io_error option \<Rightarrow> ('t, 'w, unit) meth" where
  "read_event E r =
     act_bind (check_ready r) (\<lambda>_.
     act_bind (on_transport (t_pre_read (en_transport E))) (\<lambda>_. act_return ()))"

fun flush_loop :: "('t, 'w) env \<Rightarrow> ('t, 'w, (io_error, unit) result) async" where
  "flush_loop E evs t =
     (let wants = t_wants (en_transport E) (transport t) False (tx_pkt t \<noteq> None) in
      if \<not> wants_read wants \<and> \<not> wants_write wants
      then (Finished (Inr ()), t\<lparr>disconnect_sent := True\<rparr>, evs)
      else
        case evs of
          [] \<Rightarrow> (Waiting, t, [])
        | ev # evs \<Rightarrow>
            (case ev of
               WriteReady r \<Rightarrow>
                 if wants_write wants
                 then case write_ready E r t of
                        (Inl f, t) \<Rightarrow> (Finished (Inl f), t, evs)
                      | (Inr True, t) \<Rightarrow> (Finished (Inr ()), t, evs)
                      | (Inr False, t) \<Rightarrow> flush_loop E evs t
                 else flush_loop E evs t
             | ReadReady r \<Rightarrow>
                 if wants_read wants
                 then case read_event E r t of
                        (Inl f, t) \<Rightarrow> (Finished (Inl f), t, evs)
                      | (Inr _, t) \<Rightarrow> flush_loop E evs t
                 else flush_loop E evs t
             | _ \<Rightarrow> flush_loop E evs t))"

declare flush_loop.simps [simp del]

definition send_disconnect_and_flush :: "('t, 'w) env \<Rightarrow> ('t, 'w, (io_error, unit) result) async" where
  "send_disconnect_and_flush E evs t =
     (if \<not> connected t then (Finished (Inr ()), t, evs)
      else
        case act_bind (lift_res (make_arc_packet disconnect_impl ()))
               (\<lambda>pkt. queue_internal_packet E pkt False) t of
          (Inl f, t) \<Rightarrow> (Finished (Inl f), t, evs)
        | (Inr _, t) \<Rightarrow> flush_loop E evs t)"

fun close_loop :: "('t, 'w) env \<Rightarrow> ('t, 'w, (io_error, unit) result) async" where
  "close_loop E evs t =
     (let wants = t_wants (en_transport E) (transport t) False False in
      if \<not> wants_read wants \<and> \<not> wants_write wants then (Finished (Inr ()), t, evs)
      else
        case evs of
          [] \<Rightarrow> (Waiting, t, [])
        | ev # evs \<Rightarrow>
            (case ev of
               WriteReady r \<Rightarrow>
                 if wants_write wants
                 then case act_bind (check_ready r)
                        (\<lambda>_. on_transport (t_pre_write (en_transport E))) t of
                        (Inl f, t) \<Rightarrow> (Finished (Inl f), t, evs)
                      | (Inr _, t) \<Rightarrow> close_loop E evs t
                 else close_loop E evs t
             | ReadReady r \<Rightarrow>
                 if wants_read wants
                 then case read_event E r t of
                        (Inl f, t) \<Rightarrow> (Finished (Inl f), t, evs)
                      | (Inr _, t) \<Rightarrow> close_loop E evs t
                 else close_loop E evs t
             | _ \<Rightarrow> close_loop E evs t))"

declare close_loop.simps [simp del]

definition send_close_notify :: "('t, 'w) env \<Rightarrow> ('t, 'w, (io_error, unit) result) async" where
  "send_close_notify E evs t =
     close_loop E evs (t\<lparr>transport := t_send_close_notify (en_transport E) (transport t)\<rparr>)"

text \<open>An error makes the shutdown unclean and nothing else; a panic goes through.\<close>

definition and_clean ::
    "(io_error, unit) result progress \<times> ('t, 'w) transceiver \<times> event list \<Rightarrow>
     (bool \<Rightarrow> ('t, 'w, (io_error, bool) result) async) \<Rightarrow>
     (io_error, bool) result progress \<times> ('t, 'w) transceiver \<times> event list" where
  "and_clean x k =
     (case x of
        (Finished (Inr _), t, evs) \<Rightarrow> k True evs t
      | (Finished (Inl (Err _)), t, evs) \<Rightarrow> k False evs t
      | (Finished (Inl (Panic m)), t, evs) \<Rightarrow> (Finished (Inl (Panic m)), t, evs)
      | (Finished (Inl (UB m)), t, evs) \<Rightarrow> (Finished (Inl (UB m)), t, evs)
      | (Waiting, t, evs) \<Rightarrow> (Waiting, t, evs)
      | (Spinning, t, evs) \<Rightarrow> (Spinning, t, evs))"

definition disconnect_sequence :: "('t, 'w) env \<Rightarrow> ('t, 'w, (io_error, bool) result) async" where
  "disconnect_sequence E evs t =
     and_clean (send_disconnect_and_flush E evs t) (\<lambda>clean1 evs t.
     and_clean (send_close_notify E evs t) (\<lambda>clean2 evs t.
     (Finished (Inr (clean1 \<and> clean2)), t, evs)))"

definition fail_notify_map :: "notifier_map \<Rightarrow> notifier_map \<times> waker list" where
  "fail_notify_map m =
     (map (\<lambda>(k, _). (k, Failed)) m,
      List.map_filter (\<lambda>(_, v). case v of WithWaker w \<Rightarrow> Some w | _ \<Rightarrow> None) m)"

definition fail_stage :: "stage \<Rightarrow> client_shared \<times> waker list \<Rightarrow> client_shared \<times> waker list" where
  "fail_stage st = (\<lambda>(sh, ws).
     case fail_notify_map (access_notifier_map st sh) of
       (m, ws') \<Rightarrow> (set_notifier_map st m sh, ws @ ws'))"

definition drain_subs :: "client_shared \<times> waker list \<Rightarrow> client_shared \<times> waker list" where
  "drain_subs = (\<lambda>(sh, ws).
     (sh\<lparr>subs := []\<rparr>,
      ws @ concat (map (\<lambda>(_, sub). case sub of Pending sub_wakers \<Rightarrow> present_wakers sub_wakers | _ \<Rightarrow> [])
                    (subs sh))))"

definition release_waiters :: "('t, 'w) transceiver \<Rightarrow> ('t, 'w) transceiver" where
  "release_waiters t =
     (case drain_subs (fail_stage StComp (fail_stage StRec (fail_stage StAck (shared t, [])))) of
        (sh, wakers) \<Rightarrow> t\<lparr>shared := sh, woken := woken t @ wakers\<rparr>)"

text \<open>
  The task, on the events \<open>evs\<close> of the main loop and the events \<open>closing\<close> that arrive within the
  two seconds granted to the shutdown sequence.
\<close>

definition task ::
    "('t, 'w) env \<Rightarrow> event list \<Rightarrow> event list \<Rightarrow> ('t, 'w) transceiver \<Rightarrow>
     (io_error, shutdown_status) result progress \<times> ('t, 'w) transceiver" where
  "task E evs closing t =
     (case run_task_loop E evs t of
        (Waiting, t, _) \<Rightarrow> (Waiting, t)
      | (Spinning, t, _) \<Rightarrow> (Spinning, t)
      | (Finished (Inl (Panic m)), t, _) \<Rightarrow> (Finished (Inl (Panic m)), t)
      | (Finished (Inl (UB m)), t, _) \<Rightarrow> (Finished (Inl (UB m)), t)
      | (Finished (Inr True), t, _) \<Rightarrow>
          (Finished (Inr \<lparr>ss_disconnect_sent = False, ss_clean = False\<rparr>), t)
      | (Finished _, t, _) \<Rightarrow>
          (case disconnect_sequence E closing t of
             (Finished (Inl f), t, _) \<Rightarrow> (Finished (Inl f), t)
           | (ret, t, _) \<Rightarrow>
               let t = release_waiters t in
               (Finished (Inr \<lparr>ss_disconnect_sent = disconnect_sent t,
                               ss_clean = (ret = Finished (Inr True))\<rparr>), t)))"

text \<open>The state with which \<open>spawn\<close> starts the task.\<close>

definition spawn_state ::
    "('t, 'w) env \<Rightarrow> 't \<Rightarrow> u8 list \<Rightarrow> nat \<Rightarrow> client_shared \<Rightarrow> nat \<Rightarrow> 'w \<Rightarrow> (io_error, ('t, 'w) transceiver) result" where
  "spawn_state E tr connect_pkt ping sh resend_delay w =
     res_bind (make_arc_packet ping_req_impl ()) (\<lambda>ping_req.
     Inr \<lparr>transport = tr, pending_packets = (\<lambda>_. None), pending_subs = (\<lambda>_. None),
          tx_pkt = Some \<lparr>tx_bytes = connect_pkt, tx_pos = 0, tx_set_dup = False\<rparr>,
          rx_pkt = packet_reader_default, connect_sig = True, ping_interval = ping,
          last_tx = en_clock E 0, timeout_queue = [], internal_pkt_queue = [], shared = sh,
          subscriptions = node_default, disconnect_sent = False, cmd_queue_closed = False,
          ping_req = ping_req, packet_resend_delay = resend_delay, world = w,
          clock_reads = 1, woken = [], connect_result = None\<rparr>)"

end
