(* ===== verification/Outbox.thy ===== *)
theory Outbox
  imports Transceiver "HOL-Library.Sublist"
begin

unbundle bit_operations_syntax

text \<open>
  The sending side of the transceiver. Its state is seen as one sequence of bytes, the wire:
  what the transport has accepted followed by what is still to be written. Submitting a
  packet appends it to the wire, and everything else that writes leaves the wire as it is.
\<close>

section \<open>The wire\<close>

text \<open>The bytes of a packet as they are transmitted.\<close>

definition render :: "u8 list \<Rightarrow> bool \<Rightarrow> u8 list" where
  "render bytes set_dup =
     (if set_dup then (case bytes of [] \<Rightarrow> [] | b # bs \<Rightarrow> (b OR PF_DUP) # bs) else bytes)"

definition tx_rest :: "tx_packet option \<Rightarrow> u8 list" where
  "tx_rest tx =
     (case tx of None \<Rightarrow> [] | Some tx \<Rightarrow> drop (tx_pos tx) (render (tx_bytes tx) (tx_set_dup tx)))"

definition queued :: "internal_packet list \<Rightarrow> u8 list" where
  "queued q = concat (map (\<lambda>p. render (ipk_bytes p) (ipk_set_dup p)) q)"

definition wire :: "('t \<Rightarrow> u8 list) \<Rightarrow> ('t, 'w) transceiver \<Rightarrow> u8 list" where
  "wire out t = out (transport t) @ tx_rest (tx_pkt t) @ queued (internal_pkt_queue t)"

definition tx_ok :: "tx_packet option \<Rightarrow> bool" where
  "tx_ok tx = (case tx of None \<Rightarrow> True | Some tx \<Rightarrow> tx_pos tx < length (tx_bytes tx))"

text \<open>
  The invariant behind the comment in \<open>queue_internal_packet\<close>: when no packet is being
  transmitted the queue is empty.
\<close>

definition outbox_inv :: "('t, 'w) transceiver \<Rightarrow> bool" where
  "outbox_inv t =
     ((tx_pkt t = None \<longrightarrow> internal_pkt_queue t = []) \<and> tx_ok (tx_pkt t) \<and>
      (\<forall>p \<in> set (internal_pkt_queue t). ipk_bytes p \<noteq> []))"

text \<open>What writing may change.\<close>

definition io_frame :: "('t \<Rightarrow> u8 list) \<Rightarrow> ('t, 'w) transceiver \<Rightarrow> ('t, 'w) transceiver \<Rightarrow> bool" where
  "io_frame inp t t' =
     (t' = t\<lparr>transport := transport t', tx_pkt := tx_pkt t',
             internal_pkt_queue := internal_pkt_queue t', last_tx := last_tx t',
             clock_reads := clock_reads t'\<rparr> \<and>
      inp (transport t') = inp (transport t))"

lemma length_render [simp]: "length (render bytes dup) = length bytes"
  by (auto simp: render_def split: list.splits)

lemma render_False [simp]: "render bytes False = bytes"
  by (simp add: render_def)

lemma drop_render: "0 < n \<Longrightarrow> drop n (render bytes dup) = drop n bytes"
  by (cases n) (auto simp: render_def split: list.splits)

lemma take_render:
  assumes "0 < n"
  shows "take (n + k) (render bytes dup) = take n (render bytes dup) @ take k (drop n bytes)"
  using assms by (simp add: take_add drop_render)

lemma prefix_assoc: "prefix xs (ys @ zs) \<Longrightarrow> prefix xs (ys @ zs @ us)"
  by (metis append.assoc prefix_prefix)

lemma queued_simps [simp]:
  "queued [] = []"
  "queued (p # q) = render (ipk_bytes p) (ipk_set_dup p) @ queued q"
  "queued (q @ q') = queued q @ queued q'"
  by (simp_all add: queued_def)

lemma tx_rest_simps [simp]: "tx_rest None = []" "tx_ok None"
  by (simp_all add: tx_rest_def tx_ok_def)

lemma io_frame_refl [simp]: "io_frame inp t t"
  by (simp add: io_frame_def)

lemma io_frame_trans: "io_frame inp t t1 \<Longrightarrow> io_frame inp t1 t2 \<Longrightarrow> io_frame inp t t2"
  unfolding io_frame_def by (cases t, cases t1, cases t2) simp

lemma io_frame_clock:
  "io_frame inp t t' \<Longrightarrow> io_frame inp t (t'\<lparr>clock_reads := n, last_tx := m\<rparr>)"
  unfolding io_frame_def by (cases t, cases t') simp

section \<open>Sending\<close>

locale connection = transport_contract "en_transport E" inp out
  for E :: "('t, 'w) env" and inp :: "'t \<Rightarrow> u8 list" and out :: "'t \<Rightarrow> u8 list"
begin

abbreviation "on_wire \<equiv> wire out"

lemma write_cases:
  assumes "on_transport (t_write (en_transport E) src z) t = (r, t')"
  obtains k c where "r = Inr k" "k \<le> length src" "t' = t\<lparr>transport := c\<rparr>"
      "out c = out (transport t) @ take k src" "inp c = inp (transport t)"
    | e c where "r = Inl (Err e)" "t' = t\<lparr>transport := c\<rparr>" "out c = out (transport t)"
      "inp c = inp (transport t)" "z \<longrightarrow> io_kind e \<noteq> WouldBlock"
proof -
  obtain c where w: "t_write (en_transport E) src z (transport t) = (r, c)"
    and t': "t' = t\<lparr>transport := c\<rparr>"
    using assms by (auto simp: act_zoom_eq)
  have i: "inp c = inp (transport t)" using keepsD [OF write_inp w] .
  have n: "no_crash r" using crash_freeD [OF no_crashes(4) w] .
  show ?thesis
  proof (cases r)
    case (Inr k)
    with write_ok [of src z _ k c] w t' i that(1) show ?thesis by simp
  next
    case (Inl f)
    with n obtain e where f: "f = Err e" by (cases f) auto
    have "z \<longrightarrow> io_kind e \<noteq> WouldBlock"
      using write_zero [of src "transport t" e c] w Inl f by (cases z) simp_all
    with write_err [of src z _ f c] w t' i that(2) Inl f show ?thesis by simp
  qed
qed

lemma flush_cases:
  assumes "on_transport (t_flush (en_transport E)) t = (r, t')"
  obtains c where "r = Inr ()" "t' = t\<lparr>transport := c\<rparr>" "out c = out (transport t)"
      "inp c = inp (transport t)"
    | e c where "r = Inl (Err e)" "t' = t\<lparr>transport := c\<rparr>" "out c = out (transport t)"
      "inp c = inp (transport t)" "io_kind e \<noteq> WouldBlock"
proof -
  obtain c where w: "t_flush (en_transport E) (transport t) = (r, c)"
    and t': "t' = t\<lparr>transport := c\<rparr>"
    using assms by (auto simp: act_zoom_eq)
  have i: "inp c = inp (transport t)" "out c = out (transport t)"
    using keepsD [OF others_keep(5) w] keepsD [OF others_keep(6) w] by simp_all
  have n: "no_crash r" using crash_freeD [OF no_crashes(5) w] .
  show ?thesis
  proof (cases r)
    case (Inr k)
    with t' i that(1) show ?thesis by simp
  next
    case (Inl f)
    with n obtain e where f: "f = Err e" by (cases f) auto
    have "io_kind e \<noteq> WouldBlock" using flush_blocks [of "transport t" e c] w Inl f by simp
    with t' i that(2) Inl f show ?thesis by simp
  qed
qed

lemma write_dup_byte_eq:
  "write_dup_byte E (b # bs) z = on_transport (t_write (en_transport E) [b OR PF_DUP] z)"
  by (simp add: write_dup_byte_def)

lemma write_from_eq:
  "n \<le> length bytes \<Longrightarrow> write_from E bytes n z = on_transport (t_write (en_transport E) (drop n bytes) z)"
  by (simp add: write_from_def)

text \<open>The first attempt at a packet: how much of it was accepted.\<close>

lemma first_write:
  assumes "bytes \<noteq> []"
    and "(if dup
          then act_bind (write_dup_byte E bytes True) (\<lambda>written.
            if 0 < written
            then act_bind (write_from E bytes written True) (\<lambda>more. act_return (written + more))
            else act_return written)
          else write_from E bytes 0 True) t = (r, t')"
  obtains k c where "r = Inr k" "k \<le> length bytes" "t' = t\<lparr>transport := c\<rparr>"
      "out c = out (transport t) @ take k (render bytes dup)" "inp c = inp (transport t)"
    | e k c where "r = Inl (Err e)" "t' = t\<lparr>transport := c\<rparr>"
      "out c = out (transport t) @ take k (render bytes dup)" "inp c = inp (transport t)"
      "io_kind e \<noteq> WouldBlock"
proof (cases dup)
  case False
  with assms(2) have "on_transport (t_write (en_transport E) bytes True) t = (r, t')"
    by (simp add: write_from_def)
  then show ?thesis
  proof (cases rule: write_cases)
    case (1 k c)
    then show ?thesis using False that(1) [of k c] by simp
  next
    case (2 e c)
    then show ?thesis using False that(2) [of e c 0] by simp
  qed
next
  case dup: True
  obtain b bs where b: "bytes = b # bs" using assms(1) by (cases bytes) auto
  obtain r1 t1 where w: "on_transport (t_write (en_transport E) [b OR PF_DUP] True) t = (r1, t1)"
    by fastforce
  note eval = assms(2) dup b w write_dup_byte_eq
  from w show ?thesis
  proof (cases rule: write_cases)
    case (1 k c)
    show ?thesis
    proof (cases "k = 0")
      case True
      then show ?thesis
        using 1 eval that(1) [of 0 c] by (simp add: act_bind_def act_return_def)
    next
      case False
      with 1 have k: "k = 1" by simp
      obtain r2 t2 where w2: "on_transport (t_write (en_transport E) bs True) t1 = (r2, t2)"
        by fastforce
      have *: "act_bind (on_transport (t_write (en_transport E) bs True)) (\<lambda>more. act_return (1 + more)) t1
          = (r, t')"
        using eval 1(1) k by (simp add: act_bind_def write_from_eq)
      from w2 show ?thesis
      proof (cases rule: write_cases)
        case (1 k' c')
        then show ?thesis
          using * w2 b dup \<open>out c = _\<close> \<open>inp c = _\<close> \<open>t1 = _\<close> k that(1) [of "1 + k'" c']
          by (simp add: act_bind_def act_return_def render_def)
      next
        case (2 e c')
        then show ?thesis
          using * w2 b dup \<open>out c = _\<close> \<open>inp c = _\<close> \<open>t1 = _\<close> k that(2) [of e c' 1]
          by (simp add: act_bind_def render_def)
      qed
    qed
  next
    case (2 e c)
    then show ?thesis
      using eval that(2) [of e c 0] by (simp add: act_bind_def)
  qed
qed

lemma try_send_packet_cases:
  assumes "bytes \<noteq> []" and "tx_pkt t = None" and "try_send_packet E bytes dup t = (r, t')"
  obtains c tx where "r = Inr ()" "t' = t\<lparr>transport := c, tx_pkt := tx\<rparr>" "tx_ok tx"
      "out c @ tx_rest tx = out (transport t) @ render bytes dup" "inp c = inp (transport t)"
    | e c where "r = Inl (Err e)" "t' = t\<lparr>transport := c\<rparr>" "io_kind e \<noteq> WouldBlock"
      "prefix (out c) (out (transport t) @ render bytes dup)" "inp c = inp (transport t)"
proof -
  let ?w = "if dup
          then act_bind (write_dup_byte E bytes True) (\<lambda>written.
            if 0 < written
            then act_bind (write_from E bytes written True) (\<lambda>more. act_return (written + more))
            else act_return written)
          else write_from E bytes 0 True"
  obtain r1 t1 where w: "?w t = (r1, t1)" by fastforce
  from assms(1) w show ?thesis
  proof (cases rule: first_write)
    case (1 k c)
    note k = 1
    have rest: "(if length bytes \<le> k then on_transport (t_flush (en_transport E))
        else act_modify (\<lambda>t. t\<lparr>tx_pkt := Some \<lparr>tx_bytes = bytes, tx_pos = k, tx_set_dup = dup\<rparr>\<rparr>)) t1
        = (r, t')"
      using w 1(1) assms(2,3) by (simp add: try_send_packet_def act_bind_Inr)
    show ?thesis
    proof (cases "length bytes \<le> k")
      case True
      with k have o: "out c = out (transport t) @ render bytes dup" by simp
      from rest True have "on_transport (t_flush (en_transport E)) t1 = (r, t')" by simp
      then show ?thesis
      proof (cases rule: flush_cases)
        case (1 c')
        then show ?thesis
          using o k assms(2) that(1) [of None c'] by simp
      next
        case (2 e c')
        then show ?thesis
          using o k that(2) [of e c'] by simp
      qed
    next
      case False
      let ?tx = "Some \<lparr>tx_bytes = bytes, tx_pos = k, tx_set_dup = dup\<rparr>"
      show ?thesis
        by (rule that(1) [of ?tx c])
          (use False rest k in \<open>auto simp: act_modify_def tx_ok_def tx_rest_def\<close>)
    qed
  next
    case (2 e k c)
    then show ?thesis
      using w assms(2,3) that(2) [of e c]
      by (simp add: try_send_packet_def act_bind_Inl take_is_prefix)
  qed
qed

lemma queue_internal_packet_cases:
  assumes "bytes \<noteq> []" and "outbox_inv t" and "queue_internal_packet E bytes dup t = (r, t')"
  obtains "r = Inr ()" "io_frame inp t t'" "outbox_inv t'" "on_wire t' = on_wire t @ render bytes dup"
      "last_tx t' = last_tx t" "clock_reads t' = clock_reads t"
    | e where "r = Inl (Err e)" "io_frame inp t t'" "io_kind e \<noteq> WouldBlock"
      "prefix (out (transport t')) (on_wire t @ render bytes dup)"
proof (cases "tx_pkt t")
  case None
  then have q: "internal_pkt_queue t = []" using assms(2) by (simp add: outbox_inv_def)
  from None assms(3) have "try_send_packet E bytes dup t = (r, t')"
    by (simp add: queue_internal_packet_def)
  with assms(1) None show ?thesis
  proof (cases rule: try_send_packet_cases)
    case (1 c tx)
    then show ?thesis
      using that(1) None q by (simp add: io_frame_def outbox_inv_def wire_def)
  next
    case (2 e c)
    then show ?thesis
      using that(2) None q by (simp add: io_frame_def wire_def)
  qed
next
  case (Some tx)
  then show ?thesis
    using that(1) assms by (auto simp: queue_internal_packet_def io_frame_def outbox_inv_def wire_def)
qed

lemma send_queued_cases:
  assumes "tx_pkt t = None" and "\<forall>p \<in> set ps. ipk_bytes p \<noteq> []" and "send_queued E ps t = (r, t')"
  obtains "r = Inr ()" "io_frame inp t t'" "outbox_inv t'"
      "on_wire t' = out (transport t) @ queued ps"
    | e where "r = Inl (Err e)" "io_frame inp t t'" "io_kind e \<noteq> WouldBlock"
      "prefix (out (transport t')) (out (transport t) @ queued ps)"
  using assms
proof (induction ps arbitrary: t thesis)
  case Nil
  then show ?case by (intro Nil.prems(1)) (auto simp: io_frame_def outbox_inv_def wire_def)
next
  case (Cons p ps)
  let ?t = "t\<lparr>internal_pkt_queue := ps\<rparr>" and ?b = "ipk_bytes p" and ?d = "ipk_set_dup p"
  obtain r1 t1 where s: "try_send_packet E ?b ?d ?t = (r1, t1)" by fastforce
  have "?b \<noteq> []" "tx_pkt ?t = None" using Cons.prems by simp_all
  from this s show ?case
  proof (cases rule: try_send_packet_cases)
    case (1 c tx)
    note t1 = 1
    have fr: "io_frame inp t t1" using t1 by (simp add: io_frame_def)
    show ?thesis
    proof (cases tx)
      case (Some x)
      with t1 s Cons.prems show ?thesis
        by (intro Cons.prems(1))
          (auto simp: act_bind_Inr outbox_inv_def wire_def io_frame_def)
    next
      case None
      with t1 s Cons.prems(5) have sq: "send_queued E ps t1 = (r, t')" by (simp add: act_bind_Inr)
      have "tx_pkt t1 = None" "\<forall>p\<in>set ps. ipk_bytes p \<noteq> []"
        "out (transport t1) = out (transport t) @ render ?b ?d"
        using None t1 Cons.prems by simp_all
      with Cons.IH [OF _ _ _ _ sq] Cons.prems(1,2) fr show ?thesis
        by (smt (verit) append.assoc io_frame_trans queued_simps(2))
    qed
  next
    case (2 e c)
    with s Cons.prems(5) have "r = Inl (Err e)" "t' = t1" by (simp_all add: act_bind_Inl)
    with 2 show ?thesis
      by (intro Cons.prems(2) [of e]) (auto simp: io_frame_def intro: prefix_assoc)
  qed
qed

text \<open>One write of \<open>continue_writing_packet\<close>.\<close>

lemma next_write:
  assumes "tx_pos tx < length (tx_bytes tx)"
    and "(if tx_set_dup tx \<and> tx_pos tx \<le> 0 then write_dup_byte E (tx_bytes tx) False
          else write_from E (tx_bytes tx) (tx_pos tx) False) t = (r, t')"
  obtains k c where "r = Inr k" "tx_pos tx + k \<le> length (tx_bytes tx)" "t' = t\<lparr>transport := c\<rparr>"
      "out c @ drop (tx_pos tx + k) (render (tx_bytes tx) (tx_set_dup tx)) =
        out (transport t) @ tx_rest (Some tx)" "inp c = inp (transport t)"
    | e c where "r = Inl (Err e)" "t' = t\<lparr>transport := c\<rparr>"
      "out c = out (transport t)" "inp c = inp (transport t)"
proof (cases "tx_set_dup tx \<and> tx_pos tx \<le> 0")
  case True
  obtain b bs where b: "tx_bytes tx = b # bs" using assms(1) by (cases "tx_bytes tx") auto
  with True assms(2) have "on_transport (t_write (en_transport E) [b OR PF_DUP] False) t = (r, t')"
    by (simp add: write_dup_byte_eq)
  then show ?thesis
  proof (cases rule: write_cases)
    case (1 k c)
    then have "k = 0 \<or> k = 1" by auto
    with 1 show ?thesis
      using True b that(1) [of k c] by (auto simp: tx_rest_def render_def)
  next
    case (2 e c)
    then show ?thesis using that(2) [of e c] by simp
  qed
next
  case False
  with assms have "on_transport (t_write (en_transport E) (drop (tx_pos tx) (tx_bytes tx)) False) t = (r, t')"
    by (auto simp: write_from_eq split: if_splits)
  moreover have "drop (tx_pos tx) (tx_bytes tx) = tx_rest (Some tx)"
    using False by (cases "tx_set_dup tx") (simp_all add: tx_rest_def drop_render)
  ultimately have "on_transport (t_write (en_transport E) (tx_rest (Some tx)) False) t = (r, t')"
    by simp
  then show ?thesis
  proof (cases rule: write_cases)
    case (1 k c)
    have "take k (tx_rest (Some tx)) @ drop (tx_pos tx + k) (render (tx_bytes tx) (tx_set_dup tx)) =
        tx_rest (Some tx)"
      by (simp add: tx_rest_def add.commute flip: drop_drop)
    moreover have "tx_pos tx + k \<le> length (tx_bytes tx)"
      using 1(2) assms(1) by (simp add: tx_rest_def)
    ultimately show ?thesis using 1 that(1) [of k c] by simp
  next
    case (2 e c)
    then show ?thesis using that(2) [of e c] by simp
  qed
qed

lemma write_round_cases:
  assumes "outbox_inv t" and "tx_pkt t = Some tx" and "write_round E tx t = (r, t')"
  obtains x where "r = Inr x" "x \<noteq> Some False" "io_frame inp t t'" "outbox_inv t'" "on_wire t' = on_wire t"
    | e where "r = Inl (Err e)" "io_frame inp t t'" "prefix (out (transport t')) (on_wire t)"
      "io_kind e = WouldBlock \<longrightarrow> outbox_inv t' \<and> on_wire t' = on_wire t"
proof -
  have pos: "tx_pos tx < length (tx_bytes tx)" and q: "\<forall>p \<in> set (internal_pkt_queue t). ipk_bytes p \<noteq> []"
    using assms(1,2) by (simp_all add: outbox_inv_def tx_ok_def)
  let ?w = "if tx_set_dup tx \<and> tx_pos tx \<le> 0 then write_dup_byte E (tx_bytes tx) False
        else write_from E (tx_bytes tx) (tx_pos tx) False"
  obtain r1 t1 where w: "?w t = (r1, t1)" by fastforce
  from pos w show ?thesis
  proof (cases rule: next_write)
    case (1 k c)
    let ?tx = "tx\<lparr>tx_pos := tx_pos tx + k\<rparr>"
    have wire: "out c @ tx_rest (Some ?tx) = out (transport t) @ tx_rest (Some tx)"
      using 1 by (simp add: tx_rest_def)
    note eval = assms(3) [unfolded write_round_def act_bind_def w 1(1)]
    consider "k = 0" | "0 < k" "tx_pos tx + k < length (tx_bytes tx)"
      | "0 < k" "length (tx_bytes tx) = tx_pos tx + k"
      using 1(2) by linarith
    then show ?thesis
    proof cases
      case 1
      with eval have "r = Inr (Some True)" "t' = t\<lparr>transport := c\<rparr>"
        using \<open>t1 = _\<close> by (simp_all add: act_return_def)
      then show ?thesis
        using that(1) assms wire 1 \<open>inp c = _\<close>
        by (simp add: io_frame_def outbox_inv_def wire_def)
    next
      case 2
      with eval have "r = Inr None" "t' = t\<lparr>transport := c, tx_pkt := Some ?tx\<rparr>"
        using \<open>t1 = _\<close> by (simp_all add: act_return_def act_modify_def)
      then show ?thesis
        using that(1) assms wire 2 \<open>inp c = _\<close>
        by (simp add: io_frame_def outbox_inv_def wire_def tx_ok_def)
    next
      case 3
      let ?t = "t\<lparr>transport := c, tx_pkt := Some ?tx\<rparr>"
      obtain r2 t2 where fl: "on_transport (t_flush (en_transport E)) ?t = (r2, t2)" by fastforce
      have c: "out c = out (transport t) @ tx_rest (Some tx)"
        using wire 3 by (simp add: tx_rest_def)
      from fl show ?thesis
      proof (cases rule: flush_cases)
        case (1 c')
        obtain r3 t3 where sq: "send_queued E (internal_pkt_queue t) (t2\<lparr>tx_pkt := None\<rparr>) = (r3, t3)"
          by fastforce
        have cl: "clear_tx_packet E t2 = (r3, t3)" using sq 1 by (simp add: clear_tx_packet_def)
        have base: "io_frame inp t (t2\<lparr>tx_pkt := None\<rparr>)" "out (transport t2) @ queued (internal_pkt_queue t) = on_wire t"
          using 1 c \<open>inp c = _\<close> assms(2) by (simp_all add: io_frame_def wire_def)
        have tn: "tx_pkt (t2\<lparr>tx_pkt := None\<rparr>) = None" by simp
        from tn q sq show ?thesis
        proof (cases rule: send_queued_cases)
          case 1
          with eval 3 \<open>t1 = _\<close> fl \<open>r2 = _\<close> cl
          have "r = Inr None" "t' = t3\<lparr>clock_reads := clock_reads t3 + 1, last_tx := en_clock E (clock_reads t3)\<rparr>"
            by (simp_all add: act_simps act_bind_def instant_now_def)
          moreover have "io_frame inp t t3" using io_frame_trans [OF base(1) 1(2)] .
          ultimately show ?thesis
            using that(1) [of None] 1 base(2)
            by (simp add: outbox_inv_def wire_def io_frame_clock)
        next
          case (2 e)
          with eval 3 \<open>t1 = _\<close> fl \<open>r2 = _\<close> cl have "r = Inl (Err e)" "t' = t3"
            by (simp_all add: act_simps act_bind_def instant_now_def)
          moreover have "io_frame inp t t3" using io_frame_trans [OF base(1) 2(2)] .
          ultimately show ?thesis using that(2) [of e] 2 base(2) by simp
        qed
      next
        case (2 e c')
        with eval 3 \<open>t1 = _\<close> fl have "r = Inl (Err e)" "t' = t2"
          by (simp_all add: act_simps act_bind_def)
        then show ?thesis
          using that(2) [of e] 2 c \<open>inp c = _\<close> assms(2) by (simp add: io_frame_def wire_def)
      qed
    qed
  next
    case (2 e c)
    then have "r = Inl (Err e)" "t' = t\<lparr>transport := c\<rparr>"
      using assms(3) w by (simp_all add: write_round_def act_bind_def)
    then show ?thesis
      using that(2) [of e] 2 assms(1,2) by (simp add: io_frame_def wire_def outbox_inv_def)
  qed
qed

lemma continue_writing_packet_cases:
  assumes "outbox_inv t" and "continue_writing_packet E t = (r, t')"
  obtains closed where "r = Inr closed" "io_frame inp t t'" "outbox_inv t'" "on_wire t' = on_wire t"
      "\<not> closed \<longrightarrow> out (transport t') = on_wire t"
    | e where "r = Inl (Err e)" "io_frame inp t t'" "prefix (out (transport t')) (on_wire t)"
      "io_kind e = WouldBlock \<longrightarrow> outbox_inv t' \<and> on_wire t' = on_wire t"
  using assms
proof (induction t arbitrary: thesis
    rule: wf_induct_rule [OF wf_inv_image [OF wf_lex_prod [OF wf_less_than wf_less_than], of tx_measure]])
  case (1 t)
  show ?case
  proof (cases "tx_pkt t")
    case None
    then show ?thesis
      using "1.prems" by (intro "1.prems"(1)) (auto simp: continue_writing_packet.simps outbox_inv_def wire_def)
  next
    case (Some tx)
    obtain r1 t1 where w: "write_round E tx t = (r1, t1)" by fastforce
    from "1.prems"(3) Some w show ?thesis
    proof (cases rule: write_round_cases)
      case (1 x)
      note step = 1
      show ?thesis
      proof (cases x)
        case None
        have "(t1, t) \<in> inv_image (less_than <*lex*> less_than) tx_measure"
          using write_round_decreases [OF Some] w step None by simp
        moreover have "continue_writing_packet E t1 = (r, t')"
          using "1.prems"(4) Some w step None by (subst (asm) continue_writing_packet.simps) simp
        ultimately show ?thesis
          using "1.IH" [of t1] step "1.prems"(1,2) io_frame_trans [OF step(3)] by metis
      next
        case (Some b)
        with step w \<open>tx_pkt t = Some tx\<close> "1.prems"(4) show ?thesis
          by (intro "1.prems"(1)) (auto simp: continue_writing_packet.simps [of E t])
      qed
    next
      case (2 e)
      with w Some "1.prems"(4) show ?thesis
        by (intro "1.prems"(2)) (auto simp: continue_writing_packet.simps [of E t])
    qed
  qed
qed

end

end
