(* ===== verification/Session.thy ===== *)
theory Session
  imports Outbox Dispatch
begin

unbundle bit_operations_syntax

text \<open>
  The invariant of the transceiver task and its preservation by every handler. A handler is
  described by a triple over its outcomes: it returns normally, or with an I/O error after
  which the task shuts down; a panic or undefined behaviour is no outcome.
\<close>

section \<open>Triples\<close>

definition runs ::
    "('s \<Rightarrow> bool) \<Rightarrow> ('s, 'e, 'a) act \<Rightarrow> ('a \<Rightarrow> 's \<Rightarrow> bool) \<Rightarrow> ('s \<Rightarrow> bool) \<Rightarrow> bool" where
  "runs P m Q R =
     (\<forall>s. P s \<longrightarrow>
        (case m s of (Inr a, s') \<Rightarrow> Q a s' | (Inl (Err _), s') \<Rightarrow> R s' | (Inl _, _) \<Rightarrow> False))"

lemma runsD:
  assumes "runs P m Q R" and "P s" and "m s = (r, s')"
  obtains a where "r = Inr a" "Q a s'" | e where "r = Inl (Err e)" "R s'"
proof -
  have *: "case (r, s') of (Inr a, s') \<Rightarrow> Q a s' | (Inl (Err _), s') \<Rightarrow> R s' | (Inl _, _) \<Rightarrow> False"
    using assms unfolding runs_def by metis
  show ?thesis
  proof (cases r)
    case (Inl f)
    with * that(2) show ?thesis by (cases f) auto
  qed (use * that(1) in auto)
qed

lemma runsI:
  assumes "\<And>s r s'. P s \<Longrightarrow> m s = (r, s') \<Longrightarrow>
    (\<exists>a. r = Inr a \<and> Q a s') \<or> (\<exists>e. r = Inl (Err e) \<and> R s')"
  shows "runs P m Q R"
  unfolding runs_def
proof (intro allI impI)
  fix s assume "P s"
  obtain r s' where m: "m s = (r, s')" by fastforce
  from assms [OF \<open>P s\<close> m] m
  show "case m s of (Inr a, s') \<Rightarrow> Q a s' | (Inl (Err _), s') \<Rightarrow> R s' | (Inl _, _) \<Rightarrow> False"
    by auto
qed

lemma runs_bind:
  assumes "runs P m Q R" and "\<And>a. runs (Q a) (k a) S R"
  shows "runs P (act_bind m k) S R"
proof (rule runsI)
  fix s r s' assume P: "P s" and b: "act_bind m k s = (r, s')"
  obtain r1 s1 where m: "m s = (r1, s1)" by fastforce
  from assms(1) P m show "(\<exists>a. r = Inr a \<and> S a s') \<or> (\<exists>e. r = Inl (Err e) \<and> R s')"
  proof (cases rule: runsD)
    case (1 a)
    with m b have "k a s1 = (r, s')" by (simp add: act_bind_def)
    from assms(2) 1(2) this show ?thesis by (cases rule: runsD) auto
  next
    case (2 e)
    with m b show ?thesis by (auto simp: act_bind_def)
  qed
qed

lemma runs_weaken:
  assumes "runs P m Q R" and "\<And>s. P' s \<Longrightarrow> P s" and "\<And>a s. Q a s \<Longrightarrow> Q' a s"
  shows "runs P' m Q' R"
proof (rule runsI)
  fix s r s' assume "P' s" and m: "m s = (r, s')"
  then have "P s" by (simp add: assms(2))
  from assms(1) this m show "(\<exists>a. r = Inr a \<and> Q' a s') \<or> (\<exists>e. r = Inl (Err e) \<and> R s')"
    by (cases rule: runsD) (auto intro: assms(3))
qed

lemma runs_I:
  assumes "\<And>s. P s \<Longrightarrow> \<exists>a s'. m s = (Inr a, s') \<and> Q a s'"
  shows "runs P m Q R"
  by (rule runsI) (use assms in fastforce)

lemma runs_return: "(\<And>s. P s \<Longrightarrow> Q a s) \<Longrightarrow> runs P (act_return a) Q R"
  by (rule runs_I) (simp add: act_return_def)

lemma runs_modify: "(\<And>s. P s \<Longrightarrow> Q () (f s)) \<Longrightarrow> runs P (act_modify f) Q R"
  by (rule runs_I) (simp add: act_modify_def)

lemma runs_get: "(\<And>s. P s \<Longrightarrow> Q (f s) s) \<Longrightarrow> runs P (act_get f) Q R"
  by (rule runs_I) (simp add: act_get_def)

lemma runs_lift: "r = Inr a \<Longrightarrow> runs P (k a) Q R \<Longrightarrow> runs P (act_bind (lift_res r) k) Q R"
  by (simp add: runs_def act_bind_def lift_res_def)

text \<open>A handler that does different things in different states.\<close>

lemma runs_state:
  assumes "\<And>s. P s \<Longrightarrow> runs (\<lambda>s'. s' = s) m Q R"
  shows "runs P m Q R"
proof (rule runsI)
  fix s r s' assume "P s" and m: "m s = (r, s')"
  from assms [OF \<open>P s\<close>] refl m
  show "(\<exists>a. r = Inr a \<and> Q a s') \<or> (\<exists>e. r = Inl (Err e) \<and> R s')"
    by (cases rule: runsD) auto
qed

lemma runs_at:
  assumes "runs P m Q R" and "P s'" and "m' s = m s'"
  shows "runs (\<lambda>x. x = s) m' Q R"
proof (rule runsI)
  fix x r s1 assume "x = s" and "m' x = (r, s1)"
  then have "m s' = (r, s1)" using assms(3) by simp
  from assms(1,2) this
  show "(\<exists>a. r = Inr a \<and> Q a s1) \<or> (\<exists>e. r = Inl (Err e) \<and> R s1)"
    by (cases rule: runsD) auto
qed

section \<open>The invariant\<close>

text \<open>A complete MQTT packet, and a sequence of complete packets.\<close>

definition is_packet :: "u8 list \<Rightarrow> bool" where
  "is_packet p = (case split_frame p of Some (_, _, rest) \<Rightarrow> rest = [] | None \<Rightarrow> False)"

definition whole_packets :: "u8 list \<Rightarrow> bool" where
  "whole_packets s = (\<exists>ps. list_all is_packet ps \<and> s = concat ps)"

text \<open>A subscription the broker has not confirmed has nobody to deliver to.\<close>

definition sub_ok :: "subscription \<Rightarrow> bool" where
  "sub_ok sub =
     (callbacks_sorted (fast_callbacks sub) \<and>
      (\<not> subscribed sub \<longrightarrow>
         lossy_queue sub = [] \<and> unbounded_queue sub = [] \<and> fast_callbacks sub = []))"

definition tree_ok :: "node \<Rightarrow> bool" where
  "tree_ok n = (\<forall>f. sub_ok (sub_at f n))"

text \<open>
  Every packet that waits for an acknowledgement has a timer, apart from those in \<open>X\<close>.
\<close>

definition has_timer :: "id_type set \<Rightarrow> ('t, 'w) transceiver \<Rightarrow> id_type \<Rightarrow> bool" where
  "has_timer X t i = (i \<in> X \<or> i \<in> to_packet_id ` set (timeout_queue t))"

definition kept :: "id_type set \<Rightarrow> ('t, 'w) transceiver \<Rightarrow> bool" where
  "kept X t =
     ((\<forall>i p. pending_packets t i = Some p \<longrightarrow>
         is_packet p \<and> it_ty i \<noteq> PT_Subscribe \<and> has_timer X t i) \<and>
      (\<forall>i s. pending_subs t i = Some s \<longrightarrow>
         is_packet (ps_packet s) \<and> has_timer X t (id_subscribe i)) \<and>
      reader_inv (rx_pkt t) \<and> is_packet (ping_req t) \<and>
      tree_ok (subscriptions t))"

definition sending :: "('t \<Rightarrow> u8 list) \<Rightarrow> ('t, 'w) transceiver \<Rightarrow> bool" where
  "sending out t = (outbox_inv t \<and> whole_packets (wire out t))"

definition session_inv :: "('t \<Rightarrow> u8 list) \<Rightarrow> id_type set \<Rightarrow> ('t, 'w) transceiver \<Rightarrow> bool" where
  "session_inv out X t = (sending out t \<and> kept X t)"

text \<open>What is left of it after an I/O error.\<close>

definition cut_short :: "('t \<Rightarrow> u8 list) \<Rightarrow> ('t, 'w) transceiver \<Rightarrow> bool" where
  "cut_short out t = (\<exists>s. whole_packets s \<and> prefix (out (transport t)) s)"

lemma is_packet_not_Nil: "is_packet p \<Longrightarrow> p \<noteq> []"
  by (auto simp: is_packet_def split_frame_def)

lemma is_packet_render: "is_packet p \<Longrightarrow> is_packet (render p dup)"
  by (auto simp: is_packet_def split_frame_def render_def split: list.splits option.splits if_splits)

lemma is_packet_encoded:
  "length body < 2 ^ 28 \<Longrightarrow> is_packet (fixed_header ty flags (length body) @ body)"
  using split_frame_encoded [of body ty flags "[]"] by (simp add: is_packet_def)

lemma whole_packets_append: "whole_packets s \<Longrightarrow> is_packet p \<Longrightarrow> whole_packets (s @ p)"
proof -
  assume "whole_packets s" "is_packet p"
  then obtain ps where "list_all is_packet (ps @ [p])" "s = concat ps"
    by (auto simp: whole_packets_def)
  then show "whole_packets (s @ p)"
    unfolding whole_packets_def by (intro exI [of _ "ps @ [p]"]) simp
qed

lemma sub_ok_default [simp]: "sub_ok subscription_default"
  by (simp add: sub_ok_def subscription_default_def callbacks_sorted_def)

lemma session_invD:
  "session_inv out X t \<Longrightarrow> outbox_inv t" "session_inv out X t \<Longrightarrow> whole_packets (wire out t)"
  "session_inv out X t \<Longrightarrow> kept X t"
  by (simp_all add: session_inv_def sending_def)

lemma kept_frame: "io_frame inp t t' \<Longrightarrow> kept X t \<Longrightarrow> kept X t'"
  unfolding io_frame_def kept_def has_timer_def by (cases t, cases t') simp

lemma kept_timers:
  assumes "kept X t" and "\<And>j. has_timer X t j \<Longrightarrow> has_timer Y t' j"
    and "pending_packets t' = pending_packets t" "pending_subs t' = pending_subs t"
    "rx_pkt t' = rx_pkt t" "ping_req t' = ping_req t" "subscriptions t' = subscriptions t"
  shows "kept Y t'"
  using assms(1,2) unfolding kept_def assms(3-) by metis

lemma simple_body_length [simp]: "length (simple_body p) = 2"
  by (simp add: simple_body_def)

lemma packets_made:
  "\<exists>p. make_arc_packet pub_ack_impl s = Inr p \<and> is_packet p"
  "\<exists>p. make_arc_packet pub_rec_impl s = Inr p \<and> is_packet p"
  "\<exists>p. make_arc_packet pub_rel_impl s = Inr p \<and> is_packet p"
  "\<exists>p. make_arc_packet pub_comp_impl s = Inr p \<and> is_packet p"
  "\<exists>p. make_arc_packet disconnect_impl () = Inr p \<and> is_packet p"
  "\<exists>p. make_arc_packet ping_req_impl () = Inr p \<and> is_packet p"
  using is_packet_encoded [of "simple_body s"] is_packet_encoded [of "[]"]
  by (simp_all add: pub_ack.make_arc_packet_ok pub_rec.make_arc_packet_ok
      pub_rel.make_arc_packet_ok pub_comp.make_arc_packet_ok disconnect.make_arc_packet_ok
      ping_req.make_arc_packet_ok)

lemma topic_packets_made:
  assumes "length topic < 2 ^ 16"
  shows "\<exists>p. make_arc_packet subscribe_impl \<lparr>sub_packet_id = i, sub_topics = [(topic, q)]\<rparr> = Inr p
      \<and> is_packet p"
    and "\<exists>p. make_arc_packet unsubscribe_impl \<lparr>un_packet_id = i, un_topics = [topic]\<rparr> = Inr p
      \<and> is_packet p"
proof -
  let ?s = "\<lparr>sub_packet_id = i, sub_topics = [(topic, q)]\<rparr>"
    and ?u = "\<lparr>un_packet_id = i, un_topics = [topic]\<rparr>"
  have s: "subscribe_wf ?s" "length (subscribe_body ?s) < 2 ^ 28"
    using assms by (simp_all add: subscribe_wf_def subscribe_body_def topic_filter_body_def)
  have u: "unsubscribe_wf ?u" "length (unsubscribe_body ?u) < 2 ^ 28"
    using assms by (simp_all add: unsubscribe_wf_def unsubscribe_body_def)
  show "\<exists>p. make_arc_packet subscribe_impl ?s = Inr p \<and> is_packet p"
    using subscribe.make_arc_packet_ok [OF s] is_packet_encoded [OF s(2)] by blast
  show "\<exists>p. make_arc_packet unsubscribe_impl ?u = Inr p \<and> is_packet p"
    using unsubscribe.make_arc_packet_ok [OF u] is_packet_encoded [OF u(2)] by blast
qed

section \<open>The subscription tree\<close>

lemma sub_ok_add:
  assumes "sub_ok sub" and "subscribed sub"
  shows "\<exists>sub'. sub_add False kind sub = (Inr () :: ('e, unit) result, sub') \<and> sub_ok sub' \<and> subscribed sub'"
proof (cases kind)
  case (FastCallback cb)
  then show ?thesis
    using assms by (simp add: sub_ok_def add_fast_callback_correct insert_callback_sorted)
qed (use assms in \<open>auto simp: sub_ok_def\<close>)

lemma tree_ok_dispatch:
  assumes "tree_ok n" and "node_dispatch S msg ts n w = (n', w')"
  shows "tree_ok n'"
proof -
  have "sub_ok (sub_at f n')" for f
  proof (cases "f \<in> set (matching (levels_of ts))")
    case True
    from dispatched_pruned [OF node_dispatch_spec [OF assms(2)] True] assms(1)
    show ?thesis by (auto simp: pruned_def sub_ok_def tree_ok_def)
  next
    case False
    from dispatched_same [OF node_dispatch_spec [OF assms(2)] False] assms(1)
    show ?thesis by (simp add: tree_ok_def)
  qed
  then show ?thesis by (simp add: tree_ok_def)
qed

lemma tree_ok_get_or_create:
  assumes "tree_ok n" and "get_or_create topic f n = (r, n')"
    and "\<And>sub. sub_ok sub \<Longrightarrow> sub_ok (snd (f sub))"
  shows "tree_ok n'"
  using assms get_or_create_from_spec [of "topic_slicer_new topic" f n r n']
  by (auto simp: tree_ok_def get_or_create_def)

lemma tree_ok_get:
  assumes "tree_ok n" and "get topic f n = (r, n')"
    and "\<And>sub. sub_ok sub \<Longrightarrow> sub_ok (snd (f sub))"
  shows "tree_ok n'"
  using assms get_from_spec [of "topic_slicer_new topic" f n r n']
  by (auto simp: tree_ok_def get_def)

lemma sub_ok_clear: "sub_ok (sub_clear sub)"
  by (simp add: sub_ok_def sub_clear_def callbacks_sorted_def)

lemma sub_ok_remove_callback: "sub_ok sub \<Longrightarrow> sub_ok (remove_fast_callback i sub)"
  using callbacks_sorted_filter by (auto simp: sub_ok_def remove_fast_callback_correct)

section \<open>Packets that come from the reader\<close>

definition packet_ok :: "incoming_packet \<Rightarrow> bool" where
  "packet_ok pkt =
     (case pkt of
        IP_Publish msg \<Rightarrow>
          (\<exists>topic. publish_topic msg = (Inr topic :: (io_error, rstr) result)) \<and>
          (\<exists>q. flags_qos (pi_flags (publish_info msg)) = (Inr q :: (io_error, qos) result))
      | IP_SubAck ack \<Rightarrow> (\<exists>rs. sub_results ack = (Inr rs :: (io_error, subscription_result list) result))
      | _ \<Rightarrow> True)"

lemma sub_ack_fill_static_length:
  "sub_ack_fill_static i rs vs = Inr vs' \<Longrightarrow> length vs' = length vs"
  by (induction i rs vs rule: sub_ack_fill_static.induct) (auto simp: res_bind_eq_Inr split: if_splits)

lemma sub_ack_decode_results:
  assumes "sub_ack_decode rd cf = Inr (ack, rest)"
  shows "\<exists>rs. sub_results ack = Inr rs"
  using assms
  by (auto simp: sub_ack_decode_def res_bind_eq_Inr Let_def sub_results_def MAX_STATIC_SUBS_def
      read_remaining_def
      dest!: sub_ack_fill_static_length split: if_splits prod.splits)

lemma from_bytes_packet_ok:
  assumes "from_bytes body cf = Inr (pkt, rest)"
  shows "packet_ok pkt"
proof (cases pkt)
  case (IP_Publish msg)
  with assms have "publish_decode body cf = Inr (msg, rest)"
    by (auto simp: from_bytes_def Let_def read_map_def res_bind_eq_Inr split: if_splits)
  from publish_decode_ok [OF this] IP_Publish show ?thesis by (auto simp: packet_ok_def)
next
  case (IP_SubAck ack)
  with assms have "sub_ack_decode body cf = Inr (ack, rest)"
    by (auto simp: from_bytes_def Let_def read_map_def res_bind_eq_Inr split: if_splits)
  from sub_ack_decode_results [OF this] IP_SubAck show ?thesis by (auto simp: packet_ok_def)
qed (simp_all add: packet_ok_def)

text \<open>
  Commands whose packet is complete and whose topic fits into the 16-bit length field.
\<close>

fun command_ok :: "command \<Rightarrow> bool" where
  "command_ok (CmdPublish cmd) = is_packet (pc_packet cmd)"
| "command_ok (CmdSubscribe cmd) = (length (sc_topic cmd) < 2 ^ 16)"
| "command_ok (CmdUnsub cmd) = (length (uc_topic cmd) < 2 ^ 16)"
| "command_ok CmdDisconnect = True"

fun event_ok :: "event \<Rightarrow> bool" where
  "event_ok (CommandRecv (Some cmd)) = command_ok cmd"
| "event_ok _ = True"

section \<open>The handlers\<close>

locale session = connection E inp out
  for E :: "('t, 'w) env" and inp :: "'t \<Rightarrow> u8 list" and out :: "'t \<Rightarrow> u8 list" +
  assumes release: "\<not> en_cfg_test E"
begin

abbreviation ok :: "id_type set \<Rightarrow> ('t, 'w) transceiver \<Rightarrow> bool" where
  "ok \<equiv> session_inv out"

definition holds :: "('t, 'w, 'a) meth \<Rightarrow> bool" where
  "holds m = runs (ok {}) m (\<lambda>_. ok {}) (cut_short out)"

lemma queue_runs:
  assumes "is_packet p" and "\<And>t t'. io_frame inp t t' \<Longrightarrow> K t \<Longrightarrow> K t'"
  shows "runs (\<lambda>t. ok X t \<and> K t) (queue_internal_packet E p dup) (\<lambda>_ t. ok X t \<and> K t)
    (cut_short out)"
proof (rule runsI)
  fix t r t'
  assume "ok X t \<and> K t" and q: "queue_internal_packet E p dup t = (r, t')"
  then have i: "outbox_inv t" "whole_packets (on_wire t)" "kept X t" "K t"
    by (simp_all add: session_inv_def sending_def)
  have w: "whole_packets (on_wire t @ render p dup)"
    using i(2) assms(1) by (intro whole_packets_append is_packet_render)
  from is_packet_not_Nil [OF assms(1)] i(1) q
  show "(\<exists>a. r = Inr a \<and> ok X t' \<and> K t') \<or> (\<exists>e. r = Inl (Err e) \<and> cut_short out t')"
  proof (cases rule: queue_internal_packet_cases)
    case 1
    then show ?thesis
      using w i(3,4) kept_frame assms(2) by (auto simp: session_inv_def sending_def)
  next
    case (2 e)
    then show ?thesis using w by (auto simp: cut_short_def)
  qed
qed

lemma queue_runs_plain:
  assumes "is_packet p"
  shows "runs (ok X) (queue_internal_packet E p dup) (\<lambda>_. ok X) (cut_short out)"
  using queue_runs [OF assms, where K = "\<lambda>_. True"] by simp

lemma queue_holds: "is_packet p \<Longrightarrow> holds (queue_internal_packet E p dup)"
  unfolding holds_def by (rule queue_runs_plain)

lemma try_send_runs:
  assumes "is_packet p" and "\<And>t t'. io_frame inp t t' \<Longrightarrow> K t \<Longrightarrow> K t'"
  shows "runs (\<lambda>t. ok X t \<and> K t \<and> tx_pkt t = None) (try_send_packet E p False)
    (\<lambda>_ t. ok X t \<and> K t) (cut_short out)"
proof (rule runs_state)
  fix t assume t: "ok X t \<and> K t \<and> tx_pkt t = None"
  show "runs (\<lambda>s'. s' = t) (try_send_packet E p False) (\<lambda>_ t. ok X t \<and> K t) (cut_short out)"
    by (rule runs_at [OF queue_runs [OF assms], where s' = t])
      (use t in \<open>auto simp: queue_internal_packet_def\<close>)
qed

lemma inv_update:
  assumes "ok X t" and "transport t' = transport t" and "tx_pkt t' = tx_pkt t"
    and "internal_pkt_queue t' = internal_pkt_queue t" and "kept Y t'"
  shows "ok Y t'"
  using assms by (simp add: session_inv_def sending_def outbox_inv_def wire_def)

lemma modify_runs:
  assumes "\<And>t. P t \<Longrightarrow> ok X t"
    and "\<And>t. transport (f t) = transport t \<and> tx_pkt (f t) = tx_pkt t \<and>
      internal_pkt_queue (f t) = internal_pkt_queue t"
    and "\<And>t. P t \<Longrightarrow> kept X t \<Longrightarrow> kept Y (f t)"
  shows "runs P (act_modify f) (\<lambda>_. ok Y) R"
proof (rule runs_modify)
  fix t assume t: "P t"
  show "ok Y (f t)"
    by (rule inv_update [OF assms(1) [OF t]])
      (simp_all add: assms(2) assms(3) [OF t session_invD(3) [OF assms(1) [OF t]]])
qed

lemma push_timeout_runs:
  "runs (\<lambda>t. ok X t \<and> K t) (act_bind (timeout_now E i) push_timeout) (\<lambda>_. ok (X - {i})) (cut_short out)"
proof (rule runs_I)
  fix t assume "ok X t \<and> K t"
  then have t: "ok X t" by simp
  have "ok (X - {i}) (t\<lparr>clock_reads := clock_reads t + 1, timeout_queue := timeout_queue t @
      [\<lparr>to_t = en_clock E (clock_reads t), to_packet_id = i\<rparr>]\<rparr>)"
    by (rule inv_update [OF t], simp_all)
      (rule kept_timers [OF session_invD(3) [OF t]], auto simp: has_timer_def)
  then show "\<exists>a t'. act_bind (timeout_now E i) push_timeout t = (Inr a, t') \<and> ok (X - {i}) t'"
    by (simp add: act_bind_def timeout_now_def push_timeout_def instant_now_def act_simps)
qed

lemma refresh_timeout_runs:
  "runs (\<lambda>t. ok {to_packet_id to} t \<and> timeout_queue t = q)
     (act_bind (timeout_refresh E to) push_timeout)
     (\<lambda>_ t. ok {} t \<and> length (timeout_queue t) = length q + 1) (cut_short out)"
proof (rule runs_I)
  fix t assume t: "ok {to_packet_id to} t \<and> timeout_queue t = q"
  let ?t = "t\<lparr>clock_reads := clock_reads t + 1, timeout_queue := timeout_queue t @
      [to\<lparr>to_t := en_clock E (clock_reads t)\<rparr>]\<rparr>"
  have "ok {} ?t"
    by (rule inv_update [OF conjunct1 [OF t]], simp_all)
      (rule kept_timers [OF session_invD(3) [OF conjunct1 [OF t]]], auto simp: has_timer_def)
  with t show "\<exists>a t'. act_bind (timeout_refresh E to) push_timeout t = (Inr a, t') \<and>
      ok {} t' \<and> length (timeout_queue t') = length q + 1"
    by (simp add: act_bind_def timeout_refresh_def push_timeout_def instant_now_def act_simps)
qed

lemma panic_in_test_runs: "runs P (panic_in_test E msg) (\<lambda>_. P) R"
  by (rule runs_I) (simp add: panic_in_test_def release)

lemma with_timeout_holds:
  assumes "is_packet p" and "it_ty i \<noteq> PT_Subscribe"
  shows "holds (queue_internal_packet_with_timeout E p i)"
  unfolding holds_def queue_internal_packet_with_timeout_def
proof (rule runs_bind)
  show "runs (ok {}) (act_get (\<lambda>t. pending_packets t i))
      (\<lambda>old t. ok {} t \<and> pending_packets t i = old) (cut_short out)"
    by (rule runs_get) simp
next
  fix old
  have "runs (\<lambda>t. ok {} t \<and> pending_packets t i = old)
      (act_modify (\<lambda>t. t\<lparr>pending_packets := (pending_packets t)(i \<mapsto> p)\<rparr>))
      (\<lambda>_. ok (if old = None then {i} else {})) (cut_short out)"
    by (rule modify_runs [where X = "{}"]) (use assms in \<open>auto simp: kept_def has_timer_def\<close>)
  moreover have "runs (ok (if old = None then {i} else {}))
      (if old = None then act_bind (timeout_now E i) push_timeout
        else panic_in_test E ''queue_internal_packet_with_timeout: not a new packet'')
      (\<lambda>_. ok {}) (cut_short out)"
    using push_timeout_runs [where X = "{i}" and K = "\<lambda>_. True" and i = i] panic_in_test_runs by simp
  ultimately show "runs (\<lambda>t. ok {} t \<and> pending_packets t i = old)
      (act_bind (act_modify (\<lambda>t. t\<lparr>pending_packets := (pending_packets t)(i \<mapsto> p)\<rparr>)) (\<lambda>_.
       act_bind (if old = None then act_bind (timeout_now E i) push_timeout
        else panic_in_test E ''queue_internal_packet_with_timeout: not a new packet'') (\<lambda>_.
       queue_internal_packet E p False))) (\<lambda>_. ok {}) (cut_short out)"
    using queue_runs_plain [OF assms(1)] by (blast intro: runs_bind)
qed

subsection \<open>Sequencing\<close>

lemma holds_bind: "holds m \<Longrightarrow> (\<And>a. holds (k a)) \<Longrightarrow> holds (act_bind m k)"
  unfolding holds_def by (rule runs_bind)

lemma holds_return: "holds (act_return a)"
  unfolding holds_def by (rule runs_return)

lemma holds_lift:
  assumes "\<exists>a. r = Inr a \<and> P a" and "\<And>a. P a \<Longrightarrow> holds (k a)"
  shows "holds (act_bind (lift_res r) k)"
proof -
  obtain a where "r = Inr a" "P a" using assms(1) by blast
  then have "act_bind (lift_res r) k = k a" by (auto simp: act_bind_def lift_res_def)
  with assms(2) [OF \<open>P a\<close>] show ?thesis by simp
qed

lemma holds_get:
  assumes "\<And>t. ok {} t \<Longrightarrow> holds (k (f t))"
  shows "holds (act_bind (act_get f) k)"
  unfolding holds_def
proof (rule runs_state)
  fix t assume t: "ok {} t"
  show "runs (\<lambda>s'. s' = t) (act_bind (act_get f) k) (\<lambda>_. ok {}) (cut_short out)"
    by (rule runs_at [OF assms [OF t, unfolded holds_def], OF t]) (simp add: act_bind_def act_get_def)
qed

lemma holds_pure:
  assumes "\<And>t. kept {} t \<Longrightarrow> \<exists>a t'. m t = (Inr a, t') \<and> transport t' = transport t \<and>
    tx_pkt t' = tx_pkt t \<and> internal_pkt_queue t' = internal_pkt_queue t \<and> kept {} t'"
  shows "holds m"
  unfolding holds_def
proof (rule runs_I)
  fix t assume t: "ok {} t"
  from assms [OF session_invD(3) [OF t]]
  show "\<exists>a t'. m t = (Inr a, t') \<and> ok {} t'" using inv_update [OF t] by metis
qed

lemma kept_shared [simp]: "kept X (t\<lparr>shared := sh\<rparr>) = kept X t" "kept X (t\<lparr>woken := ws\<rparr>) = kept X t"
  "kept X (t\<lparr>world := v\<rparr>) = kept X t" "kept X (t\<lparr>cmd_queue_closed := b\<rparr>) = kept X t"
  "kept X (t\<lparr>connect_sig := b\<rparr>) = kept X t" "kept X (t\<lparr>connect_result := cr\<rparr>) = kept X t"
  "kept X (t\<lparr>clock_reads := n\<rparr>) = kept X t" "kept X (t\<lparr>last_tx := n\<rparr>) = kept X t"
  by (simp_all add: kept_def has_timer_def)

lemma kept_subscriptions: "kept X t \<Longrightarrow> tree_ok root \<Longrightarrow> kept X (t\<lparr>subscriptions := root\<rparr>)"
  by (simp add: kept_def has_timer_def)

lemma kept_tree: "kept X t \<Longrightarrow> tree_ok (subscriptions t)"
  by (simp add: kept_def)

lemma wake_holds: "holds (wake ws)"
  by (rule holds_pure) (simp add: wake_def)

lemma clear_packet_timeout_holds: "holds (clear_packet_timeout i)"
  by (rule holds_pure) (auto simp: clear_packet_timeout_def kept_def has_timer_def)

lemma fetch_id_holds: "holds fetch_id"
  by (rule holds_pure) (simp add: fetch_id_def fetch_packet_id_def)

lemma notify_stage_holds: "holds (notify_stage st i)"
  by (rule holds_pure) (auto simp: notify_stage_def wake_def split: prod.splits)

subsection \<open>Incoming packets\<close>

lemma dispatch_message_holds:
  assumes "publish_topic msg = (Inr topic :: (io_error, rstr) result)"
  shows "holds (dispatch_message E msg)"
proof (rule holds_pure)
  fix t :: "('t, 'w) transceiver"
  assume k: "kept {} t"
  obtain root v where d: "node_dispatch (en_sinks E) msg (topic_slicer_new topic) (subscriptions t) (world t)
      = (root, v)" by fastforce
  from tree_ok_dispatch [OF kept_tree [OF k] d] k have "kept {} (t\<lparr>subscriptions := root, world := v\<rparr>)"
    by (simp add: kept_subscriptions)
  then show "\<exists>a t'. dispatch_message E msg t = (Inr a, t') \<and> transport t' = transport t \<and>
      tx_pkt t' = tx_pkt t \<and> internal_pkt_queue t' = internal_pkt_queue t \<and> kept {} t'"
    using assms d by (simp add: dispatch_message_def set_dispatch_def)
qed

lemma unsub_immediate_holds:
  assumes "length topic < 2 ^ 16"
  shows "holds (unsub_immediate E topic)"
  unfolding unsub_immediate_def
  by (intro holds_bind [OF _ holds_bind] fetch_id_holds holds_lift [OF topic_packets_made(2) [OF assms]]
      with_timeout_holds holds_pure)
    (auto simp: act_modify_def id_type_defs)

lemma establish_subscription_holds: "holds (establish_subscription E ps)"
proof (rule holds_pure)
  fix t :: "('t, 'w) transceiver"
  assume k: "kept {} t"
  let ?f = "\<lambda>sub. (sub_add (en_cfg_test E) (ps_kind ps) (set_subscribed sub) ::
      (io_error, unit) result \<times> subscription)"
  have f: "fst (?f sub) = Inr () \<and> sub_ok (snd (?f sub))" if "sub_ok sub" for sub
  proof -
    have "sub_ok (set_subscribed sub)" "subscribed (set_subscribed sub)"
      using that by (simp_all add: set_subscribed_def sub_ok_def)
    from sub_ok_add [OF this, where kind = "ps_kind ps" and ?'e = io_error] release show ?thesis by auto
  qed
  obtain r root where g: "get_or_create (ps_topic ps) ?f (subscriptions t) = (r, root)" by fastforce
  have "tree_ok root"
    by (rule tree_ok_get_or_create [OF kept_tree [OF k] g]) (simp add: f)
  then have kk: "kept {} (t\<lparr>subscriptions := root\<rparr>)" using k by (simp add: kept_subscriptions)
  have sub_ok: "sub_ok (sub_at q (subscriptions t))" for q
    using kept_tree [OF k] by (simp add: tree_ok_def)
  have "r = (case parse_filter (levels_of (topic_slicer_new (ps_topic ps))) of
      None \<Rightarrow> Inl () | Some p \<Rightarrow> Inr (fst (?f (sub_at p (subscriptions t)))))"
    by (rule get_or_create_from_spec [OF g [unfolded get_or_create_def], THEN conjunct1])
  then have "r = Inl () \<or> r = Inr (Inr ())"
    using f [OF sub_ok] by (simp split: option.splits)
  then show "\<exists>a t'. establish_subscription E ps t = (Inr a, t') \<and> transport t' = transport t \<and>
      tx_pkt t' = tx_pkt t \<and> internal_pkt_queue t' = internal_pkt_queue t \<and> kept {} t'"
  proof
    assume "r = Inl ()"
    with g kk release show ?thesis by (simp add: establish_subscription_def panic_in_test_def)
  next
    assume "r = Inr (Inr ())"
    with g kk release show ?thesis by (simp add: establish_subscription_def)
  qed
qed

lemma sub_answer_holds: "holds (sub_accepted E topic q)" "holds (sub_refused E topic)"
  by (rule holds_pure, auto simp: sub_accepted_def sub_refused_def Let_def act_bind_def act_simps
      panic_in_test_def release split: option.splits subscription_state.splits)+

lemma process_sub_ack_holds:
  assumes "\<exists>rs. sub_results ack = (Inr rs :: (io_error, _) result)"
  shows "holds (process_sub_ack E ack)"
proof -
  obtain rs where rs: "sub_results ack = (Inr rs :: (io_error, _) result)" using assms by blast
  let ?m = "\<lambda>ps. act_bind (lift_res (sub_results ack)) (\<lambda>results.
            case results of
              [] \<Rightarrow> act_return ()
            | result # _ \<Rightarrow>
                act_bind
                  (case result of
                     Inr qos \<Rightarrow>
                       act_bind (establish_subscription E ps) (\<lambda>_. sub_accepted E (ps_topic ps) qos)
                   | Inl _ \<Rightarrow> sub_refused E (ps_topic ps))
                  (\<lambda>wakers. wake (present_wakers wakers)))"
  have m: "holds (?m ps)" for ps
    by (rule holds_lift [where P = "\<lambda>_. True"])
      (auto simp: rs split: list.splits sum.splits unit.splits
        intro!: holds_bind holds_return wake_holds sub_answer_holds establish_subscription_holds)
  show ?thesis
    unfolding holds_def
  proof (rule runs_state)
    fix t assume t: "ok {} t"
    show "runs (\<lambda>s'. s' = t) (process_sub_ack E ack) (\<lambda>_. ok {}) (cut_short out)"
    proof (cases "pending_subs t (sa_packet_id ack)")
      case None
      show ?thesis
        by (rule runs_at [OF holds_return [unfolded holds_def], OF t])
          (simp add: None process_sub_ack_def act_return_def)
    next
      case (Some ps)
      have "ok {} (t\<lparr>pending_subs := (pending_subs t)(sa_packet_id ack := None)\<rparr>)"
        by (rule inv_update [OF t], simp_all)
          (use session_invD(3) [OF t] in \<open>auto simp: kept_def has_timer_def\<close>)
      then show ?thesis
        by (rule runs_at [OF m [unfolded holds_def]]) (simp add: Some process_sub_ack_def)
    qed
  qed
qed

lemma pending_is_packet: "ok X t \<Longrightarrow> pending_packets t i = Some p \<Longrightarrow> is_packet p"
  by (auto simp: session_inv_def kept_def)

text \<open>The answer that is sent again when it is pending already, and created otherwise.\<close>

lemma resend_or_create_holds:
  assumes "\<And>s. \<exists>p. make_arc_packet I s = Inr p \<and> is_packet p" and "it_ty i \<noteq> PT_Subscribe"
    and "holds m"
  shows "holds (act_bind (act_get (\<lambda>t. pending_packets t i)) (\<lambda>pending.
    case pending of
      Some existing \<Rightarrow> queue_internal_packet E existing False
    | None \<Rightarrow> act_bind (lift_res (make_arc_packet I s)) (\<lambda>pkt.
        act_bind (queue_internal_packet_with_timeout E pkt i) (\<lambda>_. m))))"
proof (rule holds_get)
  fix t assume "ok {} t"
  then show "holds (case pending_packets t i of
      Some existing \<Rightarrow> queue_internal_packet E existing False
    | None \<Rightarrow> act_bind (lift_res (make_arc_packet I s)) (\<lambda>pkt.
        act_bind (queue_internal_packet_with_timeout E pkt i) (\<lambda>_. m)))"
    using assms(2,3)
    by (cases "pending_packets t i")
      (auto intro!: queue_holds holds_lift [OF assms(1)] holds_bind with_timeout_holds
        dest: pending_is_packet)
qed

lemma process_publish_holds:
  assumes "packet_ok (IP_Publish msg)"
  shows "holds (process_publish E msg)"
proof -
  obtain topic q where t: "publish_topic msg = (Inr topic :: (io_error, rstr) result)"
    and q: "\<exists>q'. flags_qos (pi_flags (publish_info msg)) = (Inr q' :: (io_error, qos) result) \<and> q' = q"
    using assms by (auto simp: packet_ok_def)
  note d = dispatch_message_holds [OF t]
  have "holds (act_bind (lift_res (make_arc_packet pub_ack_impl (simple_new i))) (\<lambda>pkt.
          act_bind (queue_internal_packet E pkt False) (\<lambda>_. dispatch_message E msg)))" for i
    by (rule holds_lift [OF packets_made(1)]) (intro holds_bind queue_holds d)
  moreover note resend_or_create_holds [OF packets_made(2) _ d,
      where i = "id_pub_rec (pi_packet_id (publish_info msg))"]
  ultimately show ?thesis
    unfolding process_publish_def Let_def
    by (intro holds_lift [OF q]) (auto simp: d id_type_defs split: qos.splits)
qed

lemma process_pub_ack_holds: "holds (process_pub_ack E ack)"
  unfolding process_pub_ack_def
  by (intro holds_bind clear_packet_timeout_holds) (simp add: notify_stage_holds holds_return)

lemma process_pub_comp_holds: "holds (process_pub_comp E ack)"
  unfolding process_pub_comp_def
  by (intro holds_bind clear_packet_timeout_holds) (simp add: notify_stage_holds holds_return)

lemma process_pub_rel_holds: "holds (process_pub_rel E rel)"
  unfolding process_pub_rel_def
  by (intro holds_bind [OF clear_packet_timeout_holds] holds_lift [OF packets_made(4)] queue_holds)

lemma process_pub_rec_holds: "holds (process_pub_rec E rec)"
proof -
  let ?i = "id_pub_rel (sp_packet_id rec)"
  have "holds (act_bind
        (case p of
           Some existing \<Rightarrow> queue_internal_packet E existing False
         | None \<Rightarrow>
             act_bind (lift_res (make_arc_packet pub_rel_impl (simple_new (sp_packet_id rec)))) (\<lambda>pkt.
             queue_internal_packet_with_timeout E pkt ?i)) (\<lambda>_.
      act_bind (clear_packet_timeout (id_publish (sp_packet_id rec))) (\<lambda>cleared.
      if cleared then notify_stage StRec (sp_packet_id rec) else act_return ())))"
    if "ok {} t" "pending_packets t ?i = p" for t p
    using that
    by (intro holds_bind [OF _ holds_bind] clear_packet_timeout_holds)
      (auto simp: notify_stage_holds holds_return id_type_defs split: option.splits
        intro!: queue_holds holds_lift [OF packets_made(3)] with_timeout_holds dest: pending_is_packet)
  then show ?thesis
    unfolding process_pub_rec_def Let_def by (intro holds_get) auto
qed

lemma process_connected_holds:
  assumes "packet_ok pkt"
  shows "holds (process_connected E pkt)"
  using assms
  by (cases pkt)
    (auto simp: packet_ok_def holds_return process_publish_holds process_pub_ack_holds
      process_pub_rec_holds process_pub_rel_holds process_pub_comp_holds
      intro!: process_sub_ack_holds holds_bind clear_packet_timeout_holds)

lemma process_packet_holds:
  assumes "packet_ok pkt"
  shows "holds (process_packet E pkt)"
  unfolding holds_def
proof (rule runs_state)
  fix t assume t: "ok {} t"
  show "runs (\<lambda>s'. s' = t) (process_packet E pkt) (\<lambda>_. ok {}) (cut_short out)"
  proof (cases "connect_sig t")
    case True
    have "ok {} (t\<lparr>connect_sig := False, connect_result := cr\<rparr>)" for cr
      by (rule inv_update [OF t]) (simp_all add: session_invD(3) [OF t])
    then show ?thesis
      by (intro runs_I) (simp add: True process_packet_def Let_def)
  next
    case False
    have "holds (act_bind (process_connected E pkt) (\<lambda>_. act_return False))"
      by (intro holds_bind process_connected_holds assms holds_return)
    from runs_at [OF this [unfolded holds_def] t] show ?thesis
      using False by (simp add: process_packet_def)
  qed
qed

subsection \<open>Readiness\<close>

lemma ok_cut_short: "ok X t \<Longrightarrow> cut_short out t"
  by (auto simp: session_inv_def sending_def cut_short_def wire_def)

lemma check_ready_holds: "holds (check_ready r)"
  unfolding holds_def
  by (rule runsI)
    (auto simp: check_ready_def act_return_def act_fail_def ok_cut_short split: option.splits)

text \<open>A call on the transport that neither reads nor writes.\<close>

lemma transport_holds:
  assumes "keeps out m" and "crash_free m"
  shows "holds (on_transport m)"
  unfolding holds_def
proof (rule runsI)
  fix t r t' assume t: "ok {} t" and "on_transport m t = (r, t')"
  then obtain c where m: "m (transport t) = (r, c)" and t': "t' = t\<lparr>transport := c\<rparr>"
    by (auto simp: act_zoom_eq)
  have "out c = out (transport t)" using keepsD [OF assms(1) m] .
  with t t' have "ok {} t'"
    by (simp add: session_inv_def sending_def outbox_inv_def wire_def kept_def has_timer_def)
  moreover have "(\<exists>a. r = Inr a) \<or> (\<exists>e. r = Inl (Err e))"
    using crash_freeD [OF assms(2) m] by (cases r) (auto simp: no_crash_def split: fault.splits)
  ultimately show "(\<exists>a. r = Inr a \<and> ok {} t') \<or> (\<exists>e. r = Inl (Err e) \<and> cut_short out t')"
    using ok_cut_short by blast
qed

lemma write_ready_holds: "holds (write_ready E r)"
proof -
  let ?m = "\<lambda>t. case continue_writing_packet E t of
       (Inl (Err err), t) \<Rightarrow> if io_kind err \<noteq> WouldBlock then (Inl (Err err), t) else (Inr False, t)
     | (res, t) \<Rightarrow> (res, t)"
  have "holds ?m"
    unfolding holds_def
  proof (rule runsI)
    fix t r t' assume t: "ok {} t" and m: "?m t = (r, t')"
    obtain r1 t1 where c: "continue_writing_packet E t = (r1, t1)" by fastforce
    have k: "kept {} t1" if "io_frame inp t t1"
      using kept_frame [OF that] session_invD(3) [OF t] .
    from session_invD(1) [OF t] c
    show "(\<exists>a. r = Inr a \<and> ok {} t') \<or> (\<exists>e. r = Inl (Err e) \<and> cut_short out t')"
    proof (cases rule: continue_writing_packet_cases)
      case (1 closed)
      then show ?thesis
        using m c k session_invD(2) [OF t] by (auto simp: session_inv_def sending_def)
    next
      case (2 e)
      then show ?thesis
        using m c k session_invD(2) [OF t]
        by (auto simp: session_inv_def sending_def cut_short_def split: if_splits)
    qed
  qed
  then show ?thesis
    unfolding write_ready_def
    by (intro holds_bind check_ready_holds transport_holds others_keep no_crashes)
qed

lemma recv_n_out: "recv_n (en_transport E) n (pr, c) = (r, (pr', c')) \<Longrightarrow> out c' = out c"
  by (auto simp: recv_n_def split: if_splits prod.splits sum.splits dest: keepsD [OF read_out])

lemma recv_out: "recv b (en_transport E) (pr, c) = (r, (pr', c')) \<Longrightarrow> out c' = out c"
  by (auto simp: recv_def split: option.splits if_splits prod.splits sum.splits bool.splits fault.splits
      dest!: recv_n_out)

lemma recv_runs:
  "runs (ok {}) (on_reader (recv (en_cfg_test E) (en_transport E)))
     (\<lambda>x t. ok {} t \<and> (\<forall>pkt. x = Incoming pkt \<longrightarrow> packet_ok pkt)) (ok {})"
proof (rule runsI)
  fix t r t' assume t: "ok {} t" and "on_reader (recv (en_cfg_test E) (en_transport E)) t = (r, t')"
  then obtain pr c where m: "recv False (en_transport E) (rx_pkt t, transport t) = (r, (pr, c))"
    and t': "t' = t\<lparr>rx_pkt := pr, transport := c\<rparr>"
    using release by (auto simp: act_zoom_eq)
  have "reader_inv (rx_pkt t)" using session_invD(3) [OF t] by (simp add: kept_def)
  from recv_refines [OF this m]
  have fs: "frame_spec (unread inp (rx_pkt t, transport t)) r (unread inp (pr, c))" and "reader_inv pr"
    by simp_all
  with t t' recv_out [OF m] have "ok {} t'"
    by (simp add: session_inv_def sending_def outbox_inv_def wire_def kept_def has_timer_def)
  moreover have "packet_ok pkt" if "r = Inr (Incoming pkt)" for pkt
    using fs that from_bytes_packet_ok by (auto simp: frame_spec_def)
  moreover have "(\<exists>a. r = Inr a) \<or> (\<exists>e. r = Inl (Err e))"
    using fs by (auto simp: frame_spec_def split: sum.splits fault.splits)
  ultimately show "(\<exists>a. r = Inr a \<and> ok {} t' \<and> (\<forall>pkt. a = Incoming pkt \<longrightarrow> packet_ok pkt)) \<or>
      (\<exists>e. r = Inl (Err e) \<and> ok {} t')"
    by blast
qed

definition fine :: "(io_error, 'a) result \<times> ('t, 'w) transceiver \<Rightarrow> bool" where
  "fine x = (case x of (Inr _, t) \<Rightarrow> ok {} t | (Inl (Err _), t) \<Rightarrow> cut_short out t | _ \<Rightarrow> False)"

lemma fine_simps [simp]:
  "fine (Inr a, t) = ok {} t" "fine (Inl f, t) = ((\<exists>e. f = Err e) \<and> cut_short out t)"
  by (simp_all add: fine_def split: fault.splits)

lemma holds_fine: "holds m \<Longrightarrow> ok {} t \<Longrightarrow> fine (m t)"
  unfolding holds_def by (cases "m t") (auto elim!: runsD)

lemma read_loop_round:
  assumes IH: "\<And>t y. loop t = Some y \<Longrightarrow> ok {} t \<Longrightarrow> fine y" and t: "ok {} t"
    and "(case on_reader (recv (en_cfg_test E) (en_transport E)) t of
        (Inr (Incoming pkt), t) \<Rightarrow>
          (case process_packet E pkt t of
             (Inl f, t) \<Rightarrow> Some (Inl f, t)
           | (Inr stop, t) \<Rightarrow> if stop then Some (Inr WantStop, t) else loop t)
      | (Inr ConnectionClosed, t) \<Rightarrow> Some (Inr TaskConnectionClosed, t)
      | (Inr NeedMoreData, t) \<Rightarrow> loop t
      | (Inl (Err err), t) \<Rightarrow>
          Some (if io_kind err = WouldBlock then Inr WantContinue else Inl (Err err), t)
      | (Inl f, t) \<Rightarrow> Some (Inl f, t)) = Some y"
  shows "fine y"
proof -
  obtain r t1 where m: "on_reader (recv (en_cfg_test E) (en_transport E)) t = (r, t1)" by fastforce
  from recv_runs t m show ?thesis
  proof (cases rule: runsD)
    case (1 x)
    show ?thesis
    proof (cases x)
      case (Incoming pkt)
      obtain r2 t2 where p: "process_packet E pkt t1 = (r2, t2)" by fastforce
      have "fine (r2, t2)"
        using holds_fine [OF process_packet_holds] 1 Incoming p by metis
      moreover have "(case r2 of Inl f \<Rightarrow> Some (Inl f, t2)
          | Inr stop \<Rightarrow> if stop then Some (Inr WantStop, t2) else loop t2) = Some y"
        using assms(3) m 1 Incoming p by (simp split: sum.splits)
      ultimately show ?thesis
        by (cases r2) (auto dest: IH split: if_splits)
    qed (use assms(3) m 1 in \<open>auto dest: IH\<close>)
  next
    case (2 e)
    then show ?thesis using assms(3) m ok_cut_short by auto
  qed
qed

lemma read_loop_fine:
  assumes "read_loop E t = Some y" and "ok {} t"
  shows "fine y"
proof -
  let ?P = "\<lambda>E' t y. E' = E \<longrightarrow> ok {} t \<longrightarrow> fine y"
  have "?P E t y"
  proof (rule read_loop.raw_induct [of ?P, OF _ assms(1)], intro impI)
    fix loop E' t y
    assume IH: "\<And>E' t y. loop E' t = Some y \<Longrightarrow> ?P E' t y" and E': "E' = E" and t: "ok {} t"
      and body: "(case on_reader (recv (en_cfg_test E') (en_transport E')) t of
        (Inr (Incoming pkt), t) \<Rightarrow>
          (case process_packet E' pkt t of
             (Inl f, t) \<Rightarrow> Some (Inl f, t)
           | (Inr stop, t) \<Rightarrow> if stop then Some (Inr WantStop, t) else loop E' t)
      | (Inr ConnectionClosed, t) \<Rightarrow> Some (Inr TaskConnectionClosed, t)
      | (Inr NeedMoreData, t) \<Rightarrow> loop E' t
      | (Inl (Err err), t) \<Rightarrow>
          Some (if io_kind err = WouldBlock then Inr WantContinue else Inl (Err err), t)
      | (Inl f, t) \<Rightarrow> Some (Inl f, t)) = Some y"
    show "fine y"
      by (rule read_loop_round [OF _ t body [unfolded E']]) (use IH in blast)
  qed
  with assms(2) show ?thesis by simp
qed

lemma read_ready_fine:
  assumes "read_ready E r t = Some y" and "ok {} t"
  shows "fine y"
proof -
  let ?m = "act_bind (check_ready r) (\<lambda>_. on_transport (t_pre_read (en_transport E)))"
  obtain r1 t1 where m: "?m t = (r1, t1)" by fastforce
  have "holds ?m" by (intro holds_bind check_ready_holds transport_holds others_keep no_crashes)
  from holds_fine [OF this assms(2)] m have f: "fine (r1, t1)" by simp
  show ?thesis
    using assms(1) m f read_loop_fine [of t1]
    by (cases r1) (auto simp: read_ready_def split: bool.splits fault.splits)
qed

subsection \<open>Commands\<close>

text \<open>A command is only received while nothing is being transmitted.\<close>

definition idle :: "('t, 'w) transceiver \<Rightarrow> bool" where
  "idle t = (ok {} t \<and> tx_pkt t = None)"

lemma holds_idle: "holds m \<Longrightarrow> runs idle m (\<lambda>_. ok {}) (cut_short out)"
  unfolding holds_def by (erule runs_weaken) (simp_all add: idle_def)

lemma command_publish_runs:
  assumes "is_packet (pc_packet cmd)"
  shows "runs idle (command_publish E cmd) (\<lambda>_. ok {}) (cut_short out)"
proof -
  have "runs idle (try_send_packet E (pc_packet cmd) False) (\<lambda>_. ok {}) (cut_short out)"
    by (rule runs_weaken [OF try_send_runs [OF assms, where K = "\<lambda>_. True" and X = "{}"]])
      (simp_all add: idle_def)
  then show ?thesis
    using holds_idle [OF with_timeout_holds [OF assms]]
    by (cases "pc_qos cmd") (simp_all add: command_publish_def id_type_defs)
qed

lemma new_subscription_runs:
  assumes "length (sc_topic cmd) < 2 ^ 16"
  shows "runs idle
     (act_bind fetch_id (\<lambda>packet_id.
      act_bind (lift_res (make_arc_packet subscribe_impl
          \<lparr>sub_packet_id = packet_id, sub_topics = [(sc_topic cmd, sc_qos cmd)]\<rparr>)) (\<lambda>pkt.
      act_bind (act_modify (\<lambda>t. t\<lparr>pending_subs := (pending_subs t)(packet_id \<mapsto>
          \<lparr>ps_topic = sc_topic cmd, ps_kind = sc_kind cmd, ps_packet = pkt\<rparr>)\<rparr>)) (\<lambda>_.
      act_bind (try_send_packet E pkt False) (\<lambda>_.
      act_bind (timeout_now E (id_subscribe packet_id)) push_timeout)))))
     (\<lambda>_. ok {}) (cut_short out)"
proof (rule runs_bind)
  have "ok {} (t\<lparr>shared := sh\<rparr>)" if "ok {} t" for t sh
    by (rule inv_update [OF that]) (simp_all add: session_invD(3) [OF that])
  then show "runs idle fetch_id (\<lambda>_. idle) (cut_short out)"
    by (intro runs_I) (auto simp: idle_def fetch_id_def fetch_packet_id_def)
next
  fix i
  obtain p where mk: "make_arc_packet subscribe_impl
      \<lparr>sub_packet_id = i, sub_topics = [(sc_topic cmd, sc_qos cmd)]\<rparr> = Inr p" and p: "is_packet p"
    using topic_packets_made(1) [OF assms] by blast
  let ?X = "{id_subscribe i}"
  let ?f = "\<lambda>t. t\<lparr>pending_subs := (pending_subs t)(i \<mapsto>
      \<lparr>ps_topic = sc_topic cmd, ps_kind = sc_kind cmd, ps_packet = p\<rparr>)\<rparr>"
  have f: "ok ?X (?f t)" if "ok {} t" for t
    by (rule inv_update [OF that], simp_all)
      (use session_invD(3) [OF that] p in \<open>auto simp: kept_def has_timer_def\<close>)
  have "runs idle (act_modify ?f) (\<lambda>_ t. ok ?X t \<and> True \<and> tx_pkt t = None) (cut_short out)"
    using f by (intro runs_modify) (simp add: idle_def)
  moreover have "runs (\<lambda>t. ok ?X t \<and> True) (act_bind (timeout_now E (id_subscribe i)) push_timeout)
      (\<lambda>_. ok {}) (cut_short out)"
    using push_timeout_runs [where X = ?X and K = "\<lambda>_. True" and i = "id_subscribe i"] by simp
  ultimately have "runs idle (act_bind (act_modify ?f) (\<lambda>_. act_bind (try_send_packet E p False) (\<lambda>_.
      act_bind (timeout_now E (id_subscribe i)) push_timeout))) (\<lambda>_. ok {}) (cut_short out)"
    by (intro runs_bind [OF _ runs_bind [OF try_send_runs [OF p]]]) auto
  then show "runs idle
     (act_bind (lift_res (make_arc_packet subscribe_impl
          \<lparr>sub_packet_id = i, sub_topics = [(sc_topic cmd, sc_qos cmd)]\<rparr>)) (\<lambda>pkt.
      act_bind (act_modify (\<lambda>t. t\<lparr>pending_subs := (pending_subs t)(i \<mapsto>
          \<lparr>ps_topic = sc_topic cmd, ps_kind = sc_kind cmd, ps_packet = pkt\<rparr>)\<rparr>)) (\<lambda>_.
      act_bind (try_send_packet E pkt False) (\<lambda>_.
      act_bind (timeout_now E (id_subscribe i)) push_timeout))))
     (\<lambda>_. ok {}) (cut_short out)"
    by (rule runs_lift [OF mk])
qed

lemma command_subscribe_runs:
  assumes "length (sc_topic cmd) < 2 ^ 16"
  shows "runs idle (command_subscribe E cmd) (\<lambda>_. ok {}) (cut_short out)"
proof (rule runs_state)
  fix t assume t: "idle t"
  let ?f = "\<lambda>sub. if is_subscribed sub
      then (case (sub_add (en_cfg_test E) (sc_kind cmd) sub :: (io_error, unit) result \<times> subscription) of
              (r, sub) \<Rightarrow> (Some r, sub))
      else (None, sub)"
  have f: "fst (?f sub) \<in> {None, Some (Inr ())} \<and> sub_ok (snd (?f sub))" if s: "sub_ok sub" for sub
  proof (cases "is_subscribed sub")
    case True
    then obtain sub' where "sub_add False (sc_kind cmd) sub = (Inr () :: (io_error, unit) result, sub')"
      "sub_ok sub'"
      using sub_ok_add [OF s, where ?'e = io_error] by (auto simp: is_subscribed_def)
    with True release show ?thesis by simp
  qed (simp add: s)
  have tree: "tree_ok (subscriptions t)"
    using t kept_tree session_invD(3) unfolding idle_def by blast
  obtain r root where g: "get (sc_topic cmd) ?f (subscriptions t) = (r, root)" by fastforce
  have root: "tree_ok root" by (rule tree_ok_get [OF tree g]) (simp add: f)
  then have t1: "idle (t\<lparr>subscriptions := root\<rparr>)"
    using t kept_subscriptions unfolding idle_def
    by (auto simp: session_inv_def sending_def outbox_inv_def wire_def)
  have a: "a \<in> {None, Some (Inr ())}" if "r = Inr (Some a)" for a
    using get_from_spec [OF g [unfolded get_def], THEN conjunct1] that f tree
    by (auto simp: tree_ok_def)
  consider "r = Inr (Some (Some (Inr ())))" | "r = Inr None \<or> r = Inr (Some None)" | "r = Inl ()"
    using a by (cases r) (auto, metis option.exhaust)
  then show "runs (\<lambda>s'. s' = t) (command_subscribe E cmd) (\<lambda>_. ok {}) (cut_short out)"
  proof cases
    case 2
    show ?thesis
      by (rule runs_at [OF new_subscription_runs [OF assms] t1])
        (use 2 g in \<open>auto simp: command_subscribe_def\<close>)
  qed (use g t1 in \<open>auto intro!: runs_I simp: command_subscribe_def idle_def\<close>)
qed

lemma command_unsub_holds:
  assumes "length (uc_topic cmd) < 2 ^ 16"
  shows "holds (command_unsub E cmd)"
  unfolding holds_def
proof (rule runs_state)
  fix t assume t: "ok {} t"
  have tree: "tree_ok (subscriptions t)" using kept_tree [OF session_invD(3) [OF t]] .
  have upd: "ok {} (t\<lparr>subscriptions := root\<rparr>)" if "tree_ok root" for root
    by (rule inv_update [OF t]) (simp_all add: kept_subscriptions that session_invD(3) [OF t])
  show "runs (\<lambda>s'. s' = t) (command_unsub E cmd) (\<lambda>_. ok {}) (cut_short out)"
  proof (cases "uc_kind cmd")
    case (UnsubFastCallback i)
    obtain r root where g: "get (uc_topic cmd) (\<lambda>sub. ((), remove_fast_callback i sub)) (subscriptions t)
        = (r, root)" by fastforce
    have "tree_ok root" by (rule tree_ok_get [OF tree g]) (simp add: sub_ok_remove_callback)
    with upd show ?thesis
      using UnsubFastCallback g by (intro runs_I) (simp add: command_unsub_def)
  next
    case Immediate
    let ?f = "\<lambda>sub. if is_subscribed sub then (True, sub_clear sub) else (False, sub)"
    obtain r' root where g': "get (uc_topic cmd) ?f (subscriptions t) = (r', root)" by fastforce
    have "tree_ok root" by (rule tree_ok_get [OF tree g']) (simp add: sub_ok_clear)
    note t1 = upd [OF this]
    show ?thesis
    proof (cases "r' = Inr (Some True)")
      case True
      then have g: "set_clear (uc_topic cmd) (subscriptions t) = (Inr True, root)"
        using g' by (simp add: set_clear_def)
      show ?thesis
        by (rule runs_at [OF unsub_immediate_holds [OF assms, unfolded holds_def] t1])
          (simp add: command_unsub_def Immediate g)
    next
      case False
      then have "set_clear (uc_topic cmd) (subscriptions t) \<in> {(Inl (), root), (Inr False, root)}"
        using g' by (simp add: set_clear_def split: sum.splits option.splits bool.splits unit.splits)
      then have "command_unsub E cmd t = (Inr (), t\<lparr>subscriptions := root\<rparr>)"
        using Immediate by (auto simp: command_unsub_def)
      with t1 show ?thesis by (intro runs_I) simp
    qed
  qed
qed

lemma command_ready_runs:
  assumes "event_ok (CommandRecv cmd)"
  shows "runs idle (command_ready E cmd) (\<lambda>_. ok {}) (cut_short out)"
proof (cases cmd)
  case None
  have "holds (act_modify (\<lambda>t. t\<lparr>cmd_queue_closed := True\<rparr>))"
    by (rule holds_pure) (simp add: act_modify_def)
  then show ?thesis
    using None holds_idle [OF holds_bind [OF _ holds_return]] by simp
next
  case (Some c)
  have ret: "runs (ok {}) (act_return WantContinue) (\<lambda>_. ok {}) (cut_short out)"
    by (rule runs_return)
  show ?thesis
  proof (cases c)
    case (CmdPublish cmd)
    with Some assms show ?thesis by (simp add: runs_bind [OF command_publish_runs ret])
  next
    case (CmdSubscribe cmd)
    with Some assms show ?thesis by (simp add: runs_bind [OF command_subscribe_runs ret])
  next
    case (CmdUnsub cmd)
    with Some assms show ?thesis
      by (simp add: runs_bind [OF holds_idle [OF command_unsub_holds] ret])
  next
    case CmdDisconnect
    with Some show ?thesis using holds_idle [OF holds_return] by simp
  qed
qed

subsection \<open>The alarm\<close>

lemma resend_packet_runs:
  "runs (\<lambda>t. ok {to_packet_id to} t \<and> timeout_queue t = q) (resend_packet E to)
     (\<lambda>_ t. ok {} t \<and> length q \<le> length (timeout_queue t)) (cut_short out)"
proof (rule runs_state)
  fix t assume t: "ok {to_packet_id to} t \<and> timeout_queue t = q"
  let ?i = "to_packet_id to"
  let ?p = "if it_ty ?i = PT_Subscribe then map_option ps_packet (pending_subs t (it_id ?i))
      else pending_packets t ?i"
  show "runs (\<lambda>s'. s' = t) (resend_packet E to) (\<lambda>_ t. ok {} t \<and> length q \<le> length (timeout_queue t))
      (cut_short out)"
  proof (cases ?p)
    case None
    have "j \<noteq> ?i" if "pending_packets t j = Some p" for j p
      using that None t by (auto simp: session_inv_def kept_def split: if_splits)
    moreover have "id_subscribe j \<noteq> ?i" if "pending_subs t j = Some p" for j p
    proof
      assume i: "id_subscribe j = ?i"
      from that None show False
        unfolding i [symmetric] by (simp add: id_subscribe_def)
    qed
    ultimately have "kept {} t"
      using session_invD(3) [OF conjunct1 [OF t]] unfolding kept_def has_timer_def by blast
    then have "ok {} t" by (rule inv_update [OF conjunct1 [OF t] refl refl refl])
    with None t show ?thesis by (intro runs_I) (simp add: resend_packet_def)
  next
    case (Some p)
    then have p: "is_packet p"
      using t by (auto simp: session_inv_def kept_def split: if_splits)
    have "runs (\<lambda>t. ok {?i} t \<and> timeout_queue t = q)
        (act_bind (queue_internal_packet E p (it_ty ?i = PT_Publish)) (\<lambda>_.
         act_bind (timeout_refresh E to) push_timeout))
        (\<lambda>_ t. ok {} t \<and> length q \<le> length (timeout_queue t)) (cut_short out)"
    proof (rule runs_bind [OF queue_runs [OF p]])
      fix t t' :: "('t, 'w) transceiver"
      show "io_frame inp t t' \<Longrightarrow> timeout_queue t = q \<Longrightarrow> timeout_queue t' = q"
        unfolding io_frame_def by (cases t, cases t') simp
    next
      show "runs (\<lambda>t. ok {?i} t \<and> timeout_queue t = q) (act_bind (timeout_refresh E to) push_timeout)
          (\<lambda>_ t. ok {} t \<and> length q \<le> length (timeout_queue t)) (cut_short out)"
        by (rule runs_weaken [OF refresh_timeout_runs]) auto
    qed
    from runs_at [OF this t] show ?thesis using Some by (simp add: resend_packet_def)
  qed
qed

lemma alarm_loop_runs:
  "runs (\<lambda>t. ok {} t \<and> n \<le> length (timeout_queue t)) (alarm_loop E n) (\<lambda>_. ok {}) (cut_short out)"
proof (induction n)
  case 0
  show ?case by (rule runs_I) simp
next
  case (Suc n)
  show ?case
  proof (rule runs_state)
    fix t assume t: "ok {} t \<and> Suc n \<le> length (timeout_queue t)"
    then obtain to rest where q: "timeout_queue t = to # rest" by (cases "timeout_queue t") auto
    let ?t1 = "t\<lparr>clock_reads := clock_reads t + 1\<rparr>"
    let ?t2 = "?t1\<lparr>timeout_queue := rest\<rparr>"
    note k = session_invD(3) [OF conjunct1 [OF t]]
    have t1: "ok {} ?t1" by (rule inv_update [OF conjunct1 [OF t]]) (simp_all add: k)
    have t2: "ok {to_packet_id to} ?t2 \<and> timeout_queue ?t2 = rest"
      using kept_timers [OF k, of "{to_packet_id to}" ?t2] q
      by (intro conjI inv_update [OF conjunct1 [OF t]]) (auto simp: has_timer_def)
    have "runs (\<lambda>t. ok {to_packet_id to} t \<and> timeout_queue t = rest)
        (act_bind (resend_packet E to) (\<lambda>_. alarm_loop E n)) (\<lambda>_. ok {}) (cut_short out)"
      by (rule runs_bind [OF resend_packet_runs], rule runs_weaken [OF Suc.IH]) (use t q in auto)
    from runs_at [OF this t2]
    have resend: "runs (\<lambda>s'. s' = t) (\<lambda>_. act_bind (resend_packet E to) (\<lambda>_. alarm_loop E n) ?t2)
        (\<lambda>_. ok {}) (cut_short out)" by simp
    show "runs (\<lambda>s'. s' = t) (alarm_loop E (Suc n)) (\<lambda>_. ok {}) (cut_short out)"
    proof (cases "en_clock E (clock_reads t) - to_t to < packet_resend_delay t")
      case True
      with t1 q show ?thesis
        by (intro runs_I) (simp add: act_bind_def instant_now_def)
    next
      case False
      from runs_at [OF resend refl] show ?thesis
        using False q by (simp add: act_bind_def [of "instant_now E"] instant_now_def)
    qed
  qed
qed

lemma bind_now:
  "act_bind (instant_now E) k t = k (en_clock E (clock_reads t)) (t\<lparr>clock_reads := clock_reads t + 1\<rparr>)"
  by (simp add: act_bind_def instant_now_def)

lemma alarm_tick_holds: "holds (alarm_tick E)"
  unfolding holds_def
proof (rule runs_state)
  fix t assume t: "ok {} t"
  note k = session_invD(3) [OF t]
  let ?t1 = "t\<lparr>clock_reads := clock_reads t + 1\<rparr>"
  have t1: "ok {} ?t1" by (rule inv_update [OF t]) (simp_all add: k)
  have p: "is_packet (ping_req t)" using k by (simp add: kept_def)
  have loop: "runs (ok {}) (\<lambda>t. alarm_loop E (length (timeout_queue t)) t) (\<lambda>_. ok {}) (cut_short out)"
  proof (rule runs_state)
    fix t assume "ok {} t"
    then show "runs (\<lambda>s'. s' = t) (\<lambda>t. alarm_loop E (length (timeout_queue t)) t) (\<lambda>_. ok {}) (cut_short out)"
      by (intro runs_at [OF alarm_loop_runs [of "length (timeout_queue t)"], of t]) simp_all
  qed
  have "runs (ok {}) (act_bind (instant_now E) (\<lambda>now. act_bind (act_modify (\<lambda>t. t\<lparr>last_tx := now\<rparr>)) (\<lambda>_.
      queue_internal_packet E (ping_req t) False))) (\<lambda>_. ok {}) (cut_short out)"
    unfolding holds_def [symmetric]
    by (intro holds_bind queue_holds p holds_pure) (simp_all add: instant_now_def act_modify_def)
  then have "runs (ok {}) (act_bind
      (if b then act_bind (instant_now E) (\<lambda>now. act_bind (act_modify (\<lambda>t. t\<lparr>last_tx := now\<rparr>)) (\<lambda>_.
         queue_internal_packet E (ping_req t) False)) else act_return ())
      (\<lambda>_ t. alarm_loop E (length (timeout_queue t)) t)) (\<lambda>_. ok {}) (cut_short out)" for b
    by (intro runs_bind [OF _ loop]) (simp add: runs_return)
  note connected = runs_at [OF this t1, where s = t and m' = "alarm_tick E"]
  show "runs (\<lambda>s'. s' = t) (alarm_tick E) (\<lambda>_. ok {}) (cut_short out)"
  proof (cases "connected t")
    case True
    show ?thesis
      by (rule connected [of "ping_interval t \<le> en_clock E (clock_reads t) - last_tx t"])
        (simp only: alarm_tick_def True if_True bind_now [where t = t], simp)
  next
    case False
    with t show ?thesis by (intro runs_I) (simp add: alarm_tick_def)
  qed
qed

subsection \<open>The main loop\<close>

lemma task_step_fine:
  assumes "task_step E ev t = Some y" and "ok {} t" and "event_ok ev" and "event_enabled E ev t"
  shows "fine y"
proof (cases ev)
  case (WriteReady r)
  have "holds (act_bind (write_ready E r)
      (\<lambda>closed. act_return (if closed then TaskConnectionClosed else WantContinue)))"
    by (intro holds_bind write_ready_holds holds_return)
  with WriteReady assms(1,2) show ?thesis by (auto simp: task_step_def dest: holds_fine)
next
  case (ReadReady r)
  with assms(1,2) read_ready_fine show ?thesis by (simp add: task_step_def)
next
  case (CommandRecv cmd)
  then have "idle t" using assms(2,4) by (simp add: event_enabled_def idle_def Let_def)
  obtain r t' where c: "command_ready E cmd t = (r, t')" by fastforce
  from command_ready_runs [OF assms(3) [unfolded CommandRecv]] \<open>idle t\<close> c show ?thesis
    using assms(1) CommandRecv c by (cases rule: runsD) (auto simp: task_step_def)
next
  case AlarmTick
  have "holds (act_bind (alarm_tick E) (\<lambda>_. act_return WantContinue))"
    by (intro holds_bind alarm_tick_holds holds_return)
  with AlarmTick assms(1,2) show ?thesis by (auto simp: task_step_def dest: holds_fine)
qed

lemma step_loop_ok:
  assumes "ok {} t" and "list_all event_ok evs" and "step_loop E evs t = (x, t', rest)"
  shows "case x of
      Finished r \<Rightarrow> fine (r, t') \<and> list_all event_ok rest
    | _ \<Rightarrow> ok {} t'"
  using assms
proof (induction evs arbitrary: t)
  case (Cons ev evs)
  show ?case
  proof (cases "event_enabled E ev t")
    case True
    show ?thesis
    proof (cases "task_step E ev t")
      case None
      with True Cons.prems show ?thesis by auto
    next
      case (Some y)
      obtain r t1 where y: "y = (r, t1)" by fastforce
      have "fine (r, t1)" using task_step_fine [OF Some] Cons.prems True y by simp
      then show ?thesis
        using Cons.IH [of t1] Cons.prems True Some y
        by (cases r) (auto split: task_state.splits)
    qed
  qed (use Cons in auto)
qed auto

lemma run_task_loop_ok:
  assumes "kept {} t" and "whole_packets (out (transport t))" and "internal_pkt_queue t = []"
    and "tx_pkt t = Some \<lparr>tx_bytes = pkt, tx_pos = 0, tx_set_dup = False\<rparr>" and "is_packet pkt"
    and "list_all event_ok evs" and "run_task_loop E evs t = (x, t', rest)"
  shows "case x of
      Finished r \<Rightarrow> fine (r, t') \<and> list_all event_ok rest
    | _ \<Rightarrow> ok {} t'"
proof -
  let ?t = "t\<lparr>tx_pkt := None\<rparr>"
  have "ok {} ?t"
    using assms(1-3) by (simp add: session_inv_def sending_def outbox_inv_def wire_def kept_def has_timer_def)
  then have *: "ok {} ?t \<and> True \<and> tx_pkt ?t = None" by simp
  obtain r1 t1 where s: "try_send_packet E pkt False ?t = (r1, t1)" by fastforce
  from try_send_runs [OF assms(5), where K = "\<lambda>_. True"] * s show ?thesis
    using assms(4,6,7) s step_loop_ok [of t1 evs x t' rest]
    by (cases rule: runsD) (auto simp: run_task_loop_def)
qed

end

section \<open>Clients over TCP and TLS\<close>

locale tcp_client = tcp_socket S c_inp c_out
  for S :: "'c tcp_stream" and c_inp :: "'c \<Rightarrow> u8 list" and c_out :: "'c \<Rightarrow> u8 list" +
  fixes E :: "('c tcp_transport, 'w) env"
  assumes tcp_env: "en_transport E = tcp_transport_ops S" "\<not> en_cfg_test E"

sublocale tcp_client \<subseteq> session E "\<lambda>t. c_inp (tcp t)" "\<lambda>t. c_out (tcp t)"
  by (intro session.intro connection.intro session_axioms.intro)
    (simp_all add: tcp_env tcp.transport_contract_axioms)

locale tls_client = tls_session C S s_inp s_out
  for C :: "('s, 'c) tls_connection" and S :: "'c tcp_stream"
    and s_inp :: "'s \<times> 'c \<Rightarrow> u8 list" and s_out :: "'s \<Rightarrow> u8 list" +
  fixes E :: "(('s, 'c) tls_transport, 'w) env"
  assumes tls_env: "en_transport E = tls_transport_ops C S" "\<not> en_cfg_test E"

sublocale tls_client \<subseteq> session E t_inp t_out
  by (intro session.intro connection.intro session_axioms.intro)
    (simp_all add: tls_env tls.transport_contract_axioms)

text \<open>An environment over the scripted socket, with a clock that gains a second per reading.\<close>

definition script_env :: "(script tcp_transport, (handle \<times> incoming_publish_packet) list) env" where
  "script_env =
     \<lparr>en_transport = tcp_transport_ops script_tcp, en_sinks = log_sinks,
      en_clock = (\<lambda>n. n * 1000000000), en_cfg_test = False, en_debug_assertions = True\<rparr>"

interpretation scripted_client: tcp_client script_tcp script_inp sc_out script_env
  by unfold_locales (simp_all add: script_env_def)

definition null_tls_env ::
    "((null_tls, script) tls_transport, (handle \<times> incoming_publish_packet) list) env" where
  "null_tls_env =
     \<lparr>en_transport = tls_transport_ops null_tls_connection script_tcp, en_sinks = log_sinks,
      en_clock = (\<lambda>n. n * 1000000000), en_cfg_test = False, en_debug_assertions = True\<rparr>"

interpretation null_tls_client: tls_client null_tls_connection script_tcp
    "\<lambda>(s, c). nt_rx s @ script_inp c" nt_out null_tls_env
  by unfold_locales (simp_all add: null_tls_env_def)

end
