(* ===== verification/Transceiver_Properties.thy ===== *)
theory Transceiver_Properties
  imports Session
begin

unbundle bit_operations_syntax

text \<open>
  The invariant of the transceiver task, and the order and integrity of what it sends.
\<close>

section \<open>The start of the task\<close>

lemma spawn_session_inv:
  assumes "spawn_state E tr pkt ping sh delay w = Inr t" and "is_packet pkt" and "whole_packets (out tr)"
  shows "session_inv out {} t \<and> kept {} t \<and> out (transport t) = out tr \<and> internal_pkt_queue t = [] \<and>
    tx_pkt t = Some \<lparr>tx_bytes = pkt, tx_pos = 0, tx_set_dup = False\<rparr>"
proof -
  obtain p where p: "make_arc_packet ping_req_impl () = Inr p" "is_packet p"
    using packets_made(6) by blast
  have "wire out t = out tr @ pkt" "outbox_inv t"
    using assms(1,2) p is_packet_not_Nil [OF assms(2)]
    by (auto simp: spawn_state_def wire_def tx_rest_def outbox_inv_def tx_ok_def)
  then have "sending out t"
    using whole_packets_append [OF assms(3,2)] by (simp add: sending_def)
  moreover have "kept {} t"
    using assms(1) p by (auto simp: spawn_state_def kept_def packet_reader_default_def
        reader_inv_def tree_ok_def)
  ultimately show ?thesis
    using assms(1) p by (auto simp: spawn_state_def session_inv_def)
qed

text \<open>A client over the scripted socket, with a CONNECT packet without payload to send.\<close>

definition client_start ::
    "u8 list option list \<Rightarrow> nat option list \<Rightarrow>
     (script tcp_transport, (handle \<times> incoming_publish_packet) list) transceiver" where
  "client_start rds wrs =
     (case spawn_state script_env (tcp_transport_new \<lparr>sc_reads = rds, sc_writes = wrs, sc_out = []\<rparr>)
             [0x10, 0] 60000000000 client_shared_new 5000000000 [] of
        Inr t \<Rightarrow> t)"

lemma spawn_client_start:
  "spawn_state script_env (tcp_transport_new \<lparr>sc_reads = rds, sc_writes = wrs, sc_out = []\<rparr>)
     [0x10, 0] 60000000000 client_shared_new 5000000000 [] = Inr (client_start rds wrs)"
  using packets_made(6) by (auto simp: client_start_def spawn_state_def)

lemma client_start_inv: "session_inv (\<lambda>t. sc_out (tcp t)) {} (client_start rds wrs)"
proof -
  have "is_packet [0x10, 0]" by code_simp
  moreover have "whole_packets []" unfolding whole_packets_def by (rule exI [of _ "[]"]) simp
  ultimately show ?thesis
    using spawn_session_inv [OF spawn_client_start] by (simp add: tcp_transport_new_def)
qed

section \<open>The invariant\<close>




text \<open>A connection on which the broker accepts and sends nothing else for the moment.\<close>

definition accepted :: "u8 list option list" where
  "accepted = [Some [0x20, 2, 0, 0], None]"


section \<open>Sending\<close>

text \<open>
  C12. The sending side is a queue of packets: whatever is being transmitted at the moment,
  \<open>queue_internal_packet\<close> appends the packet, with its DUP flag set when asked for, to what
  has been and will be sent, or fails with an error other than \<open>WouldBlock\<close> after a part of
  it; it never panics.
\<close>

theorem queue_internal_packet_appends:
  assumes "transport_contract (en_transport E) inp out" and "outbox_inv t" and "bytes \<noteq> []"
    and "queue_internal_packet E bytes dup t = (r, t')"
  shows "case r of
      Inr _ \<Rightarrow> outbox_inv t' \<and> wire out t' = wire out t @ render bytes dup
    | Inl (Err e) \<Rightarrow> io_kind e \<noteq> WouldBlock \<and>
        prefix (out (transport t')) (wire out t @ render bytes dup)
    | _ \<Rightarrow> False"
  by (rule connection.queue_internal_packet_cases [OF connection.intro [OF assms(1)] assms(3,2,4)]) auto

theorem queue_internal_packet_appends_witness:
  "\<exists>t'. queue_internal_packet script_env [0x32, 2, 7, 9] True ((client_start [] [Some 1, Some 2])\<lparr>tx_pkt := None\<rparr>)
       = (Inr (), t') \<and>
     wire (\<lambda>t. sc_out (tcp t)) t' = [0x3A, 2, 7, 9] \<and> sc_out (tcp (transport t')) = [0x3A, 2, 7]"
proof -
  let ?t = "(client_start [] [Some 1, Some 2])\<lparr>tx_pkt := None\<rparr>"
  have "(\<lambda>(r, t'). (r, sc_out (tcp (transport t')))) (queue_internal_packet script_env [0x32, 2, 7, 9] True ?t)
      = (Inr (), [0x3A, 2, 7])"
    by code_simp
  then obtain t' where q: "queue_internal_packet script_env [0x32, 2, 7, 9] True ?t = (Inr (), t')"
    and o: "sc_out (tcp (transport t')) = [0x3A, 2, 7]" by (auto split: prod.splits)
  have c: "transport_contract (en_transport script_env) (\<lambda>t. script_inp (tcp t)) (\<lambda>t. sc_out (tcp t))"
    by (rule scripted_client.transport_contract_axioms)
  have i: "outbox_inv ?t" by code_simp
  have w: "wire (\<lambda>t. sc_out (tcp t)) ?t = []" "render [0x32, 2, 7, 9] True = [0x3A, 2, 7, 9]"
    by code_simp+
  from queue_internal_packet_appends [OF c i _ q] q o w show ?thesis by simp
qed

text \<open>
  C11. Resuming the transmission loses, repeats and reorders nothing:
  \<open>continue_writing_packet\<close> always returns, sends from the front of what is still to be sent
  and leaves the rest. When it reports that the connection is still open, everything
  has been sent; when the transport would block, the rest is kept for the next time.
\<close>

theorem continue_writing_packet_sends_in_order:
  assumes "transport_contract (en_transport E) inp out" and "outbox_inv t"
  shows "case continue_writing_packet E t of
      (Inr closed, t') \<Rightarrow> outbox_inv t' \<and> wire out t' = wire out t \<and>
        (closed \<or> out (transport t') = wire out t)
    | (Inl (Err e), t') \<Rightarrow> prefix (out (transport t')) (wire out t) \<and>
        (io_kind e \<noteq> WouldBlock \<or> outbox_inv t' \<and> wire out t' = wire out t)
    | _ \<Rightarrow> False"
proof -
  obtain r t' where c: "continue_writing_packet E t = (r, t')" by fastforce
  show ?thesis
    by (rule connection.continue_writing_packet_cases [OF connection.intro [OF assms(1)] assms(2) c])
      (use c in auto)
qed

theorem continue_writing_packet_sends_in_order_witness:
  "\<exists>t'. continue_writing_packet script_env (client_start [] [Some 1, None]) = (Inl (Err would_block), t') \<and>
     sc_out (tcp (transport t')) = [0x10] \<and> wire (\<lambda>t. sc_out (tcp t)) t' = [0x10, 0]"
proof -
  let ?t = "client_start [] [Some 1, None]"
  have "(\<lambda>(r, t'). (r, sc_out (tcp (transport t')))) (continue_writing_packet script_env ?t)
      = (Inl (Err would_block), [0x10])"
    by code_simp
  then obtain t' where q: "continue_writing_packet script_env ?t = (Inl (Err would_block), t')"
    and o: "sc_out (tcp (transport t')) = [0x10]" by (auto split: prod.splits)
  have c: "transport_contract (en_transport script_env) (\<lambda>t. script_inp (tcp t)) (\<lambda>t. sc_out (tcp t))"
    by (rule scripted_client.transport_contract_axioms)
  have i: "outbox_inv ?t" by code_simp
  have w: "wire (\<lambda>t. sc_out (tcp t)) ?t = [0x10, 0]" by code_simp
  from continue_writing_packet_sends_in_order [OF c i] q o w show ?thesis by simp
qed

end
