(* ===== verification/Protocol_Properties.thy ===== *)
theory Protocol_Properties
  imports Transceiver_Properties
begin

unbundle bit_operations_syntax

text \<open>
  What the transceiver promises about publications, subscriptions and the futures that await
  them.
\<close>

section \<open>Sending changes the sending side only\<close>

definition io_change :: "('t, 'w) transceiver \<Rightarrow> ('t, 'w) transceiver \<Rightarrow> bool" where
  "io_change t t' =
     (t' = t\<lparr>transport := transport t', tx_pkt := tx_pkt t',
             internal_pkt_queue := internal_pkt_queue t'\<rparr>)"

definition only_io :: "('t, 'w, 'a) meth \<Rightarrow> bool" where
  "only_io m = (\<forall>t. io_change t (snd (m t)))"

lemma io_change_refl [simp]:
  "io_change t t" "io_change t (t\<lparr>transport := c\<rparr>)" "io_change t (t\<lparr>tx_pkt := tx\<rparr>)"
  "io_change t (t\<lparr>internal_pkt_queue := q\<rparr>)"
  by (simp_all add: io_change_def)

lemma io_change_trans: "io_change t t1 \<Longrightarrow> io_change t1 t2 \<Longrightarrow> io_change t t2"
  unfolding io_change_def by (cases t, cases t1, cases t2) simp

lemma io_changeE:
  assumes "io_change t t'"
  obtains c tx q where "t' = t\<lparr>transport := c, tx_pkt := tx, internal_pkt_queue := q\<rparr>"
  using assms unfolding io_change_def by blast

lemma only_ioD: "only_io m \<Longrightarrow> m t = (r, t') \<Longrightarrow> io_change t t'"
  unfolding only_io_def by (metis snd_conv)

lemma only_io_bind:
  assumes "only_io m" and "\<And>a. only_io (k a)"
  shows "only_io (act_bind m k)"
  unfolding only_io_def
proof
  fix t
  obtain r1 t1 where m: "m t = (r1, t1)" by fastforce
  note t1 = only_ioD [OF assms(1) m]
  show "io_change t (snd (act_bind m k t))"
  proof (cases r1)
    case (Inr a)
    have "io_change t1 (snd (k a t1))" using assms(2) by (simp add: only_io_def)
    with t1 m Inr show ?thesis by (auto simp: act_bind_def intro: io_change_trans)
  qed (use m t1 in \<open>simp add: act_bind_def\<close>)
qed

lemma only_io_simple:
  "only_io (act_return a)" "only_io (act_fail f)" "only_io (on_transport n)"
  "only_io (act_modify (\<lambda>t. t\<lparr>tx_pkt := tx\<rparr>))" "only_io (lift_res res)"
  by (auto simp: only_io_def act_simps act_zoom_def lift_res_def split: prod.splits)

lemma only_io_write: "only_io (write_dup_byte E p z)" "only_io (write_from E p n z)"
  by (auto simp: write_dup_byte_def write_from_def only_io_simple split: list.splits)

lemma try_send_packet_only_io: "only_io (try_send_packet E p dup)"
proof -
  have "only_io (act_bind
          (if dup
           then act_bind (write_dup_byte E p True) (\<lambda>written.
             if 0 < written
             then act_bind (write_from E p written True) (\<lambda>more. act_return (written + more))
             else act_return written)
           else write_from E p 0 True)
          (\<lambda>written.
             if length p \<le> written
             then on_transport (t_flush (en_transport E))
             else act_modify (\<lambda>t. t\<lparr>tx_pkt :=
               Some \<lparr>tx_bytes = p, tx_pos = written, tx_set_dup = dup\<rparr>\<rparr>)))" (is "only_io ?m")
    by (auto intro!: only_io_bind only_io_write only_io_simple)
  then have m: "io_change t (snd (?m t))" for t by (simp only: only_io_def)
  show ?thesis
    unfolding only_io_def
  proof
    fix t
    show "io_change t (snd (try_send_packet E p dup t))"
      by (cases "en_debug_assertions E \<and> tx_pkt t \<noteq> None")
        (simp_all only: try_send_packet_def simp_thms if_True if_False snd_conv io_change_refl m)
  qed
qed

lemma queue_only_io: "only_io (queue_internal_packet E p dup)"
  using try_send_packet_only_io by (auto simp: only_io_def queue_internal_packet_def)

section \<open>Exactly-once delivery\<close>

text \<open>A sequence of packets, all handled without an error and without a stop.\<close>

fun receive_all :: "('t, 'w) env \<Rightarrow> incoming_packet list \<Rightarrow> ('t, 'w) transceiver \<Rightarrow> ('t, 'w) transceiver option" where
  "receive_all E [] t = Some t"
| "receive_all E (p # ps) t =
     (case process_packet E p t of (Inr False, t) \<Rightarrow> receive_all E ps t | _ \<Rightarrow> None)"

text \<open>The copies of a message with quality of service 2: same packet identifier.\<close>

definition is_qos2_copy :: "u16 \<Rightarrow> incoming_packet \<Rightarrow> bool" where
  "is_qos2_copy i pkt =
     (case pkt of
        IP_Publish msg \<Rightarrow> pi_packet_id (publish_info msg) = i \<and>
          flags_qos (pi_flags (publish_info msg)) = (Inr ExactlyOnce :: (io_error, qos) result)
      | _ \<Rightarrow> False)"

lemma qos2_copy_ignored:
  assumes "is_qos2_copy i pkt" and "connected t" and "pending_packets t (id_pub_rec i) = Some p"
    and "process_packet E pkt t = (r, t')"
  shows "io_change t t'"
proof -
  obtain msg where pkt: "pkt = IP_Publish msg" and id: "pi_packet_id (publish_info msg) = i"
    and q: "flags_qos (pi_flags (publish_info msg)) = (Inr ExactlyOnce :: (io_error, qos) result)"
    using assms(1) by (auto simp: is_qos2_copy_def split: incoming_packet.splits)
  have "process_packet E pkt t =
      act_bind (queue_internal_packet E p False) (\<lambda>_. act_return False) t"
    using assms(2,3) pkt id q
    by (simp add: process_packet_def connected_def process_publish_def Let_def act_bind_def lift_res_def
        act_get_def)
  moreover have "only_io (act_bind (queue_internal_packet E p False) (\<lambda>_. act_return False))"
    by (intro only_io_bind queue_only_io only_io_simple)
  ultimately show ?thesis using only_ioD assms(4) by metis
qed

lemma receive_copies:
  assumes "connected t" and "pending_packets t (id_pub_rec i) = Some p" and "list_all (is_qos2_copy i) copies"
    and "receive_all E copies t = Some t'"
  shows "io_change t t'"
  using assms
proof (induction copies arbitrary: t)
  case (Cons pkt copies)
  obtain r t1 where h: "process_packet E pkt t = (r, t1)" by fastforce
  have r: "r = Inr False" "receive_all E copies t1 = Some t'"
    using Cons.prems(4) h by (auto split: sum.splits bool.splits)
  have t1: "io_change t t1" by (rule qos2_copy_ignored [OF _ Cons.prems(1,2) h]) (use Cons.prems in simp)
  then have "connected t1" "pending_packets t1 (id_pub_rec i) = Some p"
    using Cons.prems(1,2) by (auto elim!: io_changeE simp: connected_def)
  from Cons.IH [OF this _ r(2)] t1 Cons.prems(3) show ?case by (auto intro: io_change_trans)
qed simp

lemma with_timeout_fields:
  assumes "queue_internal_packet_with_timeout E p i t = (r, t')" and "pending_packets t i = None"
  shows "pending_packets t' = (pending_packets t)(i \<mapsto> p) \<and> connect_sig t' = connect_sig t \<and>
    subscriptions t' = subscriptions t \<and> world t' = world t \<and> shared t' = shared t \<and>
    woken t' = woken t \<and> pending_subs t' = pending_subs t"
  using assms(1)
  by (auto simp: queue_internal_packet_with_timeout_def assms(2) act_bind_def act_simps timeout_now_def
      push_timeout_def instant_now_def dest!: only_ioD [OF queue_only_io] elim!: io_changeE)

lemma qos2_first_copy:
  assumes "is_qos2_copy i (IP_Publish msg)" and "connected t" and "pending_packets t (id_pub_rec i) = None"
    and "process_packet E (IP_Publish msg) t = (Inr b, t1)"
  shows "set_dispatch (en_sinks E) msg (subscriptions t) (world t)
      = ((Inr () :: (io_error, unit) result), subscriptions t1, world t1) \<and>
    (\<exists>p. pending_packets t1 (id_pub_rec i) = Some p) \<and> connected t1"
proof -
  have id: "pi_packet_id (publish_info msg) = i"
    and q: "flags_qos (pi_flags (publish_info msg)) = (Inr ExactlyOnce :: (io_error, qos) result)"
    using assms(1) by (simp_all add: is_qos2_copy_def)
  obtain p where p: "make_arc_packet pub_rec_impl (simple_new i) = Inr p"
    using packets_made(2) by blast
  have "act_bind (queue_internal_packet_with_timeout E p (id_pub_rec i))
      (\<lambda>_. act_bind (dispatch_message E msg) (\<lambda>_. act_return False)) t = (Inr b, t1)"
    using assms(2,3,4) id q p
    by (auto simp: process_packet_def connected_def process_publish_def Let_def act_bind_def lift_res_def
        act_get_def split: prod.splits sum.splits)
  then obtain u t2 where w: "queue_internal_packet_with_timeout E p (id_pub_rec i) t = (Inr u, t2)"
    and d: "dispatch_message E msg t2 = (Inr (), t1)"
    by (auto simp: act_bind_eq_Inr act_return_def)
  note f = with_timeout_fields [OF w assms(3)]
  show ?thesis
    using d f assms(2) by (auto simp: dispatch_message_def connected_def split: prod.splits)
qed

lemma pub_rel_ends:
  assumes "connected t" and "process_packet E (IP_PubRel \<lparr>sp_packet_id = i\<rparr>) t = (r, t')"
  shows "pending_packets t' (id_pub_rec i) = None \<and> subscriptions t' = subscriptions t \<and> world t' = world t"
proof -
  let ?t = "t\<lparr>pending_packets := (pending_packets t)(id_pub_rec i := None)\<rparr>"
  let ?m = "act_bind (act_bind (lift_res (make_arc_packet pub_comp_impl (simple_new i))) (\<lambda>pkt.
     queue_internal_packet E pkt False)) (\<lambda>_. act_return False)"
  have "only_io ?m" by (intro only_io_bind queue_only_io only_io_simple)
  moreover have "?m ?t = (r, t')"
    using assms by (auto simp: process_packet_def connected_def process_pub_rel_def act_bind_def
        clear_packet_timeout_def split: prod.splits sum.splits)
  ultimately have "io_change ?t t'" by (rule only_ioD)
  then show ?thesis by (auto elim!: io_changeE)
qed

text \<open>
  C4. A message with quality of service 2 is delivered exactly once. The first copy is
  dispatched to the subscriptions; any number of further copies with its packet identifier,
  which the broker may send until it has seen the PUBREC, change nothing but the bytes to be
  sent. Only a PUBREL packet with that identifier ends the exchange, so that the identifier
  may be used for a new message.
\<close>

theorem qos2_delivered_once:
  assumes "is_qos2_copy i (IP_Publish msg)" and "list_all (is_qos2_copy i) copies"
    and "connected t" and "pending_packets t (id_pub_rec i) = None"
    and "receive_all E (IP_Publish msg # copies) t = Some t'"
  shows "set_dispatch (en_sinks E) msg (subscriptions t) (world t)
      = ((Inr () :: (io_error, unit) result), subscriptions t', world t') \<and>
    pending_packets t' (id_pub_rec i) \<noteq> None \<and>
    (\<forall>t2. receive_all E [IP_PubRel \<lparr>sp_packet_id = i\<rparr>] t' = Some t2 \<longrightarrow>
       pending_packets t2 (id_pub_rec i) = None \<and> subscriptions t2 = subscriptions t' \<and> world t2 = world t')"
proof -
  obtain r t1 where h: "process_packet E (IP_Publish msg) t = (r, t1)" by fastforce
  have r: "r = Inr False" "receive_all E copies t1 = Some t'"
    using assms(5) h by (auto split: sum.splits bool.splits)
  note first = qos2_first_copy [OF assms(1,3,4) h [unfolded r(1)]]
  then obtain p where p: "pending_packets t1 (id_pub_rec i) = Some p" by blast
  have c: "connected t1" using first by simp
  have ch: "io_change t1 t'" by (rule receive_copies [OF c p assms(2) r(2)])
  have "pending_packets t2 (id_pub_rec i) = None \<and> subscriptions t2 = subscriptions t' \<and> world t2 = world t'"
    if rel: "receive_all E [IP_PubRel \<lparr>sp_packet_id = i\<rparr>] t' = Some t2" for t2
  proof -
    have "connected t'" using ch c by (auto elim!: io_changeE simp: connected_def)
    moreover obtain r2 where "process_packet E (IP_PubRel \<lparr>sp_packet_id = i\<rparr>) t' = (r2, t2)"
      using rel by (auto split: prod.splits sum.splits bool.splits)
    ultimately show ?thesis by (rule pub_rel_ends)
  qed
  then show ?thesis
    using first p ch by (auto elim!: io_changeE)
qed

text \<open>A connected client with one subscription, to \<open>a\<close>, whose messages go to the queue 3.\<close>

definition online ::
    "nat option list \<Rightarrow> (script tcp_transport, (handle \<times> incoming_publish_packet) list) transceiver" where
  "online wrs =
     (client_start [] wrs)\<lparr>tx_pkt := None, connect_sig := False,
        subscriptions := snd (get_or_create (str_bytes ''a'')
          (\<lambda>s. ((), s\<lparr>unbounded_queue := [3], subscribed := True\<rparr>)) node_default)\<rparr>"

definition qos2_message :: "bool \<Rightarrow> incoming_publish_packet" where
  "qos2_message dup = message_of (publish_flags_new dup ExactlyOnce False) 7 (str_bytes ''a'') [5]"

theorem qos2_delivered_once_witness:
  "\<exists>t'. receive_all script_env (map IP_Publish [qos2_message False, qos2_message True, qos2_message True])
       (online []) = Some t' \<and>
     world t' = [(3, qos2_message False)] \<and> pending_packets t' (id_pub_rec 7) \<noteq> None"
proof -
  let ?copies = "map IP_Publish [qos2_message True, qos2_message True]"
  have "map_option world (receive_all script_env (IP_Publish (qos2_message False) # ?copies) (online []))
      = Some [(3, qos2_message False)]"
    by code_simp
  then obtain t' where r: "receive_all script_env (IP_Publish (qos2_message False) # ?copies) (online []) = Some t'"
    and w: "world t' = [(3, qos2_message False)]" by auto
  have m: "is_qos2_copy 7 (IP_Publish (qos2_message False))" "list_all (is_qos2_copy 7) ?copies"
    by code_simp+
  have "connected (online [])" "pending_packets (online []) (id_pub_rec 7) = None"
    by code_simp+
  from qos2_delivered_once [OF m this r] r w show ?thesis by simp
qed

section \<open>Acknowledgements and futures\<close>

text \<open>The packet that completes a stage of a publication, and the packet it acknowledges.\<close>

fun ack_packet :: "stage \<Rightarrow> u16 \<Rightarrow> incoming_packet" where
  "ack_packet StAck i = IP_PubAck \<lparr>sp_packet_id = i\<rparr>"
| "ack_packet StRec i = IP_PubRec \<lparr>sp_packet_id = i\<rparr>"
| "ack_packet StComp i = IP_PubComp \<lparr>sp_packet_id = i\<rparr>"

fun awaited :: "stage \<Rightarrow> u16 \<Rightarrow> id_type" where
  "awaited StAck i = id_publish i"
| "awaited StRec i = id_publish i"
| "awaited StComp i = id_pub_rel i"

definition acknowledged :: "stage \<Rightarrow> u16 \<Rightarrow> ('t, 'w, bool) meth" where
  "acknowledged st i =
     act_bind (act_bind (clear_packet_timeout (awaited st i)) (\<lambda>cleared.
       if cleared then notify_stage st i else act_return ())) (\<lambda>_. act_return False)"

lemma act_bind_assoc: "act_bind (act_bind m f) g = act_bind m (\<lambda>x. act_bind (f x) g)"
  by (rule ext) (simp add: act_bind_def split: prod.splits sum.splits)

lemma act_bind_get: "act_bind (act_get f) k t = k (f t) t"
  by (simp add: act_bind_def act_get_def)

lemma acknowledged_effect:
  assumes "pending_packets t (awaited st i) = Some p"
    and "hm_get i (access_notifier_map st (shared t)) = Some (WithWaker w)"
    and "acknowledged st i t = (r, t')"
  shows "r = Inr False \<and> woken t' = woken t @ [w] \<and> pending_packets t' (awaited st i) = None \<and>
    hm_get i (access_notifier_map st (shared t')) = None"
  using assms
  by (auto simp: acknowledged_def act_bind_def clear_packet_timeout_def notify_stage_def
      remove_notifier_def wake_def act_return_def Let_def)

lemma process_ack_packet:
  assumes "connected t" and "process_packet E (ack_packet st i) t = (Inr b, t')"
  obtains t1 where "acknowledged st i t1 = (Inr b, t')" "shared t1 = shared t" "woken t1 = woken t"
    "pending_packets t1 (awaited st i) = pending_packets t (awaited st i)"
proof (cases st)
  case StRec
  let ?rel = "id_pub_rel i"
  let ?m = "case pending_packets t ?rel of
           Some existing \<Rightarrow> queue_internal_packet E existing False
         | None \<Rightarrow>
             act_bind (lift_res (make_arc_packet pub_rel_impl (simple_new i))) (\<lambda>pkt.
             queue_internal_packet_with_timeout E pkt ?rel)"
  obtain r1 t1 where m: "?m t = (r1, t1)" by fastforce
  have "shared t1 = shared t \<and> woken t1 = woken t \<and> pending_packets t1 (id_publish i) = pending_packets t (id_publish i)"
  proof (cases "pending_packets t ?rel")
    case None
    obtain p where p: "make_arc_packet pub_rel_impl (simple_new i) = Inr p"
      using packets_made(3) by blast
    with m None have "queue_internal_packet_with_timeout E p ?rel t = (r1, t1)"
      by (simp add: act_bind_def lift_res_def)
    from with_timeout_fields [OF this None] show ?thesis by (simp add: id_type_defs)
  next
    case (Some p)
    with m only_ioD [OF queue_only_io, of E p False t r1 t1] show ?thesis by (auto elim!: io_changeE)
  qed
  moreover have "act_bind ?m (\<lambda>_. acknowledged st i) t = (Inr b, t')"
    using assms StRec
    by (simp add: process_packet_def connected_def process_pub_rec_def Let_def acknowledged_def
        act_bind_assoc act_bind_get cong: option.case_cong if_cong)
  then have "acknowledged st i t1 = (Inr b, t')"
    using m by (cases r1) (simp_all add: act_bind_def)
  ultimately show ?thesis using that StRec by simp
qed (use assms that in \<open>simp_all add: process_packet_def connected_def process_pub_ack_def
    process_pub_comp_def acknowledged_def cong: if_cong\<close>)

text \<open>
  An acknowledgement completes the future that awaits it: when a PUBACK, PUBREC or
  PUBCOMP arrives for a packet that is pending, the task that waits is woken, the packet is
  no longer pending, and the next poll of its future reports success.
\<close>

lemma acknowledgement_completes_future:
  assumes "connected t" and "pending_packets t (awaited st i) = Some p"
    and "hm_get i (access_notifier_map st (shared t)) = Some (WithWaker w)"
    and "process_packet E (ack_packet st i) t = (Inr b, t')"
    and "fut = \<lparr>pf_packet_id = i, pf_notifier = st, pf_result = None\<rparr>"
  shows "\<not> b \<and> woken t' = woken t @ [w] \<and> pending_packets t' (awaited st i) = None \<and>
    fst (publish_future_poll w' fut (shared t')) = Ready False"
proof -
  obtain t1 where t1: "acknowledged st i t1 = (Inr b, t')" "shared t1 = shared t" "woken t1 = woken t"
    "pending_packets t1 (awaited st i) = pending_packets t (awaited st i)"
    using process_ack_packet [OF assms(1,4)] .
  have "Inr b = (Inr False :: (io_error, bool) result) \<and> woken t' = woken t1 @ [w] \<and>
      pending_packets t' (awaited st i) = None \<and> hm_get i (access_notifier_map st (shared t')) = None"
    by (rule acknowledged_effect [OF _ _ t1(1)]) (use assms t1 in simp_all)
  then show ?thesis
    using t1 assms(5) by (simp add: publish_future_poll_def Let_def)
qed

section \<open>Wake-ups\<close>

text \<open>
  A future of stage \<open>st\<close> for the packet \<open>i\<close> together with everything that may happen around it:
  it is polled, the transceiver removes an entry of a notifier map or fails a whole map, or
  others change the shared state, keeping the entry of this future. The first component is
  the waker of the task that was told to wait and has not been woken since.
\<close>

definition after_wake :: "waker list \<Rightarrow> waker option \<Rightarrow> waker option" where
  "after_wake ws x = (if x \<in> Some ` set ws then None else x)"

inductive future_step ::
    "u16 \<Rightarrow> stage \<Rightarrow> waker option \<times> publish_future \<times> client_shared \<Rightarrow>
     waker option \<times> publish_future \<times> client_shared \<Rightarrow> bool" for i st where
  told_to_wait: "publish_future_poll w fut sh = (PollPending, fut', sh') \<Longrightarrow>
    future_step i st (x, fut, sh) (Some w, fut', sh')"
| told_result: "publish_future_poll w fut sh = (Ready b, fut', sh') \<Longrightarrow>
    future_step i st (x, fut, sh) (None, fut', sh')"
| notified: "remove_notifier st' j sh = (ws, sh') \<Longrightarrow>
    future_step i st (x, fut, sh) (after_wake ws x, fut, sh')"
| failed: "fail_stage st' (sh, []) = (sh', ws) \<Longrightarrow>
    future_step i st (x, fut, sh) (after_wake ws x, fut, sh')"
| others: "hm_get i (access_notifier_map st sh') = hm_get i (access_notifier_map st sh) \<Longrightarrow>
    future_step i st (x, fut, sh) (x, fut, sh')"

inductive_cases future_stepE: "future_step i st (x, fut, sh) (x', fut', sh')"

definition waits_properly :: "u16 \<Rightarrow> stage \<Rightarrow> waker option \<times> publish_future \<times> client_shared \<Rightarrow> bool" where
  "waits_properly i st = (\<lambda>(x, fut, sh).
     pf_packet_id fut = i \<and> pf_notifier fut = st \<and>
     (case x of
        None \<Rightarrow> True
      | Some w \<Rightarrow> pf_result fut = None \<and> hm_get i (access_notifier_map st sh) = Some (WithWaker w)))"

lemma hm_get_fail: "hm_get i (fst (fail_notify_map m)) = map_option (\<lambda>_. Failed) (hm_get i m)"
  by (simp add: fail_notify_map_def hm_get_def map_of_map comp_def)

lemma fail_notify_map_wakes:
  "hm_get i m = Some (WithWaker w) \<Longrightarrow> w \<in> set (snd (fail_notify_map m))"
  by (auto simp: fail_notify_map_def hm_get_def List.map_filter_def image_iff
      dest!: map_of_SomeD split: notify_result.splits)

lemma waits_properly_step:
  assumes "future_step i st s s'" and "waits_properly i st s"
  shows "waits_properly i st s'"
  using assms
proof (induction rule: future_step.induct)
  case (told_to_wait w fut sh fut' sh' x)
  then show ?case
    by (auto simp: publish_future_poll_def waits_properly_def Let_def
        split: option.splits notify_result.splits)
next
  case (told_result w fut sh b fut' sh' x)
  then show ?case
    by (auto simp: publish_future_poll_def waits_properly_def Let_def
        split: option.splits notify_result.splits)
next
  case (notified st' j sh ws sh' x fut)
  then show ?case
    by (auto simp: remove_notifier_def waits_properly_def Let_def after_wake_def
        split: option.splits notify_result.splits if_splits)
next
  case (failed st' sh sh' ws x fut)
  obtain m' ws' where f: "fail_notify_map (access_notifier_map st' sh) = (m', ws')" by fastforce
  then have "sh' = set_notifier_map st' m' sh" "ws = ws'"
    using failed.hyps by (simp_all add: fail_stage_def)
  moreover have "w \<in> set ws'" if "hm_get i (access_notifier_map st' sh) = Some (WithWaker w)" for w
    using fail_notify_map_wakes [OF that] f by simp
  ultimately show ?case
    using failed.prems by (auto simp: waits_properly_def after_wake_def split: option.splits if_splits)
next
  case (others sh' sh x fut)
  then show ?case by (simp add: waits_properly_def split: option.splits)
qed



section \<open>Answers to subscriptions\<close>

definition subscribed_with :: "('t, 'w) env \<Rightarrow> subscription_kind \<Rightarrow> subscription \<Rightarrow> subscription" where
  "subscribed_with E kind sub =
     snd (sub_add (en_cfg_test E) kind (set_subscribed sub) :: (io_error, unit) result \<times> subscription)"

lemma establish_subscription_tree:
  assumes "establish_subscription E ps t = (Inr (), t')"
  shows "shared t' = shared t" "woken t' = woken t" "pending_subs t' = pending_subs t"
    "sub_at q (subscriptions t') =
      (if Some q = parse_filter (levels (ps_topic ps))
       then subscribed_with E (ps_kind ps) (sub_at q (subscriptions t))
       else sub_at q (subscriptions t))"
proof -
  let ?f = "\<lambda>sub. sub_add (en_cfg_test E) (ps_kind ps) (set_subscribed sub) :: (io_error, unit) result \<times> subscription"
  obtain r n' where g: "get_or_create_from (topic_slicer_new (ps_topic ps)) ?f (subscriptions t) = (r, n')"
    by fastforce
  note spec = get_or_create_from_spec [OF g]
  have t': "subscriptions t' = n'" "shared t' = shared t" "woken t' = woken t" "pending_subs t' = pending_subs t"
    using assms g
    by (auto simp: establish_subscription_def get_or_create_def panic_in_test_def act_return_def
        act_fail_def split: sum.splits if_splits)
  from t'(2-) show "shared t' = shared t" "woken t' = woken t" "pending_subs t' = pending_subs t" .
  from spec t'(1) show "sub_at q (subscriptions t') =
      (if Some q = parse_filter (levels (ps_topic ps))
       then subscribed_with E (ps_kind ps) (sub_at q (subscriptions t))
       else sub_at q (subscriptions t))"
    by (simp add: levels_def subscribed_with_def)
qed

lemma suback_effect:
  assumes "connected t" and "pending_subs t (sa_packet_id ack) = Some ps"
    and "hm_get (ps_topic ps) (subs (shared t)) = Some (Pending ws)"
    and "sub_results ack = (Inr (result # rest) :: (io_error, _) result)"
    and "process_packet E (IP_SubAck ack) t = (Inr b, t')"
    and "sf_topic fut = ps_topic ps" and "sf_result fut = None"
  shows "\<not> b \<and> pending_subs t' (sa_packet_id ack) = None \<and> woken t' = woken t @ present_wakers ws \<and>
    (\<exists>fut' sh'. subscribe_future_poll w fut (shared t') = (Inr (Ready result, fut', sh') :: (unit, _) result)) \<and>
    (\<forall>q. sub_at q (subscriptions t') =
       (if result \<noteq> Inl () \<and> Some q = parse_filter (levels (ps_topic ps))
        then subscribed_with E (ps_kind ps) (sub_at q (subscriptions t))
        else sub_at q (subscriptions t)))"
proof (cases result)
  case (Inl u)
  with assms show ?thesis
    by (auto simp: process_packet_def connected_def process_sub_ack_def lift_res_def act_bind_def
        sub_refused_def wake_def act_return_def subscribe_future_poll_def Let_def)
next
  case (Inr qos)
  let ?t = "t\<lparr>pending_subs := (pending_subs t)(sa_packet_id ack := None)\<rparr>"
  obtain r t1 where e: "establish_subscription E ps ?t = (r, t1)" by fastforce
  have r: "r = Inr ()"
    using assms Inr e
    by (cases r) (simp_all add: process_packet_def connected_def process_sub_ack_def lift_res_def
        act_bind_def)
  note t1 = establish_subscription_tree [OF e [unfolded r], simplified]
  have "t' = t1\<lparr>shared := (shared t)\<lparr>subs := hm_insert (ps_topic ps) (Existing qos) (subs (shared t))\<rparr>,
      woken := woken t @ present_wakers ws\<rparr> \<and> \<not> b"
    using assms Inr e r t1
    by (simp add: process_packet_def connected_def process_sub_ack_def lift_res_def act_bind_def
        sub_accepted_def wake_def act_return_def Let_def)
  with assms Inr t1 show ?thesis
    by (simp add: subscribe_future_poll_def)
qed

text \<open>
  C24. A SUBACK settles the subscription it answers: the future of every caller that subscribes
  to the topic gets the answer of the broker and every registered task is woken, and the
  subscription of the filter, and no other one, is marked and gets the callback when the
  broker accepts.
\<close>

theorem suback_settles_subscription:
  assumes "connected t" and "pending_subs t (sa_packet_id ack) = Some ps"
    and "hm_get (ps_topic ps) (subs (shared t)) = Some (Pending ws)"
    and "sub_results ack = (Inr (result # rest) :: (io_error, _) result)"
    and "process_packet E (IP_SubAck ack) t = (Inr b, t')"
    and "sf_topic fut = ps_topic ps" and "sf_result fut = None"
  shows "\<not> b \<and> pending_subs t' (sa_packet_id ack) = None \<and> woken t' = woken t @ present_wakers ws \<and>
    (\<exists>fut' sh'. subscribe_future_poll w fut (shared t') = (Inr (Ready result, fut', sh') :: (unit, _) result)) \<and>
    (\<forall>q. sub_at q (subscriptions t') =
       (if result \<noteq> Inl () \<and> Some q = parse_filter (levels (ps_topic ps))
        then subscribed_with E (ps_kind ps) (sub_at q (subscriptions t))
        else sub_at q (subscriptions t)))"
  by (rule suback_effect [OF assms])

text \<open>The client of \<open>online\<close> while it waits for the SUBACK 5 for the topic \<open>b\<close>.\<close>

definition subscribing ::
    "(script tcp_transport, (handle \<times> incoming_publish_packet) list) transceiver" where
  "subscribing =
     (online [])\<lparr>shared := client_shared_new\<lparr>subs := [(str_bytes ''b'', Pending [Some 9])]\<rparr>,
        pending_subs := (\<lambda>_. None)(5 \<mapsto>
          \<lparr>ps_topic = str_bytes ''b'', ps_kind = Unbounded 4, ps_packet = []\<rparr>)\<rparr>"

theorem suback_settles_subscription_witness:
  "\<exists>t'. process_packet script_env (IP_SubAck (sub_ack_new 5 [Inr AtLeastOnce])) subscribing = (Inr False, t') \<and>
     woken t' = [9] \<and>
     (\<exists>fut' sh'. subscribe_future_poll 9 (subscribe_future_new (str_bytes ''b'')) (shared t') =
        (Inr (Ready (Inr AtLeastOnce), fut', sh') :: (unit, _) result)) \<and>
     sub_at (Leaf [to_level (str_bytes ''b'')]) (subscriptions t') =
       subscribed_with script_env (Unbounded 4) (sub_at (Leaf [to_level (str_bytes ''b'')]) (subscriptions subscribing))"
proof -
  let ?ack = "sub_ack_new 5 [Inr AtLeastOnce]"
  let ?ps = "\<lparr>ps_topic = str_bytes ''b'', ps_kind = Unbounded 4, ps_packet = []\<rparr>"
  have "fst (process_packet script_env (IP_SubAck ?ack) subscribing) = Inr False" by code_simp
  then obtain t' where h: "process_packet script_env (IP_SubAck ?ack) subscribing = (Inr False, t')"
    by (metis prod.collapse)
  have "connected subscribing" "sub_results ?ack = (Inr [Inr AtLeastOnce] :: (io_error, _) result)"
    "hm_get (str_bytes ''b'') (subs (shared subscribing)) = Some (Pending [Some 9])"
    "present_wakers [Some 9] = [9]" "woken subscribing = []"
    "parse_filter (levels (str_bytes ''b'')) = Some (Leaf [to_level (str_bytes ''b'')])"
    by code_simp+
  moreover have "pending_subs subscribing (sa_packet_id ?ack) = Some ?ps"
    by (simp add: subscribing_def sub_ack_new_def)
  ultimately show ?thesis
    using suback_settles_subscription [OF _ _ _ _ h, where ps = ?ps and ws = "[Some 9]"
        and result = "Inr AtLeastOnce" and rest = "[]" and w = 9
        and fut = "subscribe_future_new (str_bytes ''b'')"] h
    by (simp add: subscribe_future_new_def del: sub_at.simps cong: if_cong)
qed



end
