(* ===== verification/Frames.thy ===== *)
theory Frames
  imports Outbox
begin

text \<open>
  What the handlers of the transceiver leave alone. An observation of the state that sending
  does not affect is kept by everything that sends; one that is also independent of the
  bookkeeping is kept by every handler.
\<close>

section \<open>Composition\<close>

lemma keeps_bind:
  assumes "keeps f m" and "\<And>a. keeps f (k a)"
  shows "keeps f (act_bind m k)"
  unfolding keeps_def
proof
  fix t
  obtain r1 t1 where m: "m t = (r1, t1)" by fastforce
  show "f (snd (act_bind m k t)) = f t"
    using keepsD [OF assms(1) m] assms(2) [unfolded keeps_def] m
    by (simp add: act_bind_def split: sum.splits)
qed

lemma keeps_basic:
  "keeps f (act_return a)" "keeps f (act_fail x)" "keeps f (act_get g)" "keeps f (lift_res r)"
  "keeps f (panic_in_test E msg)" "keeps f (check_ready y)"
  by (auto simp: keeps_def act_simps lift_res_def panic_in_test_def check_ready_def split: option.splits)

lemma keeps_modify: "(\<And>t. f (g t) = f t) \<Longrightarrow> keeps f (act_modify g)"
  by (simp add: keeps_def act_simps)

lemma keeps_zoom: "(\<And>t c. f (t\<lparr>transport := c\<rparr>) = f t) \<Longrightarrow> keeps f (on_transport n)"
  by (simp add: keeps_def act_zoom_def split: prod.splits)

lemma keeps_fun: "(\<And>t. f (snd (m t)) = f t) \<Longrightarrow> keeps f m"
  by (simp add: keeps_def)

lemma keeps_at: "keeps f m \<Longrightarrow> f (snd (m t)) = f t"
  by (simp add: keeps_def)

lemmas keeps_intros = keeps_bind keeps_basic keeps_modify

section \<open>Sending\<close>

locale unseen_sending =
  fixes E :: "('t, 'w) env" and f :: "('t, 'w) transceiver \<Rightarrow> 'v"
  assumes sending_fields [simp]: "f (t\<lparr>tx_pkt := x\<rparr>) = f t" "f (t\<lparr>internal_pkt_queue := q\<rparr>) = f t"
      "f (t\<lparr>last_tx := n\<rparr>) = f t" "f (t\<lparr>clock_reads := n\<rparr>) = f t"
    and keeps_write: "keeps f (on_transport (t_write (en_transport E) src z))"
    and keeps_flush: "keeps f (on_transport (t_flush (en_transport E)))"
    and keeps_pre_write: "keeps f (on_transport (t_pre_write (en_transport E)))"
begin

lemma keeps_now: "keeps f (instant_now E)"
  by (simp add: keeps_def instant_now_def)

lemma keeps_writes: "keeps f (write_dup_byte E p z)" "keeps f (write_from E p n z)"
  by (auto simp: write_dup_byte_def write_from_def keeps_write keeps_basic split: list.splits)

lemma keeps_try_send: "keeps f (try_send_packet E p dup)"
proof (rule keeps_fun)
  fix t
  have "keeps f (act_bind
          (if dup
           then act_bind (write_dup_byte E p True) (\<lambda>written.
             if 0 < written
             then act_bind (write_from E p written True) (\<lambda>more. act_return (written + more))
             else act_return written)
           else write_from E p 0 True)
          (\<lambda>written.
             if length p \<le> written
             then on_transport (t_flush (en_transport E))
             else act_modify (\<lambda>t. t\<lparr>tx_pkt :=
               Some \<lparr>tx_bytes = p, tx_pos = written, tx_set_dup = dup\<rparr>\<rparr>)))"
    by (auto intro!: keeps_intros keeps_writes keeps_flush)
  then show "f (snd (try_send_packet E p dup t)) = f t"
    by (cases "en_debug_assertions E \<and> tx_pkt t \<noteq> None")
      (simp_all only: try_send_packet_def simp_thms if_True if_False snd_conv keeps_at)
qed

lemma keeps_queue: "keeps f (queue_internal_packet E p dup)"
  by (rule keeps_fun) (simp add: queue_internal_packet_def keeps_at [OF keeps_try_send])

lemma keeps_send_queued: "keeps f (send_queued E ps)"
proof (induction ps)
  case (Cons p ps)
  have "keeps f (act_bind (try_send_packet E (ipk_bytes p) (ipk_set_dup p))
      (\<lambda>_ t. if tx_pkt t \<noteq> None then (Inr (), t) else send_queued E ps t))"
    by (rule keeps_bind [OF keeps_try_send]) (use Cons in \<open>simp add: keeps_def\<close>)
  then show ?case by (simp add: keeps_def)
qed (simp add: keeps_def)

lemma keeps_write_round: "keeps f (write_round E tx)"
proof -
  have "keeps f (clear_tx_packet E)"
    by (rule keeps_fun) (simp add: clear_tx_packet_def keeps_at [OF keeps_send_queued])
  then show ?thesis
    unfolding write_round_def Let_def
    by (auto intro!: keeps_intros keeps_writes keeps_flush keeps_now)
qed

lemma keeps_continue_writing: "keeps f (continue_writing_packet E)"
proof (rule keeps_fun)
  fix t
  have "f (snd (continue_writing_packet E' t)) = f t" if "E' = E" for E'
    using that
  proof (induction E' t rule: continue_writing_packet.induct)
    case (1 E' t)
    show ?case
    proof (cases "tx_pkt t")
      case (Some tx)
      obtain r t1 where w: "write_round E' tx t = (r, t1)" by fastforce
      have "f t1 = f t" using keepsD [OF keeps_write_round] w "1.prems" by blast
      with "1.IH" [OF Some w [symmetric]] w Some "1.prems" show ?thesis
        by (subst continue_writing_packet.simps) (auto split: sum.splits option.splits)
    qed (simp add: continue_writing_packet.simps)
  qed
  then show "f (snd (continue_writing_packet E t)) = f t" by simp
qed

lemma keeps_write_ready: "keeps f (write_ready E x)"
  unfolding write_ready_def
proof (intro keeps_bind keeps_basic keeps_pre_write)
  show "keeps f (\<lambda>t. case continue_writing_packet E t of
       (Inl (Err err), t) \<Rightarrow> if io_kind err \<noteq> WouldBlock then (Inl (Err err), t) else (Inr False, t)
     | (res, t) \<Rightarrow> (res, t))"
  proof (rule keeps_fun)
    fix t
    obtain r t1 where c: "continue_writing_packet E t = (r, t1)" by fastforce
    show "f (snd (case continue_writing_packet E t of
       (Inl (Err err), t) \<Rightarrow> if io_kind err \<noteq> WouldBlock then (Inl (Err err), t) else (Inr False, t)
     | (res, t) \<Rightarrow> (res, t))) = f t"
      using keepsD [OF keeps_continue_writing c] c by (auto split: sum.splits fault.splits)
  qed
qed

end

section \<open>Handlers\<close>

locale unseen_handling = unseen_sending E f
  for E :: "('t, 'w) env" and f :: "('t, 'w) transceiver \<Rightarrow> 'v" +
  assumes handling_fields [simp]: "f (t\<lparr>pending_packets := pp\<rparr>) = f t" "f (t\<lparr>pending_subs := ps\<rparr>) = f t"
      "f (t\<lparr>timeout_queue := tq\<rparr>) = f t" "f (t\<lparr>shared := sh\<rparr>) = f t" "f (t\<lparr>subscriptions := n\<rparr>) = f t"
      "f (t\<lparr>world := w\<rparr>) = f t" "f (t\<lparr>woken := ws\<rparr>) = f t" "f (t\<lparr>cmd_queue_closed := b\<rparr>) = f t"
begin

lemma keeps_timers:
  "keeps f (timeout_now E i)" "keeps f (timeout_refresh E x)" "keeps f (push_timeout x)"
  by (simp_all add: timeout_now_def timeout_refresh_def push_timeout_def keeps_intros keeps_now)

lemma keeps_small:
  "keeps f (clear_packet_timeout i)" "keeps f (wake ws)" "keeps f fetch_id" "keeps f (notify_stage st j)"
  "keeps f (dispatch_message E msg)" "keeps f (establish_subscription E ps)"
  "keeps f (sub_accepted E topic q)" "keeps f (sub_refused E topic)"
  by (auto simp: keeps_def clear_packet_timeout_def wake_def fetch_id_def notify_stage_def
      dispatch_message_def establish_subscription_def sub_accepted_def sub_refused_def Let_def
      panic_in_test_def act_simps act_bind_def
      split: prod.splits sum.splits option.splits subscription_state.splits)

lemma keeps_with_timeout: "keeps f (queue_internal_packet_with_timeout E p i)"
  unfolding queue_internal_packet_with_timeout_def
  by (auto intro!: keeps_intros keeps_timers keeps_queue)

lemma keeps_process_sub_ack: "keeps f (process_sub_ack E ack)"
proof (rule keeps_fun)
  fix t
  let ?m = "\<lambda>ps. act_bind (lift_res (sub_results ack)) (\<lambda>results.
            case results of
              [] \<Rightarrow> act_return ()
            | result # _ \<Rightarrow>
                act_bind
                  (case result of
                     Inr qos \<Rightarrow>
                       act_bind (establish_subscription E ps) (\<lambda>_. sub_accepted E (ps_topic ps) qos)
                   | Inl _ \<Rightarrow> sub_refused E (ps_topic ps))
                  (\<lambda>wakers. wake (present_wakers wakers)))"
  have "keeps f (?m ps)" for ps
    by (auto intro!: keeps_intros keeps_small split: list.splits sum.splits)
  then show "f (snd (process_sub_ack E ack t)) = f t"
    by (simp add: process_sub_ack_def keeps_at split: option.splits)
qed

lemma keeps_process_connected: "keeps f (process_connected E pkt)"
  by (cases pkt)
    (auto simp: process_publish_def process_pub_ack_def process_pub_rec_def process_pub_rel_def
      process_pub_comp_def Let_def keeps_process_sub_ack
      intro!: keeps_intros keeps_small keeps_queue keeps_with_timeout
      split: qos.splits option.splits)

lemma keeps_command_subscribe: "keeps f (command_subscribe E cmd)"
proof (rule keeps_fun)
  fix t
  let ?m = "act_bind fetch_id (\<lambda>packet_id.
          act_bind (lift_res (make_arc_packet subscribe_impl
              \<lparr>sub_packet_id = packet_id, sub_topics = [(sc_topic cmd, sc_qos cmd)]\<rparr>)) (\<lambda>pkt.
          act_bind (act_modify (\<lambda>t. t\<lparr>pending_subs := (pending_subs t)(packet_id \<mapsto>
              \<lparr>ps_topic = sc_topic cmd, ps_kind = sc_kind cmd, ps_packet = pkt\<rparr>)\<rparr>)) (\<lambda>_.
          act_bind (try_send_packet E pkt False) (\<lambda>_.
          act_bind (timeout_now E (id_subscribe packet_id)) push_timeout))))"
  have "keeps f ?m"
    by (intro keeps_intros keeps_small keeps_try_send keeps_timers) simp
  then show "f (snd (command_subscribe E cmd t)) = f t"
    by (auto simp: command_subscribe_def keeps_at split: prod.splits sum.splits option.splits)
qed

lemma keeps_command_unsub: "keeps f (command_unsub E cmd)"
proof -
  have "keeps f (unsub_immediate E topic)" for topic
    unfolding unsub_immediate_def
    by (intro keeps_intros keeps_small keeps_with_timeout) simp
  then show ?thesis
    by (auto simp: command_unsub_def keeps_at split: prod.splits sum.splits unsub_kind.splits bool.splits
        intro!: keeps_fun)
qed

lemma keeps_command_ready: "keeps f (command_ready E cmd)"
  by (cases "(E, cmd)" rule: command_ready.cases)
    (auto simp: command_publish_def intro!: keeps_intros keeps_command_subscribe keeps_command_unsub
      keeps_try_send keeps_with_timeout split: qos.splits)

lemma keeps_resend: "keeps f (resend_packet E x)"
proof -
  have "keeps f (act_bind (queue_internal_packet E p dup) (\<lambda>_. act_bind (timeout_refresh E x) push_timeout))" for p dup
    by (intro keeps_intros keeps_queue keeps_timers)
  then show ?thesis
    by (auto simp: resend_packet_def keeps_at intro!: keeps_fun split: option.splits)
qed

lemma keeps_alarm_loop: "keeps f (alarm_loop E n)"
proof (induction n)
  case (Suc n)
  have "keeps f (act_bind (resend_packet E x) (\<lambda>_. alarm_loop E n))" for x
    by (intro keeps_bind keeps_resend Suc)
  then have "keeps f (act_bind (instant_now E) (\<lambda>now t.
      if now - to_t x < packet_resend_delay t then (Inr (), t)
      else act_bind (resend_packet E x) (\<lambda>_. alarm_loop E n) (t\<lparr>timeout_queue := q\<rparr>)))" for x q
    by (intro keeps_bind keeps_now) (simp add: keeps_def)
  then show ?case
    by (intro keeps_fun) (simp add: keeps_at split: list.splits)
qed (simp add: keeps_def)

lemma keeps_alarm_tick: "keeps f (alarm_tick E)"
proof -
  have "keeps f (act_bind (instant_now E) (\<lambda>now t.
          act_bind
            (if ping_interval t \<le> now - last_tx t
             then
               act_bind (instant_now E) (\<lambda>now.
               act_bind (act_modify (\<lambda>t. t\<lparr>last_tx := now\<rparr>)) (\<lambda>_.
               queue_internal_packet E (ping_req t) False))
             else act_return ())
            (\<lambda>_ t. alarm_loop E (length (timeout_queue t)) t) t))" (is "keeps f (act_bind _ ?k)")
  proof (rule keeps_bind [OF keeps_now], rule keeps_fun)
    fix now t
    have "keeps f (\<lambda>t. alarm_loop E (length (timeout_queue t)) t)"
      by (rule keeps_fun) (rule keeps_at [OF keeps_alarm_loop])
    then show "f (snd (?k now t)) = f t"
      by (intro keeps_at) (auto intro!: keeps_intros keeps_now keeps_queue)
  qed
  then show ?thesis
    by (auto simp: alarm_tick_def keeps_at intro!: keeps_fun)
qed

end

text \<open>The input of the reader, in the connection with a transport that keeps its contract.\<close>

sublocale connection \<subseteq> received: unseen_handling E "\<lambda>t. (rx_pkt t, inp (transport t))"
  by unfold_locales
    (auto simp: keeps_def act_zoom_def split: prod.splits
      dest: keepsD [OF write_inp] keepsD [OF others_keep(5)] keepsD [OF others_keep(3)])

text \<open>The handshake, and the state that futures share with the task.\<close>

interpretation handshake: unseen_handling E "\<lambda>t. (connect_sig t, connect_result t)"
  for E :: "('t, 'w) env"
  by unfold_locales (auto intro: keeps_zoom)

interpretation waiters: unseen_sending E "\<lambda>t. (shared t, woken t)"
  for E :: "('t, 'w) env"
  by unfold_locales (auto intro: keeps_zoom)

end
