(* ===== verification/Handshake_Properties.thy ===== *)
theory Handshake_Properties
  imports Transceiver_Properties Frames
begin

text \<open>
  The handshake: what the task does before the broker has answered its CONNECT packet.
\<close>

section \<open>The handshake\<close>

text \<open>Everything a handler of a connected client may change, apart from what is sent.\<close>

definition untouched where
  "untouched t = (pending_packets t, pending_subs t, timeout_queue t, shared t, subscriptions t,
     world t, woken t, cmd_queue_closed t)"

interpretation offline: unseen_sending E untouched for E :: "('t, 'w) env"
  by unfold_locales (auto simp: untouched_def intro: keeps_zoom)

text \<open>
  The phases: CONNECT, the bytes \<open>s\<close>, has not been answered; the broker has accepted; or it has
  refused, which ends the main loop.
\<close>

definition in_handshake where
  "in_handshake s u t w \<longleftrightarrow> connect_sig t \<and> connect_result t = None \<and> untouched t = u \<and> w = s"

definition accepted_by_broker where
  "accepted_by_broker t \<longleftrightarrow> \<not> connect_sig t \<and> (\<exists>session_present. connect_result t = Some (Inr session_present))"

definition handshake_inv where
  "handshake_inv out s u t \<longleftrightarrow>
     outbox_inv t \<and> in_handshake s u t (wire out t) \<or> accepted_by_broker t"

definition handshake_end where
  "handshake_end out s u stop t \<longleftrightarrow>
     accepted_by_broker t \<or>
     untouched t = u \<and> prefix (out (transport t)) s \<and>
     (if connect_sig t then connect_result t = None else (\<exists>e. connect_result t = Some (Inl e)) \<and> stop)"

lemma handshake_inv_end: "handshake_inv out s u t \<Longrightarrow> handshake_end out s u stop t"
  by (auto simp: handshake_inv_def handshake_end_def in_handshake_def wire_def)

lemma accepted_keeps:
  assumes "keeps (\<lambda>t. (connect_sig t, connect_result t)) m" and "accepted_by_broker t" and "m t = (r, t')"
  shows "accepted_by_broker t'"
  using keepsD [OF assms(1,3)] assms(2) by (simp add: accepted_by_broker_def)

context session
begin

definition step_result :: "u8 list \<Rightarrow> _ \<Rightarrow> (io_error, task_state) result \<times> ('t, 'w) transceiver \<Rightarrow> bool" where
  "step_result s u = (\<lambda>(r, t).
     if r = Inr WantContinue then handshake_inv out s u t else handshake_end out s u (r = Inr WantStop) t)"

lemma step_result_inv: "handshake_inv out s u t \<Longrightarrow> step_result s u (r, t)"
  by (simp add: step_result_def handshake_inv_end)

lemma in_handshake_read:
  assumes "outbox_inv t" and "in_handshake s u t (wire out t)" and "out c = out (transport t)"
  shows "handshake_inv out s u (t\<lparr>rx_pkt := pr, transport := c\<rparr>)"
  using assms by (simp add: handshake_inv_def in_handshake_def untouched_def wire_def outbox_inv_def)

lemma process_packet_handshake:
  assumes "handshake_inv out s u t" and "process_packet E pkt t = (r, t')"
  shows "if r = Inr False then handshake_inv out s u t' else handshake_end out s u (r = Inr True) t'"
proof (cases "connect_sig t")
  case True
  then have i: "outbox_inv t" "in_handshake s u t (wire out t)"
    using assms(1) by (auto simp: handshake_inv_def accepted_by_broker_def)
  obtain res where t': "t' = t\<lparr>connect_sig := False, connect_result := Some res\<rparr>"
    and r: "r = Inr (case res of Inl _ \<Rightarrow> True | Inr _ \<Rightarrow> False)"
    using assms(2) True by (auto simp: process_packet_def Let_def)
  from i show ?thesis
    unfolding t' r
    by (cases res) (auto simp: handshake_inv_def handshake_end_def accepted_by_broker_def in_handshake_def
        untouched_def wire_def)
next
  case False
  then have a: "accepted_by_broker t" using assms(1) by (auto simp: handshake_inv_def in_handshake_def)
  have "act_bind (process_connected E pkt) (\<lambda>_. act_return False) t = (r, t')"
    using assms(2) False by (simp add: process_packet_def)
  from accepted_keeps [OF keeps_bind [OF handshake.keeps_process_connected keeps_basic(1)] a this]
  have "accepted_by_broker t'" .
  then show ?thesis by (simp add: handshake_inv_def handshake_end_def)
qed

lemma read_loop_handshake:
  assumes "read_loop E t = Some y" and "handshake_inv out s u t"
  shows "step_result s u y"
proof -
  let ?P = "\<lambda>E' t y. E' = E \<longrightarrow> handshake_inv out s u t \<longrightarrow> step_result s u y"
  have "?P E t y"
  proof (rule read_loop.raw_induct [of ?P, OF _ assms(1)], intro impI)
    fix loop E' t y
    assume IH: "\<And>E' t y. loop E' t = Some y \<Longrightarrow> ?P E' t y" and E': "E' = E" and t: "handshake_inv out s u t"
      and body: "(case on_reader (recv (en_cfg_test E') (en_transport E')) t of
        (Inr (Incoming pkt), t) \<Rightarrow>
          (case process_packet E' pkt t of
             (Inl f, t) \<Rightarrow> Some (Inl f, t)
           | (Inr stop, t) \<Rightarrow> if stop then Some (Inr WantStop, t) else loop E' t)
      | (Inr ConnectionClosed, t) \<Rightarrow> Some (Inr TaskConnectionClosed, t)
      | (Inr NeedMoreData, t) \<Rightarrow> loop E' t
      | (Inl (Err err), t) \<Rightarrow>
          Some (if io_kind err = WouldBlock then Inr WantContinue else Inl (Err err), t)
      | (Inl f, t) \<Rightarrow> Some (Inl f, t)) = Some y"
    obtain r t1 where m: "on_reader (recv (en_cfg_test E) (en_transport E)) t = (r, t1)" by fastforce
    then obtain pr c where c: "recv (en_cfg_test E) (en_transport E) (rx_pkt t, transport t) = (r, (pr, c))"
      and t1: "t1 = t\<lparr>rx_pkt := pr, transport := c\<rparr>" by (auto simp: act_zoom_eq)
    have i: "handshake_inv out s u t1"
      using t recv_out [OF c] in_handshake_read [of t s u c pr]
      unfolding t1 handshake_inv_def accepted_by_broker_def by auto
    show "step_result s u y"
    proof (cases "\<exists>pkt. r = Inr (Incoming pkt)")
      case True
      then obtain pkt where r: "r = Inr (Incoming pkt)" by blast
      obtain r2 t2 where p: "process_packet E pkt t1 = (r2, t2)" by fastforce
      from process_packet_handshake [OF i p] body m r p IH E' show ?thesis
        by (auto simp: step_result_def split: sum.splits if_splits)
    next
      case False
      with body m i IH E' show ?thesis
        by (auto intro: step_result_inv split: sum.splits packet_read_state.splits fault.splits)
    qed
  qed
  with assms(2) show ?thesis by simp
qed


lemma write_ready_handshake:
  assumes "outbox_inv t" and "in_handshake s u t (wire out t)" and "write_ready E x t = (r, t')"
  shows "case r of Inr _ \<Rightarrow> handshake_inv out s u t' | Inl _ \<Rightarrow> handshake_end out s u False t'"
proof -
  have k: "untouched t' = untouched t" "(connect_sig t', connect_result t') = (connect_sig t, connect_result t)"
    using keepsD [OF offline.keeps_write_ready assms(3)] keepsD [OF handshake.keeps_write_ready assms(3)] .
  obtain r1 t1 where p: "act_bind (check_ready x) (\<lambda>_. on_transport (t_pre_write (en_transport E))) t = (r1, t1)"
    by fastforce
  then have o: "out (transport t1) = out (transport t)" and t1: "\<exists>c. t1 = t\<lparr>transport := c\<rparr>"
    using keepsD [OF others_keep(4)]
    by (auto simp: act_bind_def check_ready_def act_simps act_zoom_def split: option.splits prod.splits
        intro: exI [of _ "transport t"])
  then have b: "outbox_inv t1" "wire out t1 = s" using assms(1,2) by (auto simp: outbox_inv_def wire_def in_handshake_def)
  have "(\<exists>a. r = Inr a \<and> outbox_inv t' \<and> wire out t' = s) \<or> (\<exists>f. r = Inl f \<and> prefix (out (transport t')) s)"
  proof (cases r1)
    case (Inl f)
    then have "t' = t1" "r = Inl f" using p assms(3)
      by (auto simp: write_ready_def act_bind_def split: prod.splits sum.splits)
    then show ?thesis using b by (auto simp: wire_def)
  next
    case (Inr a)
    obtain r2 t2 where c: "continue_writing_packet E t1 = (r2, t2)" by fastforce
    have w: "(case (r2, t2) of
       (Inl (Err err), t) \<Rightarrow> if io_kind err \<noteq> WouldBlock then (Inl (Err err), t) else (Inr False, t)
     | (res, t) \<Rightarrow> (res, t)) = (r, t')"
      using p assms(3) Inr c
      by (auto simp: write_ready_def act_bind_def split: prod.splits sum.splits)
    show ?thesis
      by (rule continue_writing_packet_cases [OF b(1) c]) (use w b in \<open>auto split: if_splits\<close>)
  qed
  with assms(2) k show ?thesis
    by (auto simp: handshake_inv_def handshake_end_def in_handshake_def)
qed

lemma read_ready_handshake:
  assumes "read_ready E x t = Some y" and "handshake_inv out s u t"
  shows "step_result s u y"
proof -
  let ?m = "act_bind (check_ready x) (\<lambda>_. on_transport (t_pre_read (en_transport E)))"
  obtain r1 t1 where p: "?m t = (r1, t1)" by fastforce
  then have "out (transport t1) = out (transport t)" and "\<exists>c. t1 = t\<lparr>transport := c\<rparr>"
    using keepsD [OF others_keep(2)]
    by (auto simp: act_bind_def check_ready_def act_simps act_zoom_def split: option.splits prod.splits
        intro: exI [of _ "transport t"])
  then have "handshake_inv out s u t1"
    using assms(2)
    by (auto simp: handshake_inv_def in_handshake_def accepted_by_broker_def untouched_def wire_def outbox_inv_def)
  with assms(1) p read_loop_handshake [of t1 y] show ?thesis
    by (auto simp: read_ready_def intro: step_result_inv split: sum.splits bool.splits)
qed

lemma task_step_handshake:
  assumes "task_step E ev t = Some y" and "event_enabled E ev t" and "handshake_inv out s u t"
  shows "step_result s u y"
proof (cases "accepted_by_broker t")
  case True
  have acc: "step_result s u (m t)" if "keeps (\<lambda>t. (connect_sig t, connect_result t)) m" for m
    using accepted_keeps [OF that True] by (cases "m t") (simp add: step_result_def handshake_inv_def handshake_end_def)
  show ?thesis
  proof (cases ev)
    case (ReadReady x)
    then show ?thesis using read_ready_handshake assms by (simp add: task_step_def)
  qed (use assms(1) in \<open>auto simp: task_step_def intro!: acc keeps_intros handshake.keeps_write_ready
      handshake.keeps_command_ready handshake.keeps_alarm_tick\<close>)
next
  case False
  then have i: "outbox_inv t" "in_handshake s u t (wire out t)" and "connect_sig t"
    using assms(3) by (auto simp: handshake_inv_def in_handshake_def)
  show ?thesis
  proof (cases ev)
    case (WriteReady x)
    obtain r t' where w: "write_ready E x t = (r, t')" by fastforce
    from write_ready_handshake [OF i w] assms(1) w WriteReady show ?thesis
      by (auto simp: task_step_def act_bind_def act_return_def step_result_def handshake_inv_end
          split: sum.splits if_splits)
  next
    case (ReadReady x)
    then show ?thesis using read_ready_handshake assms by (simp add: task_step_def)
  next
    case (CommandRecv cmd)
    then show ?thesis using assms(2) \<open>connect_sig t\<close> by (simp add: event_enabled_def connected_def Let_def)
  next
    case AlarmTick
    then show ?thesis
      using assms(1,3) \<open>connect_sig t\<close>
      by (auto simp: task_step_def alarm_tick_def connected_def act_bind_def act_return_def intro: step_result_inv)
  qed
qed

lemma step_loop_handshake:
  assumes "handshake_inv out s u t" and "step_loop E evs t = (p, t', rest)"
  shows "handshake_end out s u (p = Finished (Inr False)) t'"
  using assms
proof (induction evs arbitrary: t)
  case (Cons ev evs)
  show ?case
  proof (cases "event_enabled E ev t \<and> task_step E ev t \<noteq> None")
    case True
    then obtain r t1 where ts: "task_step E ev t = Some (r, t1)" by auto
    from task_step_handshake [OF ts _ Cons.prems(1)] True ts Cons.IH [of t1] Cons.prems(2) show ?thesis
      by (auto simp: step_result_def split: sum.splits task_state.splits)
  next
    case False
    with Cons show ?thesis
      by (cases "task_step E ev t") (auto intro: handshake_inv_end split: if_splits)
  qed
qed (auto intro: handshake_inv_end)

end

lemma run_task_loop_handshake:
  assumes "transport_contract (en_transport E) inp out" and "\<not> en_cfg_test E"
    and "spawn_state E tr pkt ping sh delay w = Inr t" and "pkt \<noteq> []" and "out tr = []"
    and "run_task_loop E evs t = (p, t', rest)"
  shows "case connect_result t' of
      None \<Rightarrow> connect_sig t' \<and> untouched t' = untouched t \<and> prefix (out (transport t')) pkt
    | Some (Inl _) \<Rightarrow> p = Finished (Inr False) \<and> untouched t' = untouched t \<and> prefix (out (transport t')) pkt
    | Some (Inr _) \<Rightarrow> connected t'"
proof -
  have se: "session E inp out" and co: "connection E inp out"
    using assms(1,2) by (auto intro: session.intro connection.intro session_axioms.intro)
  obtain ping_pkt where "make_arc_packet ping_req_impl () = Inr ping_pkt" using packets_made(6) by blast
  then have t: "tx_pkt t = Some \<lparr>tx_bytes = pkt, tx_pos = 0, tx_set_dup = False\<rparr>" "internal_pkt_queue t = []"
    "transport t = tr" "connect_sig t" "connect_result t = None"
    using assms(3) by (auto simp: spawn_state_def)
  obtain r1 t1 where s: "try_send_packet E pkt False (t\<lparr>tx_pkt := None\<rparr>) = (r1, t1)" by fastforce
  have "handshake_end out pkt (untouched t) (p = Finished (Inr False)) t'"
  proof (rule connection.try_send_packet_cases [OF co assms(4) _ s])
    fix c tx
    assume h: "r1 = Inr ()" "t1 = t\<lparr>tx_pkt := None, transport := c, tx_pkt := tx\<rparr>" "tx_ok tx"
      "out c @ tx_rest tx = out (transport (t\<lparr>tx_pkt := None\<rparr>)) @ render pkt False"
    then have "handshake_inv out pkt (untouched t) t1"
      using t assms(5)
      by (simp add: handshake_inv_def in_handshake_def untouched_def outbox_inv_def wire_def)
    moreover have "step_loop E evs t1 = (p, t', rest)"
      using assms(6) s h(1) t by (simp add: run_task_loop_def)
    ultimately show ?thesis by (rule session.step_loop_handshake [OF se])
  next
    fix e c
    assume h: "r1 = Inl (Err e)" "t1 = t\<lparr>tx_pkt := None, transport := c\<rparr>"
      "prefix (out c) (out (transport (t\<lparr>tx_pkt := None\<rparr>)) @ render pkt False)"
    with assms(5,6) s t show ?thesis
      by (auto simp: run_task_loop_def handshake_end_def untouched_def)
  qed simp
  then show ?thesis
    by (auto simp: handshake_end_def accepted_by_broker_def connected_def split: option.splits sum.splits if_splits)
qed

text \<open>
  C15. The handshake comes first. Until the broker answers CONNECT, the task sends nothing but
  the CONNECT packet, takes no command, and changes neither the subscriptions nor the state
  shared with the futures, whatever arrives. A refusal, or any other packet in the place of
  CONNACK, ends the main loop in that state; everything else requires that the broker
  accepted.
\<close>

theorem handshake_comes_first:
  assumes "transport_contract (en_transport E) inp out" and "\<not> en_cfg_test E"
    and "spawn_state E tr pkt ping sh delay w = Inr t" and "pkt \<noteq> []" and "out tr = []"
    and "run_task_loop E evs t = (p, t', rest)"
  shows "case connect_result t' of
      None \<Rightarrow> connect_sig t' \<and> untouched t' = untouched t \<and> prefix (out (transport t')) pkt
    | Some (Inl _) \<Rightarrow> p = Finished (Inr False) \<and> untouched t' = untouched t \<and> prefix (out (transport t')) pkt
    | Some (Inr _) \<Rightarrow> connected t'"
  by (rule run_task_loop_handshake [OF assms])

theorem handshake_comes_first_witness:
  "\<exists>t' rest. run_task_loop script_env [CommandRecv (Some CmdDisconnect), AlarmTick, ReadReady None]
       (client_start [Some [0x20, 2, 0, 5], None] []) = (Finished (Inr False), t', rest) \<and>
     connect_result t' = Some (Inl NotAuthorized) \<and>
     untouched t' = untouched (client_start [Some [0x20, 2, 0, 5], None] []) \<and>
     prefix (sc_out (tcp (transport t'))) [0x10, 0]"
proof -
  let ?evs = "[CommandRecv (Some CmdDisconnect), AlarmTick, ReadReady None]"
  let ?t = "client_start [Some [0x20, 2, 0, 5], None] []"
  have "(\<lambda>(x, t', _). (x, connect_result t')) (run_task_loop script_env ?evs ?t)
      = (Finished (Inr False), Some (Inl NotAuthorized))"
    by code_simp
  then obtain t' rest where r: "run_task_loop script_env ?evs ?t = (Finished (Inr False), t', rest)"
    and o: "connect_result t' = Some (Inl NotAuthorized)" by (auto split: prod.splits)
  have c: "transport_contract (en_transport script_env) (\<lambda>t. script_inp (tcp t)) (\<lambda>t. sc_out (tcp t))"
    by (rule scripted_client.transport_contract_axioms)
  from handshake_comes_first [OF c _ spawn_client_start [of "[Some [0x20, 2, 0, 5], None]" "[]"] _ _ r] r o
  show ?thesis by (auto simp: script_env_def tcp_transport_new_def)
qed

end
