(* ===== verification/Resend_Properties.thy ===== *)
theory Resend_Properties
  imports Protocol_Properties
begin

text \<open>
  The alarm: pings and the retransmission of packets that have not been acknowledged.
\<close>

section \<open>Retransmissions\<close>

text \<open>The packet that awaits an acknowledgement under an identifier, if any.\<close>

definition awaiting :: "('t, 'w) transceiver \<Rightarrow> id_type \<Rightarrow> u8 list option" where
  "awaiting t i =
     (if it_ty i = PT_Subscribe then map_option ps_packet (pending_subs t (it_id i))
      else pending_packets t i)"

text \<open>
  The timers that have expired, the bytes that are sent for them and the timers that are set
  again.
\<close>

definition due :: "nat \<Rightarrow> ('t, 'w) transceiver \<Rightarrow> timeout \<Rightarrow> bool" where
  "due now t x = (packet_resend_delay t \<le> now - to_t x)"

definition resent :: "('t, 'w) transceiver \<Rightarrow> timeout list \<Rightarrow> u8 list" where
  "resent t xs =
     concat (map (\<lambda>x. case awaiting t (to_packet_id x) of
         None \<Rightarrow> []
       | Some p \<Rightarrow> render p (it_ty (to_packet_id x) = PT_Publish)) xs)"

definition set_again :: "nat \<Rightarrow> ('t, 'w) transceiver \<Rightarrow> timeout list \<Rightarrow> timeout list" where
  "set_again now t xs =
     map (\<lambda>x. x\<lparr>to_t := now\<rparr>) (filter (\<lambda>x. awaiting t (to_packet_id x) \<noteq> None) xs)"

text \<open>A clock that shows the same time while the alarm is handled.\<close>

definition clock_stands :: "('t, 'w) env \<Rightarrow> nat \<Rightarrow> bool" where
  "clock_stands E now = (\<forall>n. en_clock E n = now)"

definition same_session :: "('t, 'w) transceiver \<Rightarrow> ('t, 'w) transceiver \<Rightarrow> bool" where
  "same_session t t' \<longleftrightarrow>
     pending_packets t' = pending_packets t \<and> pending_subs t' = pending_subs t \<and>
     packet_resend_delay t' = packet_resend_delay t"

lemma same_session_simps:
  assumes "same_session t t'"
  shows "due now t' = due now t" "awaiting t' = awaiting t" "resent t' xs = resent t xs" "set_again now t' xs = set_again now t xs"
proof -
  show a: "awaiting t' = awaiting t" using assms by (simp add: same_session_def awaiting_def fun_eq_iff)
  show "due now t' = due now t" using assms by (simp add: same_session_def due_def fun_eq_iff)
  show "resent t' xs = resent t xs" "set_again now t' xs = set_again now t xs"
    by (simp_all add: resent_def set_again_def a)
qed

lemma resent_simps [simp]:
  "resent t [] = []" "set_again now t [] = []"
  "resent t (x # xs) = (case awaiting t (to_packet_id x) of
     None \<Rightarrow> [] | Some p \<Rightarrow> render p (it_ty (to_packet_id x) = PT_Publish)) @ resent t xs"
  "set_again now t (x # xs) =
     (if awaiting t (to_packet_id x) = None then [] else [x\<lparr>to_t := now\<rparr>]) @ set_again now t xs"
  by (simp_all add: resent_def set_again_def)

context connection
begin

lemma resend_packet_effect:
  assumes "outbox_inv t" and "\<forall>i p. awaiting t i = Some p \<longrightarrow> p \<noteq> []" and "clock_stands E now"
    and "resend_packet E x t = (Inr u, t')"
  shows "outbox_inv t'" "wire out t' = wire out t @ resent t [x]"
    "timeout_queue t' = timeout_queue t @ set_again now t [x]" "same_session t t'"
proof -
  have "outbox_inv t' \<and> wire out t' = wire out t @ resent t [x] \<and>
    timeout_queue t' = timeout_queue t @ set_again now t [x] \<and> same_session t t'"
  proof (cases "awaiting t (to_packet_id x)")
    case None
    with assms show ?thesis by (auto simp: resend_packet_def awaiting_def same_session_def)
  next
    case (Some p)
    let ?dup = "it_ty (to_packet_id x) = PT_Publish"
    obtain r1 t1 where q: "queue_internal_packet E p ?dup t = (r1, t1)" by fastforce
    have m: "act_bind (queue_internal_packet E p ?dup) (\<lambda>_. act_bind (timeout_refresh E x) push_timeout) t
        = (Inr u, t')"
      using assms(4) Some by (simp add: resend_packet_def awaiting_def split: if_splits)
    show ?thesis
    proof (rule queue_internal_packet_cases [OF assms(2) [rule_format, OF Some] assms(1) q])
      assume h: "r1 = Inr ()" "io_frame inp t t1" "outbox_inv t1"
        "wire out t1 = wire out t @ render p ?dup"
      then have t': "t' = t1\<lparr>clock_reads := clock_reads t1 + 1,
          timeout_queue := timeout_queue t1 @ [x\<lparr>to_t := now\<rparr>]\<rparr>"
        using m q assms(3)
        by (auto simp: act_bind_def timeout_refresh_def instant_now_def push_timeout_def act_simps clock_stands_def)
      have f: "timeout_queue t1 = timeout_queue t" "pending_packets t1 = pending_packets t"
        "pending_subs t1 = pending_subs t" "packet_resend_delay t1 = packet_resend_delay t"
        using h(2) unfolding io_frame_def by (cases t; cases t1; simp)+
      show ?thesis
        using h Some f unfolding t'
        by (simp add: outbox_inv_def wire_def same_session_def awaiting_def fun_eq_iff)
    qed (use m q in \<open>simp add: act_bind_def\<close>)
  qed
  then show "outbox_inv t'" "wire out t' = wire out t @ resent t [x]"
    "timeout_queue t' = timeout_queue t @ set_again now t [x]" "same_session t t'" by simp_all
qed

lemma alarm_loop_effect:
  assumes "outbox_inv t" and "\<forall>i p. awaiting t i = Some p \<longrightarrow> p \<noteq> []" and "clock_stands E now"
    and "timeout_queue t = xs @ ys" and "alarm_loop E (length xs) t = (Inr u, t')"
  shows "wire out t' = wire out t @ resent t (takeWhile (due now t) xs) \<and>
    timeout_queue t' = dropWhile (due now t) xs @ ys @ set_again now t (takeWhile (due now t) xs) \<and>
    same_session t t'"
  using assms
proof (induction xs arbitrary: t ys)
  case (Cons x xs)
  let ?t = "t\<lparr>clock_reads := clock_reads t + 1\<rparr>"
  have body: "(if now - to_t x < packet_resend_delay t then (Inr (), ?t)
      else act_bind (resend_packet E x) (\<lambda>_. alarm_loop E (length xs)) (?t\<lparr>timeout_queue := xs @ ys\<rparr>)) = (Inr u, t')"
    using Cons.prems(3-5) by (simp add: act_bind_def [of "instant_now E"] instant_now_def clock_stands_def split: if_splits)
  show ?case
  proof (cases "due now t x")
    case False
    then have "t' = ?t" using body by (simp add: due_def)
    with False Cons.prems(4) show ?thesis
      by (simp add: wire_def same_session_def awaiting_def fun_eq_iff)
  next
    case True
    let ?t1 = "?t\<lparr>timeout_queue := xs @ ys\<rparr>"
    have "act_bind (resend_packet E x) (\<lambda>_. alarm_loop E (length xs)) ?t1 = (Inr u, t')"
      using True body by (simp add: due_def)
    then obtain u1 t2 where r: "resend_packet E x ?t1 = (Inr u1, t2)"
      and l: "alarm_loop E (length xs) t2 = (Inr u, t')" by (auto simp: act_bind_eq_Inr)
    have s1: "same_session t ?t1" by (simp add: same_session_def)
    have o: "outbox_inv ?t1" using Cons.prems(1) by (simp add: outbox_inv_def)
    have e: "outbox_inv t2" "wire out t2 = wire out t @ resent t [x]"
      "timeout_queue t2 = xs @ ys @ set_again now t [x]" "same_session t t2"
      using resend_packet_effect [OF o _ Cons.prems(3) r, unfolded same_session_simps [OF s1], OF Cons.prems(2)]
      by (simp_all add: same_session_def wire_def)
    note s2 = same_session_simps [OF e(4)]
    have "wire out t' = wire out t2 @ resent t2 (takeWhile (due now t2) xs) \<and>
      timeout_queue t' = dropWhile (due now t2) xs @ (ys @ set_again now t [x]) @
        set_again now t2 (takeWhile (due now t2) xs) \<and> same_session t2 t'"
      by (rule Cons.IH [OF e(1) _ Cons.prems(3) e(3) l]) (use Cons.prems(2) s2 in simp)
    with e True s2 show ?thesis by (simp add: same_session_def)
  qed
qed (simp add: same_session_def)

end

lemma bind_instant:
  "clock_stands E now \<Longrightarrow> act_bind (instant_now E) k t = k now (t\<lparr>clock_reads := clock_reads t + 1\<rparr>)"
  by (simp add: act_bind_def instant_now_def clock_stands_def)

lemma session_inv_awaiting:
  assumes "session_inv out X t" and "awaiting t i = Some p"
  shows "p \<noteq> []"
  using session_invD(3) [OF assms(1)] assms(2) is_packet_not_Nil
  by (auto simp: awaiting_def kept_def split: if_splits)


text \<open>A client with two overdue packets, of which the second has been acknowledged, and one that is not due.\<close>

definition overdue :: "(script tcp_transport, (handle \<times> incoming_publish_packet) list) transceiver" where
  "overdue =
     (online [])\<lparr>pending_packets := (\<lambda>_. None)(id_publish 7 \<mapsto> [0x32, 0], id_pub_rel 9 \<mapsto> [0x62, 2, 0, 9]),
        timeout_queue := [\<lparr>to_t = 0, to_packet_id = id_publish 7\<rparr>, \<lparr>to_t = 1, to_packet_id = id_publish 8\<rparr>,
          \<lparr>to_t = 9000000000, to_packet_id = id_pub_rel 9\<rparr>]\<rparr>"

definition standing_env :: "(script tcp_transport, (handle \<times> incoming_publish_packet) list) env" where
  "standing_env = script_env\<lparr>en_clock := (\<lambda>_. 10000000000)\<rparr>"

lemma overdue_inv: "session_inv (\<lambda>t. sc_out (tcp t)) {} overdue"
proof -
  let ?f = "\<lambda>s. ((), s\<lparr>unbounded_queue := [3], subscribed := True\<rparr>)"
  obtain r n where g: "get_or_create (str_bytes ''a'') ?f node_default = (r, n)" by fastforce
  have "tree_ok n"
    by (rule tree_ok_get_or_create [OF _ g]) (simp add: tree_ok_def, simp add: sub_ok_def)
  moreover have "outbox_inv overdue" "wire (\<lambda>t. sc_out (tcp t)) overdue = []"
    "reader_inv (rx_pkt overdue)" "is_packet (ping_req overdue)" "is_packet [0x32, 0]" "is_packet [0x62, 2, 0, 9]"
    by code_simp+
  moreover have "whole_packets []" unfolding whole_packets_def by (rule exI [of _ "[]"]) simp
  moreover have "pending_subs (client_start [] []) = (\<lambda>_. None)"
    using packets_made(6) by (auto simp: client_start_def spawn_state_def)
  ultimately show ?thesis
    using g
    by (auto simp: session_inv_def sending_def kept_def has_timer_def overdue_def online_def id_type_defs)
qed


end
