(* ===== verification/Lifecycle_Properties.thy ===== *)
theory Lifecycle_Properties
  imports Protocol_Properties Frames
begin

text \<open>
  The end of the task, which releases the futures that still wait, and the termination of the
  read loop.
\<close>

section \<open>The end of the task\<close>

lemma waiters_keepsD:
  assumes "keeps (\<lambda>t. (shared t, woken t)) m" and "m t = (r, t')"
  shows "shared t' = shared t \<and> woken t' = woken t"
  using keepsD [OF assms] by simp

lemma transport_keeps_waiters:
  "keeps (\<lambda>t. (shared t, woken t)) (act_bind (check_ready r) (\<lambda>_. on_transport n))"
  "keeps (\<lambda>t. (shared t, woken t)) (read_event E r)"
  by (auto simp: read_event_def intro!: keeps_intros keeps_zoom)

lemmas waitersD = waiters_keepsD [OF waiters.keeps_write_ready]
  waiters_keepsD [OF transport_keeps_waiters(1)] waiters_keepsD [OF transport_keeps_waiters(2)]

lemma shutdown_loops_keep:
  "flush_loop E evs t = (p, t', evs') \<Longrightarrow> shared t' = shared t \<and> woken t' = woken t"
  "close_loop E evs t = (p, t', evs') \<Longrightarrow> shared t' = shared t \<and> woken t' = woken t"
proof -
  show "flush_loop E evs t = (p, t', evs') \<Longrightarrow> shared t' = shared t \<and> woken t' = woken t"
  proof (induction evs arbitrary: t)
    case (Cons ev evs)
    then show ?case
      by (subst (asm) (2) flush_loop.simps)
        (auto simp: Let_def dest!: waitersD
          split: if_splits event.splits prod.splits sum.splits bool.splits)
  qed (auto simp: flush_loop.simps [of E "[]"] Let_def split: if_splits)
  show "close_loop E evs t = (p, t', evs') \<Longrightarrow> shared t' = shared t \<and> woken t' = woken t"
  proof (induction evs arbitrary: t)
    case (Cons ev evs)
    then show ?case
      by (subst (asm) (2) close_loop.simps)
        (auto simp: Let_def dest!: waitersD
          split: if_splits event.splits prod.splits sum.splits bool.splits)
  qed (auto simp: close_loop.simps [of E "[]"] Let_def split: if_splits)
qed

lemma disconnect_sequence_keeps:
  assumes "disconnect_sequence E evs t = (p, t', evs')"
  shows "shared t' = shared t \<and> woken t' = woken t"
proof -
  have d: "shared t' = shared t \<and> woken t' = woken t"
    if "send_disconnect_and_flush E evs t = (p, t', evs')" for p t' evs'
    using that
    by (auto simp: send_disconnect_and_flush_def dest!: shutdown_loops_keep
        waiters_keepsD [OF keeps_bind [OF keeps_basic(4) waiters.keeps_queue]]
        split: if_splits prod.splits sum.splits)
  have c: "shared t' = shared t \<and> woken t' = woken t"
    if "send_close_notify E evs t = (p, t', evs')" for p t t' evs evs'
    using shutdown_loops_keep(2) [of E evs _ p t' evs'] that by (auto simp: send_close_notify_def)
  show ?thesis
    using assms
    by (auto simp: disconnect_sequence_def and_clean_def dest!: d c
        split: prod.splits progress.splits sum.splits fault.splits)
qed

text \<open>Everything that waits in the shared state, and the wakers that are registered there.\<close>

definition waiting :: "client_shared \<Rightarrow> waker set" where
  "waiting sh =
     {w. (\<exists>st i. hm_get i (access_notifier_map st sh) = Some (WithWaker w)) \<or>
         (\<exists>topic ws. hm_get topic (subs sh) = Some (Pending ws) \<and> Some w \<in> set ws)}"

lemma fail_stage_effect:
  assumes "fail_stage st (sh, ws) = (sh', ws')"
  shows "hm_get i (access_notifier_map st' sh') =
      (if st' = st then map_option (\<lambda>_. Failed) (hm_get i (access_notifier_map st' sh))
       else hm_get i (access_notifier_map st' sh))"
    and "subs sh' = subs sh" and "set ws \<subseteq> set ws'"
    and "hm_get i (access_notifier_map st sh) = Some (WithWaker w) \<Longrightarrow> w \<in> set ws'"
proof -
  obtain m ws1 where f: "fail_notify_map (access_notifier_map st sh) = (m, ws1)" by fastforce
  then have e: "sh' = set_notifier_map st m sh" "ws' = ws @ ws1"
    using assms by (simp_all add: fail_stage_def)
  show "hm_get i (access_notifier_map st' sh') =
      (if st' = st then map_option (\<lambda>_. Failed) (hm_get i (access_notifier_map st' sh))
       else hm_get i (access_notifier_map st' sh))"
    using hm_get_fail [of i "access_notifier_map st sh"] f e by (cases st; cases st') simp_all
  show "subs sh' = subs sh" using e by (cases st) simp_all
  show "set ws \<subseteq> set ws'" using e by simp
  show "w \<in> set ws'" if "hm_get i (access_notifier_map st sh) = Some (WithWaker w)"
    using fail_notify_map_wakes [OF that] f e by simp
qed

lemma release_waiters_effect:
  "hm_get i (access_notifier_map st (shared (release_waiters t))) =
     map_option (\<lambda>_. Failed) (hm_get i (access_notifier_map st (shared t)))"
  "subs (shared (release_waiters t)) = []"
  "waiting (shared t) \<subseteq> set (woken (release_waiters t))"
proof -
  obtain s1 w1 where 1: "fail_stage StAck (shared t, []) = (s1, w1)" by fastforce
  obtain s2 w2 where 2: "fail_stage StRec (s1, w1) = (s2, w2)" by fastforce
  obtain s3 w3 where 3: "fail_stage StComp (s2, w2) = (s3, w3)" by fastforce
  let ?ws = "w3 @ concat (map (\<lambda>(_, sub). case sub of Pending sub_wakers \<Rightarrow> present_wakers sub_wakers | _ \<Rightarrow> [])
      (subs s3))"
  have r: "release_waiters t = t\<lparr>shared := s3\<lparr>subs := []\<rparr>, woken := woken t @ ?ws\<rparr>"
    using 1 2 3 by (simp add: release_waiters_def drain_subs_def)
  have a: "access_notifier_map st (s3\<lparr>subs := []\<rparr>) = access_notifier_map st s3" for st
    by (cases st) simp_all
  show "hm_get i (access_notifier_map st (shared (release_waiters t))) =
     map_option (\<lambda>_. Failed) (hm_get i (access_notifier_map st (shared t)))"
    using fail_stage_effect(1) [OF 1] fail_stage_effect(1) [OF 2] fail_stage_effect(1) [OF 3] r
    by (cases st) (simp_all add: a del: access_notifier_map.simps)
  show "subs (shared (release_waiters t)) = []" by (simp add: r)
  have "w \<in> set ?ws" if "hm_get i (access_notifier_map st (shared t)) = Some (WithWaker w)" for st i w
    using that fail_stage_effect [OF 1] fail_stage_effect [OF 2] fail_stage_effect [OF 3]
    by (cases st) (simp_all del: access_notifier_map.simps set_concat set_map, blast+)
  moreover have "w \<in> set ?ws"
    if "hm_get topic (subs (shared t)) = Some (Pending ws)" "Some w \<in> set ws" for topic ws w
  proof -
    have "(topic, Pending ws) \<in> set (subs s3)"
      using that(1) fail_stage_effect(2) [OF 1] fail_stage_effect(2) [OF 2] fail_stage_effect(2) [OF 3]
      by (auto simp: hm_get_def dest: map_of_SomeD)
    moreover have "w \<in> set (present_wakers ws)"
      using that(2) by (force simp: present_wakers_def List.map_filter_def image_iff)
    ultimately show ?thesis by (auto intro!: bexI [of _ "(topic, Pending ws)"])
  qed
  ultimately have "waiting (shared t) \<subseteq> set ?ws" unfolding waiting_def by blast
  then show "waiting (shared t) \<subseteq> set (woken (release_waiters t))"
    unfolding r by (simp del: set_concat set_map) blast
qed


text \<open>The client of \<open>online\<close> with a publication that waits for its PUBACK.\<close>

definition publishing :: "u8 list option list \<Rightarrow>
    (script tcp_transport, (handle \<times> incoming_publish_packet) list) transceiver" where
  "publishing rds =
     (online [])\<lparr>transport := tcp_transport_new \<lparr>sc_reads = rds, sc_writes = [], sc_out = []\<rparr>,
        shared := client_shared_new\<lparr>notify_ack := [(7, WithWaker 42)]\<rparr>\<rparr>"


text \<open>
  C35. When the broker closes the connection the task ends without releasing anybody: the
  shared state is left as it is, so a task that waits for an acknowledgement is not woken and
  would be told to go on waiting if it polled its future again.
\<close>

theorem closed_connection_strands_waiters:
  assumes "run_task_loop E evs t = (Finished (Inr True), t1, rest)"
    and "hm_get i (access_notifier_map st (shared t1)) = Some (WithWaker w)"
  shows "task E evs closing t = (Finished (Inr \<lparr>ss_disconnect_sent = False, ss_clean = False\<rparr>), t1) \<and>
    fst (publish_future_poll w' \<lparr>pf_packet_id = i, pf_notifier = st, pf_result = None\<rparr> (shared t1)) = PollPending"
  using assms by (simp add: task_def publish_future_poll_def Let_def)

theorem closed_connection_strands_waiters_witness:
  "\<exists>t1. task script_env [ReadReady None] [] (publishing []) =
       (Finished (Inr \<lparr>ss_disconnect_sent = False, ss_clean = False\<rparr>), t1) \<and> woken t1 = [] \<and>
     fst (publish_future_poll 42 \<lparr>pf_packet_id = 7, pf_notifier = StAck, pf_result = None\<rparr> (shared t1)) = PollPending"
proof -
  have "(\<lambda>(x, t1, _). (x, shared t1, woken t1))
       (run_task_loop script_env [ReadReady None] (publishing [])) =
      (Finished (Inr True), client_shared_new\<lparr>notify_ack := [(7, WithWaker 42)]\<rparr>, [])"
    by code_simp
  then obtain t1 rest where r: "run_task_loop script_env [ReadReady None] (publishing []) =
      (Finished (Inr True), t1, rest)"
    and sh: "shared t1 = client_shared_new\<lparr>notify_ack := [(7, WithWaker 42)]\<rparr>" "woken t1 = []"
    by (auto split: prod.splits)
  have "hm_get 7 (access_notifier_map StAck (shared t1)) = Some (WithWaker 42)"
    by (simp add: sh hm_get_def)
  from closed_connection_strands_waiters [OF r this] sh show ?thesis by blast
qed

section \<open>The read loop\<close>

text \<open>Every fixed header in the stream ends after at most four size bytes.\<close>

function headers_end :: "u8 list \<Rightarrow> bool" where
  "headers_end s =
     ((length s < 5 \<or> scan_size (take 4 (tl s)) \<noteq> None) \<and>
      (case split_frame s of None \<Rightarrow> True | Some (_, _, rest) \<Rightarrow> headers_end rest))"
  by pat_completeness auto
termination by (relation "measure length") (auto dest: split_frame_shorter)

declare headers_end.simps [simp del]

lemma headers_end_frame: "headers_end s \<Longrightarrow> split_frame s = Some (c, body, rest) \<Longrightarrow> headers_end rest"
  by (subst (asm) headers_end.simps) simp

lemma headers_end_not_stuck:
  assumes "headers_end (pr_bytes pr @ xs)" and "reader_inv pr"
  shows "\<not> stuck pr"
  using assms by (cases "pr_bytes pr") (auto simp: headers_end.simps stuck_def reader_inv_def)

lemma frame_spec_headers_end: "frame_spec s (Inr x) s' \<Longrightarrow> headers_end s \<Longrightarrow> headers_end s'"
  by (auto simp: frame_spec_def dest: headers_end_frame split: packet_read_state.splits)

context session
begin

lemma process_packet_input:
  "process_packet E pkt t = (r, t') \<Longrightarrow> rx_pkt t' = rx_pkt t \<and> inp (transport t') = inp (transport t)"
  using received.keeps_process_connected [of pkt]
  by (auto simp: process_packet_def keeps_def act_bind_def act_return_def Let_def
      split: if_splits prod.splits sum.splits) (metis snd_conv prod.inject)+

lemma read_loop_terminates:
  assumes "reader_inv (rx_pkt t)" and "headers_end (unread inp (rx_pkt t, transport t))"
  shows "read_loop E t \<noteq> None"
  using assms
proof (induction "length (unread inp (rx_pkt t, transport t)) + length (inp (transport t))"
    arbitrary: t rule: less_induct)
  case less
  obtain r pr c where r: "recv (en_cfg_test E) (en_transport E) (rx_pkt t, transport t) = (r, (pr, c))"
    by (metis prod.exhaust)
  let ?t = "t\<lparr>rx_pkt := pr, transport := c\<rparr>"
  have z: "on_reader (recv (en_cfg_test E) (en_transport E)) t = (r, ?t)"
    using r by (simp add: act_zoom_def)
  have inv: "reader_inv pr" and fs: "frame_spec (unread inp (rx_pkt t, transport t)) r (unread inp (pr, c))"
    using recv_refines [OF less.prems(1)] r release by simp_all
  have next_round: "read_loop E t1 \<noteq> None"
    if "r = Inr x" "x \<noteq> ConnectionClosed" "rx_pkt t1 = pr" "inp (transport t1) = inp c" for t1 x
  proof (rule less.hyps)
    have "\<not> stuck (rx_pkt t)"
      using headers_end_not_stuck [of "rx_pkt t" "inp (transport t)"] less.prems by (simp add: unread_def)
    with recv_progress [OF less.prems(1)] r release that
    show "length (unread inp (rx_pkt t1, transport t1)) + length (inp (transport t1))
        < length (unread inp (rx_pkt t, transport t)) + length (inp (transport t))"
      by (simp add: unread_def)
    show "reader_inv (rx_pkt t1)" using inv that by simp
    show "headers_end (unread inp (rx_pkt t1, transport t1))"
      using frame_spec_headers_end [of _ x] fs less.prems(2) that by (simp add: unread_def)
  qed
  show ?case
  proof (cases r)
    case (Inr x)
    show ?thesis
    proof (cases x)
      case (Incoming pkt)
      obtain rp t1 where p: "process_packet E pkt ?t = (rp, t1)" by fastforce
      have "read_loop E t1 \<noteq> None"
        using next_round [OF Inr] Incoming process_packet_input [OF p] by simp
      with z Inr Incoming p show ?thesis
        by (subst read_loop.simps) (auto split: sum.splits)
    qed (use z Inr next_round [OF Inr, of ?t] in \<open>subst read_loop.simps, simp\<close>)+
  qed (use z in \<open>subst read_loop.simps, simp split: fault.splits\<close>)
qed

end

text \<open>
  C23. The read loop returns whenever no fixed header in the unread part of the stream is
  overlong, whatever the packets are and however they arrive.
\<close>

theorem read_loop_returns:
  assumes "transport_contract (en_transport E) inp out" and "\<not> en_cfg_test E"
    and "reader_inv (rx_pkt t)" and "headers_end (pr_bytes (rx_pkt t) @ inp (transport t))"
  shows "\<exists>r t'. read_loop E t = Some (r, t')"
proof -
  have "session E inp out"
    using assms(1,2) by (intro session.intro connection.intro session_axioms.intro)
  from session.read_loop_terminates [OF this assms(3)] assms(4) show ?thesis
    by (auto simp: unread_def)
qed

theorem read_loop_returns_witness:
  "\<exists>r t'. read_loop script_env (client_start [Some [0x20, 2, 0], Some [0, 0xD0], Some [0]] []) = Some (r, t')"
proof -
  let ?t = "client_start [Some [0x20, 2, 0], Some [0, 0xD0], Some [0]] []"
  have c: "transport_contract (en_transport script_env) (\<lambda>t. script_inp (tcp t)) (\<lambda>t. sc_out (tcp t))"
    by (rule scripted_client.transport_contract_axioms)
  have "headers_end (pr_bytes (rx_pkt ?t) @ script_inp (tcp (transport ?t)))" "reader_inv (rx_pkt ?t)"
    by code_simp+
  with read_loop_returns [OF c, of ?t] show ?thesis by (simp add: script_env_def)
qed

text \<open>
  C40. Once the reader holds a fixed header that does not end, the read loop never returns: it
  spins without ever giving the control back to the executor.
\<close>

theorem read_loop_spins:
  assumes "reader_inv (rx_pkt t)" and "stuck (rx_pkt t)"
  shows "read_loop E t = None"
proof -
  have "parse_packet_size (rx_pkt t) = Inr None" "pr_size (rx_pkt t) = None" "length (pr_bytes (rx_pkt t)) = 5"
    using assms parse_packet_size_scan [of "rx_pkt t"]
    by (auto simp: stuck_def reader_inv_def split: option.splits)
  then have again: "on_reader (recv b T) t1 = (Inr NeedMoreData, t1)" if "rx_pkt t1 = rx_pkt t" for b T t1
    using that by (simp add: act_zoom_def recv_def recv_n_def MAX_HEADER_SIZE_def)
  have "rx_pkt t1 \<noteq> rx_pkt t" if "read_loop E t1 = Some y" for t1 y
    by (rule read_loop.raw_induct [of "\<lambda>_ t1 _. rx_pkt t1 \<noteq> rx_pkt t", OF _ that]) (auto simp: again)
  then show ?thesis by (cases "read_loop E t") auto
qed

theorem read_loop_spins_witness:
  "read_loop script_env ((client_start [] [])\<lparr>rx_pkt :=
     \<lparr>pr_bytes = [0x30, 0xFF, 0xFF, 0xFF, 0xFF], pr_size = None\<rparr>\<rparr>) = None"
proof -
  have "reader_inv \<lparr>pr_bytes = [0x30, 0xFF, 0xFF, 0xFF, 0xFF], pr_size = None\<rparr>"
    "stuck \<lparr>pr_bytes = [0x30, 0xFF, 0xFF, 0xFF, 0xFF], pr_size = None\<rparr>"
    by code_simp+
  then show ?thesis by (intro read_loop_spins) simp_all
qed

end
