(* ===== verification/Options.thy ===== *)
theory Options
  imports Packets Transport
begin

unbundle bit_operations_syntax

text \<open>
  \<open>options.rs\<close>, the options of \<open>tls/mod.rs\<close>, \<open>tls/client_auth.rs\<close> and \<open>tls/dangerous.rs\<close>: the
  settings of a connection, their builder functions and the choice between TCP and TLS. What
  the sources call of rustls, webpki and rustls_pemfile is the argument \<open>rustls\<close>. A
  \<open>Duration\<close> is a number of nanoseconds.
\<close>

section \<open>Internet protocol versions\<close>

datatype socket_addr = AddrV4 nat u16 | AddrV6 nat u16

datatype ip_version_set = IpVersionSet (ip_bits: u8)

definition V4_BIT :: u8 where "V4_BIT = 1"

definition V6_BIT :: u8 where "V6_BIT = 2"

definition ip_all :: ip_version_set where
  "ip_all = IpVersionSet (V4_BIT OR V6_BIT)"

definition without_v4 :: "ip_version_set \<Rightarrow> ip_version_set" where
  "without_v4 s = IpVersionSet (ip_bits s AND NOT V4_BIT)"

definition without_v6 :: "ip_version_set \<Rightarrow> ip_version_set" where
  "without_v6 s = IpVersionSet (ip_bits s AND NOT V6_BIT)"

fun supports :: "ip_version_set \<Rightarrow> socket_addr \<Rightarrow> bool" where
  "supports s (AddrV4 _ _) = (ip_bits s AND V4_BIT \<noteq> 0)"
| "supports s (AddrV6 _ _) = (ip_bits s AND V6_BIT \<noteq> 0)"

section \<open>Options\<close>

definition from_secs :: "nat \<Rightarrow> nat" where
  "from_secs s = s * 1000000000"

record 'c options =
  o_clean_session :: bool
  o_keep_alive :: u16
  o_client_id :: rstr
  o_last_will :: "last_will option"
  o_username :: "rstr option"
  o_password :: "u8 list option"
  o_no_delay :: bool
  o_enabled_ip_versions :: ip_version_set
  o_connection_cfg :: 'c
  o_dns_timeout :: nat
  o_tcp_connect_timeout :: nat
  o_mqtt_connect_timeout :: nat
  o_packets_resend_delay :: nat
  o_default_port :: u16
  o_default_port_changed :: bool

definition options_new :: "rstr \<Rightarrow> unit options" where
  "options_new client_id =
     \<lparr>o_clean_session = False, o_keep_alive = 30, o_client_id = client_id, o_last_will = None,
      o_username = None, o_password = None, o_no_delay = False, o_enabled_ip_versions = ip_all,
      o_connection_cfg = (), o_dns_timeout = from_secs 3, o_tcp_connect_timeout = from_secs 10,
      o_mqtt_connect_timeout = from_secs 3, o_packets_resend_delay = from_secs 1,
      o_default_port = 1883, o_default_port_changed = False\<rparr>"

definition map_connection_cfg :: "('c \<Rightarrow> 'd) \<Rightarrow> 'c options \<Rightarrow> 'd options" where
  "map_connection_cfg f opt =
     \<lparr>o_clean_session = o_clean_session opt, o_keep_alive = o_keep_alive opt,
      o_client_id = o_client_id opt, o_last_will = o_last_will opt,
      o_username = o_username opt, o_password = o_password opt, o_no_delay = o_no_delay opt,
      o_enabled_ip_versions = o_enabled_ip_versions opt,
      o_connection_cfg = f (o_connection_cfg opt),
      o_dns_timeout = o_dns_timeout opt, o_tcp_connect_timeout = o_tcp_connect_timeout opt,
      o_mqtt_connect_timeout = o_mqtt_connect_timeout opt,
      o_packets_resend_delay = o_packets_resend_delay opt,
      o_default_port = o_default_port opt, o_default_port_changed = o_default_port_changed opt\<rparr>"

definition set_clean_session :: "'c options \<Rightarrow> 'c options" where
  "set_clean_session opt = opt\<lparr>o_clean_session := True\<rparr>"

definition set_keep_alive :: "u16 \<Rightarrow> 'c options \<Rightarrow> 'c options" where
  "set_keep_alive keep_alive opt = opt\<lparr>o_keep_alive := keep_alive\<rparr>"

definition set_last_will_ex :: "last_will \<Rightarrow> 'c options \<Rightarrow> 'c options" where
  "set_last_will_ex last_will opt = opt\<lparr>o_last_will := Some last_will\<rparr>"

definition set_last_will :: "rstr \<Rightarrow> u8 list \<Rightarrow> bool \<Rightarrow> qos \<Rightarrow> 'c options \<Rightarrow> 'c options" where
  "set_last_will topic message retain q =
     set_last_will_ex \<lparr>lw_topic = topic, lw_message = message, lw_retain = retain, lw_qos = q\<rparr>"

definition set_username :: "rstr \<Rightarrow> 'c options \<Rightarrow> 'c options" where
  "set_username username opt = opt\<lparr>o_username := Some username\<rparr>"

definition set_password :: "u8 list \<Rightarrow> 'c options \<Rightarrow> 'c options" where
  "set_password password opt = opt\<lparr>o_password := Some password\<rparr>"

definition set_no_delay :: "'c options \<Rightarrow> 'c options" where
  "set_no_delay opt = opt\<lparr>o_no_delay := True\<rparr>"

definition disable_ipv4 :: "'c options \<Rightarrow> 'c options" where
  "disable_ipv4 opt = opt\<lparr>o_enabled_ip_versions := without_v4 (o_enabled_ip_versions opt)\<rparr>"

definition disable_ipv6 :: "'c options \<Rightarrow> 'c options" where
  "disable_ipv6 opt = opt\<lparr>o_enabled_ip_versions := without_v6 (o_enabled_ip_versions opt)\<rparr>"

definition set_dns_timeout :: "nat \<Rightarrow> 'c options \<Rightarrow> 'c options" where
  "set_dns_timeout d opt = opt\<lparr>o_dns_timeout := d\<rparr>"

definition set_tcp_connect_timeout :: "nat \<Rightarrow> 'c options \<Rightarrow> 'c options" where
  "set_tcp_connect_timeout d opt = opt\<lparr>o_tcp_connect_timeout := d\<rparr>"

definition set_mqtt_connect_timeout :: "nat \<Rightarrow> 'c options \<Rightarrow> 'c options" where
  "set_mqtt_connect_timeout d opt = opt\<lparr>o_mqtt_connect_timeout := d\<rparr>"

definition set_all_timeouts :: "nat \<Rightarrow> nat \<Rightarrow> nat \<Rightarrow> 'c options \<Rightarrow> 'c options" where
  "set_all_timeouts dns tcp_connect mqtt_connect opt =
     opt\<lparr>o_dns_timeout := dns, o_tcp_connect_timeout := tcp_connect,
         o_mqtt_connect_timeout := mqtt_connect\<rparr>"

definition set_all_timeouts_to :: "nat \<Rightarrow> 'c options \<Rightarrow> 'c options" where
  "set_all_timeouts_to d opt =
     opt\<lparr>o_dns_timeout := d, o_tcp_connect_timeout := d, o_mqtt_connect_timeout := d\<rparr>"

definition set_packets_resend_delay :: "nat \<Rightarrow> 'c options \<Rightarrow> 'c options" where
  "set_packets_resend_delay delay opt = opt\<lparr>o_packets_resend_delay := delay\<rparr>"

definition set_default_port :: "u16 \<Rightarrow> 'c options \<Rightarrow> 'c options" where
  "set_default_port port opt = opt\<lparr>o_default_port := port, o_default_port_changed := True\<rparr>"

definition default_port :: "'c options \<Rightarrow> u16" where
  "default_port opt = o_default_port opt"

text \<open>\<open>take().unwrap()\<close> on the configuration that has just been wrapped in \<open>Some\<close>.\<close>

definition separate_connection_cfg :: "'c options \<Rightarrow> ('e, unit options \<times> 'c) result" where
  "separate_connection_cfg opt =
     (let opt = map_connection_cfg Some opt in
      case o_connection_cfg opt of
        None \<Rightarrow> Inl (Panic ''called Option::unwrap() on a None value'')
      | Some conn_cfg \<Rightarrow> Inr (map_connection_cfg (\<lambda>_. ()) (opt\<lparr>o_connection_cfg := None\<rparr>), conn_cfg))"

section \<open>Connection configurations\<close>

text \<open>The trait \<open>ConnectionConfig\<close>: \<open>'s\<close> is a connected TCP stream, \<open>'t\<close> a transport.\<close>

record ('c, 'conn, 's, 't) connection_config =
  create_connection :: "'c \<Rightarrow> rstr \<Rightarrow> connect_error + 'conn"
  create_transport :: "'s \<Rightarrow> 'conn \<Rightarrow> 't"

definition tcp_connection_config :: "(unit, unit, 's, 's tcp_transport) connection_config" where
  "tcp_connection_config =
     \<lparr>create_connection = (\<lambda>_ _. Inr ()), create_transport = (\<lambda>stream _. tcp_transport_new stream)\<rparr>"

section \<open>TLS\<close>

datatype crypto_bytes = Der "u8 list" | Pem "u8 list"

datatype 'b crypto_error =
    BadCert 'b
  | CryptoIoError io_error
  | NoValidItemsInPem
  | InvalidPrivateKey

datatype pem_item =
    PKCS8Key "u8 list"
  | RSAKey "u8 list"
  | ECKey "u8 list"
  | OtherItem "u8 list"

record 'key certified_key =
  ck_cert :: "u8 list list"
  ck_key :: 'key

datatype 'key client_cert_resolver = ClientCertResolver "'key certified_key"

datatype server_cert_verifier = SkipServerCertVerification

text \<open>
  \<open>'cfg\<close> is a \<open>ClientConfig\<close>, \<open>'store\<close> a \<open>RootCertStore\<close>, \<open>'key\<close> a signing key, \<open>'b\<close> a webpki
  error. A \<open>BufReader\<close> over a slice is the bytes it has not handed out yet. The two
  functions that build a configuration stand for the chain of builder calls.
\<close>

record ('cfg, 'store, 'name, 'conn, 'key, 'b) rustls =
  server_name_try_from :: "rstr \<Rightarrow> 'name option"
  client_connection_new :: "'cfg \<Rightarrow> 'name \<Rightarrow> nat + 'conn"
  config_with_verifier :: "server_cert_verifier \<Rightarrow> 'cfg"
  config_with_roots :: "'store \<Rightarrow> 'cfg"
  set_cert_resolver :: "'key client_cert_resolver \<Rightarrow> 'cfg \<Rightarrow> 'cfg"
  load_native_certs :: "io_error + u8 list list"
  root_store_empty :: 'store
  add_parsable_certificates :: "u8 list list \<Rightarrow> 'store \<Rightarrow> nat \<times> 'store"
  push_trust_anchor :: "u8 list \<Rightarrow> 'store \<Rightarrow> 'b + 'store"
  pem_certs :: "u8 list \<Rightarrow> io_error + u8 list list"
  pem_read_one :: "u8 list \<Rightarrow> (io_error + pem_item option) \<times> u8 list"
  any_supported_type :: "u8 list \<Rightarrow> 'key option"

definition tls_create_connection ::
    "('cfg, 'store, 'name, 'conn, 'key, 'b) rustls \<Rightarrow> 'cfg \<Rightarrow> rstr \<Rightarrow> connect_error + 'conn" where
  "tls_create_connection R cfg host =
     (case server_name_try_from R host of
        None \<Rightarrow> Inl InvalidHostname
      | Some server_name \<Rightarrow>
          (case client_connection_new R cfg server_name of
             Inl e \<Rightarrow> Inl (TlsError e)
           | Inr conn \<Rightarrow> Inr conn))"

definition tls_connection_config ::
    "('cfg, 'store, 'name, 'conn, 'key, 'b) rustls \<Rightarrow> ('cfg, 'conn, 's, ('conn, 's) tls_transport) connection_config" where
  "tls_connection_config R =
     \<lparr>create_connection = tls_create_connection R, create_transport = tls_transport_new\<rparr>"

definition enable_tls_ex :: "'cfg \<Rightarrow> unit options \<Rightarrow> 'cfg options" where
  "enable_tls_ex tls_config opt =
     (let ret = map_connection_cfg (\<lambda>_. tls_config) opt in
      if \<not> o_default_port_changed ret then ret\<lparr>o_default_port := 8883\<rparr> else ret)"

definition enable_dangerous_non_verified_tls ::
    "('cfg, 'store, 'name, 'conn, 'key, 'b) rustls \<Rightarrow> unit options \<Rightarrow> 'cfg options" where
  "enable_dangerous_non_verified_tls R = enable_tls_ex (config_with_verifier R SkipServerCertVerification)"

definition enable_tls ::
    "('cfg, 'store, 'name, 'conn, 'key, 'b) rustls \<Rightarrow> unit options \<Rightarrow> io_error + 'cfg options" where
  "enable_tls R opt =
     (case load_native_certs R of
        Inl e \<Rightarrow> Inl e
      | Inr certs \<Rightarrow>
          let store = snd (add_parsable_certificates R certs (root_store_empty R)) in
          Inr (enable_tls_ex (config_with_roots R store) opt))"

definition enable_tls_custom_ca_cert ::
    "('cfg, 'store, 'name, 'conn, 'key, 'b) rustls \<Rightarrow> crypto_bytes \<Rightarrow> unit options \<Rightarrow>
     'b crypto_error + 'cfg options" where
  "enable_tls_custom_ca_cert R ca_cert_bytes opt =
     (let store = root_store_empty R;
          loaded =
            (case ca_cert_bytes of
               Der bytes \<Rightarrow>
                 (case push_trust_anchor R bytes store of
                    Inl e \<Rightarrow> Inl (BadCert e)
                  | Inr store \<Rightarrow> Inr store)
             | Pem bytes \<Rightarrow>
                 (case pem_certs R bytes of
                    Inl e \<Rightarrow> Inl (CryptoIoError e)
                  | Inr certs \<Rightarrow>
                      (case add_parsable_certificates R certs store of
                         (added, store) \<Rightarrow> if added < 1 then Inl NoValidItemsInPem else Inr store)))
      in
      case loaded of
        Inl e \<Rightarrow> Inl e
      | Inr store \<Rightarrow> Inr (enable_tls_ex (config_with_roots R store) opt))"

section \<open>Client certificates\<close>

fun private_key_der :: "pem_item \<Rightarrow> u8 list option" where
  "private_key_der (PKCS8Key x) = Some x"
| "private_key_der (RSAKey x) = Some x"
| "private_key_der (ECKey x) = Some x"
| "private_key_der (OtherItem _) = None"

text \<open>The loop over the items of a PEM file; nothing in the sources bounds it.\<close>

partial_function (option) pem_key_loop ::
    "('cfg, 'store, 'name, 'conn, 'key, 'b) rustls \<Rightarrow> u8 list option \<Rightarrow> u8 list \<Rightarrow>
     ('b crypto_error + u8 list option) option" where
  "pem_key_loop R opt_der rd =
     (case pem_read_one R rd of
        (Inr (Some item), rd) \<Rightarrow>
          pem_key_loop R (if opt_der = None then private_key_der item else opt_der) rd
      | (Inr None, _) \<Rightarrow> Some (Inr opt_der)
      | (Inl err, _) \<Rightarrow> Some (Inl (CryptoIoError err)))"

declare pem_key_loop.simps [code]

definition client_cert_from_bytes ::
    "('cfg, 'store, 'name, 'conn, 'key, 'b) rustls \<Rightarrow> crypto_bytes \<Rightarrow> crypto_bytes \<Rightarrow>
     ('b crypto_error + 'key client_cert_resolver) option" where
  "client_cert_from_bytes R cert_bytes pk_bytes =
     (case (case cert_bytes of
              Der bytes \<Rightarrow> Inr [bytes]
            | Pem bytes \<Rightarrow> (case pem_certs R bytes of Inl e \<Rightarrow> Inl (CryptoIoError e) | Inr certs \<Rightarrow> Inr certs)) of
        Inl e \<Rightarrow> Some (Inl e)
      | Inr cert \<Rightarrow>
          (case (case pk_bytes of
                   Der bytes \<Rightarrow> Some (Inr bytes)
                 | Pem bytes \<Rightarrow>
                     (case pem_key_loop R None bytes of
                        None \<Rightarrow> None
                      | Some (Inl e) \<Rightarrow> Some (Inl e)
                      | Some (Inr None) \<Rightarrow> Some (Inl NoValidItemsInPem)
                      | Some (Inr (Some der)) \<Rightarrow> Some (Inr der))) of
             None \<Rightarrow> None
           | Some (Inl e) \<Rightarrow> Some (Inl e)
           | Some (Inr pk_der) \<Rightarrow>
               (case any_supported_type R pk_der of
                  None \<Rightarrow> Some (Inl InvalidPrivateKey)
                | Some key \<Rightarrow> Some (Inr (ClientCertResolver \<lparr>ck_cert = cert, ck_key = key\<rparr>)))))"

definition has_certs :: "'key client_cert_resolver \<Rightarrow> bool" where
  "has_certs r = True"

fun resolve :: "'key client_cert_resolver \<Rightarrow> 'key certified_key option" where
  "resolve (ClientCertResolver key) = Some key"

definition enable_tls_client_auth ::
    "('cfg, 'store, 'name, 'conn, 'key, 'b) rustls \<Rightarrow> crypto_bytes \<Rightarrow> crypto_bytes \<Rightarrow> 'cfg options \<Rightarrow>
     (('b crypto_error + unit) \<times> 'cfg options) option" where
  "enable_tls_client_auth R cert_bytes pk_bytes opt =
     (case client_cert_from_bytes R cert_bytes pk_bytes of
        None \<Rightarrow> None
      | Some (Inl e) \<Rightarrow> Some (Inl e, opt)
      | Some (Inr resolver) \<Rightarrow>
          Some (Inr (), opt\<lparr>o_connection_cfg := set_cert_resolver R resolver (o_connection_cfg opt)\<rparr>))"

text \<open>\<open>verify_server_cert\<close> of \<open>SkipServerCertVerification\<close> accepts every certificate.\<close>

definition verify_server_cert :: "server_cert_verifier \<Rightarrow> u8 list \<Rightarrow> unit + unit" where
  "verify_server_cert v end_entity = Inr ()"

end
