(* ===== verification/Options_Properties.thy ===== *)
theory Options_Properties
  imports Options
begin

unbundle bit_operations_syntax

text \<open>Properties of the builder functions and of the loading of keys.\<close>

section \<open>Builders\<close>

text \<open>A chain of calls of the builder functions.\<close>

datatype setter =
    SetCleanSession | SetKeepAlive u16 | SetLastWill rstr "u8 list" bool qos | SetUsername rstr
  | SetPassword "u8 list" | SetNoDelay | DisableIpv4 | DisableIpv6 | SetDnsTimeout nat
  | SetTcpConnectTimeout nat | SetMqttConnectTimeout nat | SetAllTimeouts nat nat nat
  | SetAllTimeoutsTo nat | SetPacketsResendDelay nat | SetDefaultPort u16

fun apply_setter :: "setter \<Rightarrow> 'c options \<Rightarrow> 'c options" where
  "apply_setter SetCleanSession = set_clean_session"
| "apply_setter (SetKeepAlive k) = set_keep_alive k"
| "apply_setter (SetLastWill topic msg retain q) = set_last_will topic msg retain q"
| "apply_setter (SetUsername u) = set_username u"
| "apply_setter (SetPassword p) = set_password p"
| "apply_setter SetNoDelay = set_no_delay"
| "apply_setter DisableIpv4 = disable_ipv4"
| "apply_setter DisableIpv6 = disable_ipv6"
| "apply_setter (SetDnsTimeout d) = set_dns_timeout d"
| "apply_setter (SetTcpConnectTimeout d) = set_tcp_connect_timeout d"
| "apply_setter (SetMqttConnectTimeout d) = set_mqtt_connect_timeout d"
| "apply_setter (SetAllTimeouts a b c) = set_all_timeouts a b c"
| "apply_setter (SetAllTimeoutsTo d) = set_all_timeouts_to d"
| "apply_setter (SetPacketsResendDelay d) = set_packets_resend_delay d"
| "apply_setter (SetDefaultPort p) = set_default_port p"

lemmas setter_defs = set_clean_session_def set_keep_alive_def set_last_will_def set_last_will_ex_def
  set_username_def set_password_def set_no_delay_def disable_ipv4_def disable_ipv6_def
  set_dns_timeout_def set_tcp_connect_timeout_def set_mqtt_connect_timeout_def
  set_all_timeouts_def set_all_timeouts_to_def set_packets_resend_delay_def set_default_port_def

definition build :: "setter list \<Rightarrow> 'c options \<Rightarrow> 'c options" where
  "build ss opt = fold apply_setter ss opt"

text \<open>The port that a chain of calls asks for last, and the versions it leaves enabled.\<close>

fun asked_port :: "setter \<Rightarrow> u16 option" where
  "asked_port (SetDefaultPort p) = Some p"
| "asked_port _ = None"

definition last_port :: "setter list \<Rightarrow> u16 option" where
  "last_port ss = fold (\<lambda>s p. case asked_port s of None \<Rightarrow> p | Some q \<Rightarrow> Some q) ss None"

lemma last_port_snoc:
  "last_port [] = None"
  "last_port (ss @ [s]) = (case asked_port s of None \<Rightarrow> last_port ss | Some p \<Rightarrow> Some p)"
  unfolding last_port_def by simp_all

lemma last_port_append: "last_port (ss @ rs) = (case last_port rs of None \<Rightarrow> last_port ss | Some p \<Rightarrow> Some p)"
proof (induction rs rule: rev_induct)
  case (snoc r rs)
  then show ?case
    using last_port_snoc(2) [of "ss @ rs" r] by (simp add: last_port_snoc split: option.splits)
qed (simp add: last_port_snoc)

lemma setter_port:
  "o_default_port (apply_setter s opt) = (case asked_port s of None \<Rightarrow> o_default_port opt | Some p \<Rightarrow> p)"
  "o_default_port_changed (apply_setter s opt) = (asked_port s \<noteq> None \<or> o_default_port_changed opt)"
  by (cases s; simp add: setter_defs)+

lemma build_port:
  "o_default_port (build ss opt) = (case last_port ss of None \<Rightarrow> o_default_port opt | Some p \<Rightarrow> p)"
  "o_default_port_changed (build ss opt) = (last_port ss \<noteq> None \<or> o_default_port_changed opt)"
  by (induction ss rule: rev_induct)
    (auto simp: build_def last_port_snoc setter_port split: option.splits)

lemma setter_versions:
  "supports (o_enabled_ip_versions (apply_setter s opt)) a \<longleftrightarrow>
     supports (o_enabled_ip_versions opt) a \<and>
     s \<noteq> (case a of AddrV4 _ _ \<Rightarrow> DisableIpv4 | AddrV6 _ _ \<Rightarrow> DisableIpv6)"
proof -
  have v: "(x AND - 2) AND 1 = 0" "(x AND - 2) AND 2 = x AND 2" "(x AND - 3) AND 2 = 0" "(x AND - 3) AND 1 = x AND 1"
    for x :: u8
    by (simp_all add: and.assoc)
  show ?thesis
    by (cases s; cases a) (simp_all add: setter_defs without_v4_def without_v6_def V4_BIT_def V6_BIT_def v)
qed

text \<open>
  The default port is the one set last, if it was set at all; otherwise it is 8883 when TLS
  is enabled, before or after the other calls, and 1883 when it is not. An IP version is
  usable unless it has been disabled.
\<close>

lemma default_port_chosen:
  "default_port (build after (enable_tls_ex cfg (build ss (options_new client_id)))) =
     (case last_port (ss @ after) of None \<Rightarrow> 8883 | Some p \<Rightarrow> p) \<and>
   default_port (build ss (options_new client_id)) = (case last_port ss of None \<Rightarrow> 1883 | Some p \<Rightarrow> p) \<and>
   supports (o_enabled_ip_versions (build ss (options_new client_id))) a =
     ((case a of AddrV4 _ _ \<Rightarrow> DisableIpv4 | AddrV6 _ _ \<Rightarrow> DisableIpv6) \<notin> set ss)"
proof -
  have "supports (o_enabled_ip_versions (build ss (options_new client_id))) a =
     ((case a of AddrV4 _ _ \<Rightarrow> DisableIpv4 | AddrV6 _ _ \<Rightarrow> DisableIpv6) \<notin> set ss)"
  proof (induction ss rule: rev_induct)
    case Nil
    then show ?case
      by (cases a) (simp_all add: build_def options_new_def ip_all_def V4_BIT_def V6_BIT_def)
  next
    case (snoc s ss)
    have "build (ss @ [s]) opt = apply_setter s (build ss opt)" for opt :: "unit options"
      by (simp add: build_def)
    with snoc show ?case by (auto simp: setter_versions)
  qed
  moreover have "o_default_port (enable_tls_ex cfg opt) = (if o_default_port_changed opt then o_default_port opt else 8883)"
    for opt by (simp add: enable_tls_ex_def map_connection_cfg_def Let_def)
  moreover have "o_default_port (options_new client_id) = 1883" "\<not> o_default_port_changed (options_new client_id)"
    by (simp_all add: options_new_def)
  ultimately show ?thesis
    by (simp add: default_port_def build_port last_port_append split: option.splits)
qed

section \<open>Private keys\<close>

text \<open>The items of a PEM file as the reader hands them out, one after the other.\<close>

inductive pem_items :: "(u8 list \<Rightarrow> (io_error + pem_item option) \<times> u8 list) \<Rightarrow> u8 list \<Rightarrow> pem_item list \<Rightarrow> bool"
  for read_one where
  pem_end: "read_one rd = (Inr None, rd') \<Longrightarrow> pem_items read_one rd []"
| pem_item: "read_one rd = (Inr (Some item), rd') \<Longrightarrow> pem_items read_one rd' items \<Longrightarrow>
    pem_items read_one rd (item # items)"

lemma pem_key_loop_items:
  "pem_items (pem_read_one R) rd items \<Longrightarrow>
     pem_key_loop R opt_der rd =
       Some (Inr (if opt_der = None then List.find (\<lambda>_. True) (List.map_filter private_key_der items) else opt_der))"
proof (induction arbitrary: opt_der rule: pem_items.induct)
  case (pem_item rd item rd' items)
  then show ?case
    by (subst pem_key_loop.simps) (auto simp: List.map_filter_def)
qed (simp add: pem_key_loop.simps List.map_filter_def)

text \<open>
  C34. A client certificate is made from the first private key of the PEM file, whatever else
  the file contains, and the loading ends whenever the file does; a file without a key is
  rejected.
\<close>

theorem first_private_key:
  assumes "pem_items (pem_read_one R) pk items" and "pem_certs R cert = Inr certs"
  shows "client_cert_from_bytes R (Pem cert) (Pem pk) =
    Some (case List.map_filter private_key_der items of
        [] \<Rightarrow> Inl NoValidItemsInPem
      | der # _ \<Rightarrow>
          (case any_supported_type R der of
             None \<Rightarrow> Inl InvalidPrivateKey
           | Some key \<Rightarrow> Inr (ClientCertResolver \<lparr>ck_cert = certs, ck_key = key\<rparr>)))"
  using assms pem_key_loop_items [OF assms(1), of None]
  by (simp add: client_cert_from_bytes_def split: list.splits option.splits)

text \<open>
  A reader of files in which every item is a byte: the key 1, the key 2, or something else.
\<close>

definition sample_read_one :: "u8 list \<Rightarrow> (io_error + pem_item option) \<times> u8 list" where
  "sample_read_one rd =
     (case rd of
        [] \<Rightarrow> (Inr None, [])
      | b # bs \<Rightarrow> (Inr (Some (if b = 1 then RSAKey [b] else if b = 2 then ECKey [b] else OtherItem [b])), bs))"

definition sample_rustls :: "(u8 list, u8 list list, rstr, unit, u8 list, unit) rustls" where
  "sample_rustls =
     \<lparr>server_name_try_from = Some, client_connection_new = (\<lambda>_ _. Inr ()),
      config_with_verifier = (\<lambda>_. []), config_with_roots = concat, set_cert_resolver = (\<lambda>_ cfg. cfg),
      load_native_certs = Inr [], root_store_empty = [],
      add_parsable_certificates = (\<lambda>cs store. (length cs, store @ cs)),
      push_trust_anchor = (\<lambda>c store. Inr (store @ [c])), pem_certs = (\<lambda>bs. Inr [bs]),
      pem_read_one = sample_read_one, any_supported_type = Some\<rparr>"

theorem first_private_key_witness:
  "client_cert_from_bytes sample_rustls (Pem [7]) (Pem [9, 2, 1]) =
     Some (Inr (ClientCertResolver \<lparr>ck_cert = [[7]], ck_key = [2]\<rparr>))"
proof -
  have "pem_items sample_read_one [9, 2, 1] [OtherItem [9], ECKey [2], RSAKey [1]]"
    by (intro pem_item [where rd' = "[2, 1]"] pem_item [where rd' = "[1]"] pem_item [where rd' = "[]"]
        pem_end [where rd' = "[]"]) (simp_all add: sample_read_one_def)
  with first_private_key [of sample_rustls "[9, 2, 1]" _ "[7]" "[[7]]"] show ?thesis
    by (simp add: sample_rustls_def List.map_filter_def)
qed

end
