(* ===== verification/Client.thy ===== *)
theory Client
  imports Transceiver Options
begin

text \<open>
  \<open>lib.rs\<close> and \<open>subs.rs\<close>: the public interface. An asynchronous function is a value that is
  polled: a datatype has one constructor for each point at which the function can be
  suspended, and its poll function runs it from there to the next one. The command queue is
  the argument \<open>channel\<close>, the network is the argument \<open>network\<close>.
\<close>

section \<open>The command queue\<close>

text \<open>
  \<open>mpsc::Sender::try_send\<close>, a poll of the future of \<open>mpsc::Sender::send\<close>, and \<open>is_closed\<close>.
\<close>

record 'q channel =
  ch_try_send :: "command \<Rightarrow> 'q \<Rightarrow> try_send_result \<times> 'q"
  ch_poll_send :: "waker \<Rightarrow> command \<Rightarrow> 'q \<Rightarrow> (unit + unit) poll \<times> 'q"
  ch_is_closed :: "'q \<Rightarrow> bool"

text \<open>What the handles of one client have access to.\<close>

record 'q handles =
  h_shared :: client_shared
  h_queue :: 'q

type_synonym ('q, 'a) call = "('q handles, io_error, 'a) act"

definition poll_send :: "'q channel \<Rightarrow> waker \<Rightarrow> command \<Rightarrow> ('q, (unit + unit) poll) call" where
  "poll_send C w cmd h =
     (case ch_poll_send C w cmd (h_queue h) of (r, q) \<Rightarrow> (Inr r, h\<lparr>h_queue := q\<rparr>))"

section \<open>Publishing\<close>

definition next_id :: "('q, u16) call" where
  "next_id h = (case fetch_packet_id (h_shared h) of (i, sh) \<Rightarrow> (Inr i, h\<lparr>h_shared := sh\<rparr>))"

definition make_publish_cmd :: "rstr \<Rightarrow> u8 list \<Rightarrow> qos \<Rightarrow> bool \<Rightarrow> ('q, publish_command) call" where
  "make_publish_cmd topic payload q retain =
     act_bind (if q = AtMostOnce then act_return 0 else next_id) (\<lambda>packet_id h.
       (res_bind (make_arc_packet publish_impl
           \<lparr>op_flags = publish_flags_new False q retain, op_topic = topic,
            op_packet_id = packet_id, op_payload = payload\<rparr>)
         (\<lambda>packet. Inr \<lparr>pc_packet_id = packet_id, pc_qos = q, pc_packet = packet\<rparr>), h))"

definition try_publish ::
    "'q channel \<Rightarrow> rstr \<Rightarrow> u8 list \<Rightarrow> qos \<Rightarrow> bool \<Rightarrow> ('q, try_publish_error + unit) call" where
  "try_publish C topic payload q retain =
     act_bind (make_publish_cmd topic payload q retain) (\<lambda>cmd h.
       case ch_try_send C (CmdPublish cmd) (h_queue h) of
         (SendOk, qu) \<Rightarrow> (Inr (Inr ()), h\<lparr>h_queue := qu\<rparr>)
       | (SendClosed, qu) \<Rightarrow> (Inr (Inl TryTransceiverTaskTerminated), h\<lparr>h_queue := qu\<rparr>)
       | (SendFull, qu) \<Rightarrow> (Inr (Inl QueueFull), h\<lparr>h_queue := qu\<rparr>))"

text \<open>
  The asynchronous publish functions: not started yet, with the stage to await; waiting for a
  place in the queue; awaiting the stage; finished.
\<close>

datatype publish_call =
    PubStart rstr "u8 list" qos bool "stage option"
  | PubSend command "publish_future option"
  | PubAwait publish_future
  | PubDone

datatype publish_event = EvNone | EvReceived | EvComplete

definition publish_no_wait :: "rstr \<Rightarrow> u8 list \<Rightarrow> qos \<Rightarrow> bool \<Rightarrow> publish_call" where
  "publish_no_wait topic payload q retain = PubStart topic payload q retain None"

definition publish_qos_0 :: "rstr \<Rightarrow> u8 list \<Rightarrow> bool \<Rightarrow> publish_call" where
  "publish_qos_0 topic payload retain = PubStart topic payload AtMostOnce retain None"

definition publish_qos_1 :: "rstr \<Rightarrow> u8 list \<Rightarrow> bool \<Rightarrow> bool \<Rightarrow> publish_call" where
  "publish_qos_1 topic payload retain await_ack =
     PubStart topic payload AtLeastOnce retain (if await_ack then Some StAck else None)"

definition publish_qos_2 :: "rstr \<Rightarrow> u8 list \<Rightarrow> bool \<Rightarrow> publish_event \<Rightarrow> publish_call" where
  "publish_qos_2 topic payload retain await_event =
     PubStart topic payload ExactlyOnce retain
       (case await_event of EvNone \<Rightarrow> None | EvReceived \<Rightarrow> Some StRec | EvComplete \<Rightarrow> Some StComp)"

definition register :: "u16 \<Rightarrow> stage option \<Rightarrow> ('q, publish_future option) call" where
  "register packet_id st h =
     (case st of
        None \<Rightarrow> (Inr None, h)
      | Some st \<Rightarrow>
          (case publish_future_new packet_id st (h_shared h) of
             (fut, sh) \<Rightarrow> (Inr (Some fut), h\<lparr>h_shared := sh\<rparr>)))"

definition await_publish ::
    "waker \<Rightarrow> publish_future \<Rightarrow> ('q, (publish_error + unit) poll \<times> publish_call) call" where
  "await_publish w fut h =
     (case publish_future_poll w fut (h_shared h) of
        (Ready ttt, fut, sh) \<Rightarrow>
          (Inr (Ready (if ttt then Inl PubTransceiverTaskTerminated else Inr ()), PubDone),
           h\<lparr>h_shared := publish_future_drop fut sh\<rparr>)
      | (PollPending, fut, sh) \<Rightarrow> (Inr (PollPending, PubAwait fut), h\<lparr>h_shared := sh\<rparr>))"

definition drop_future :: "publish_future option \<Rightarrow> ('q, unit) call" where
  "drop_future fut h =
     (Inr (), case fut of None \<Rightarrow> h | Some fut \<Rightarrow> h\<lparr>h_shared := publish_future_drop fut (h_shared h)\<rparr>)"

definition send_publish ::
    "'q channel \<Rightarrow> waker \<Rightarrow> command \<Rightarrow> publish_future option \<Rightarrow>
     ('q, (publish_error + unit) poll \<times> publish_call) call" where
  "send_publish C w cmd opt_fut =
     act_bind (poll_send C w cmd) (\<lambda>sent.
       case sent of
         PollPending \<Rightarrow> act_return (PollPending, PubSend cmd opt_fut)
       | Ready (Inl _) \<Rightarrow>
           act_bind (drop_future opt_fut) (\<lambda>_. act_return (Ready (Inl PubTransceiverTaskTerminated), PubDone))
       | Ready (Inr _) \<Rightarrow>
           (case opt_fut of
              None \<Rightarrow> act_return (Ready (Inr ()), PubDone)
            | Some fut \<Rightarrow> await_publish w fut))"

fun publish_call_poll ::
    "'q channel \<Rightarrow> waker \<Rightarrow> publish_call \<Rightarrow> ('q, (publish_error + unit) poll \<times> publish_call) call" where
  "publish_call_poll C w (PubStart topic payload q retain st) =
     act_bind (make_publish_cmd topic payload q retain) (\<lambda>cmd.
     act_bind (register (pc_packet_id cmd) st) (\<lambda>opt_fut.
     send_publish C w (CmdPublish cmd) opt_fut))"
| "publish_call_poll C w (PubSend cmd opt_fut) = send_publish C w cmd opt_fut"
| "publish_call_poll C w (PubAwait fut) = await_publish w fut"
| "publish_call_poll C w PubDone = act_fail (Panic ''async fn resumed after completion'')"

text \<open>Dropping the call before it has finished drops the future it holds.\<close>

fun publish_call_drop :: "publish_call \<Rightarrow> ('q, unit) call" where
  "publish_call_drop (PubSend _ fut) = drop_future fut"
| "publish_call_drop (PubAwait fut) = drop_future (Some fut)"
| "publish_call_drop _ = act_return ()"

section \<open>Subscribing\<close>

datatype sub_wait = DontWait qos | Before | After

text \<open>
  The closure passed to \<open>subscribe\<close> makes the value to return and the kind of the subscription;
  it may take an identifier from the shared state.
\<close>

type_synonym 'r sub_func = "client_shared \<Rightarrow> ('r \<times> subscription_kind) \<times> client_shared"

datatype 'r subscribe_call =
    SubStart rstr qos "'r sub_func"
  | SubBefore subscribe_future rstr qos "'r sub_func"
  | SubSend command rstr 'r "qos option"
  | SubAfter subscribe_future 'r
  | SubDone

definition sub_register :: "rstr \<Rightarrow> ('q, sub_wait) call" where
  "sub_register topic h =
     (case hm_get topic (subs (h_shared h)) of
        Some (Existing q) \<Rightarrow> (Inr (DontWait q), h)
      | Some (Pending _) \<Rightarrow> (Inr Before, h)
      | None \<Rightarrow>
          (Inr After, h\<lparr>h_shared := (h_shared h)\<lparr>subs := hm_insert topic (Pending []) (subs (h_shared h))\<rparr>\<rparr>))"

definition poll_subscribe_future ::
    "waker \<Rightarrow> subscribe_future \<Rightarrow> ('q, (unit + qos) poll \<times> subscribe_future) call" where
  "poll_subscribe_future w fut h =
     (case subscribe_future_poll w fut (h_shared h) of
        Inl f \<Rightarrow> (Inl f, h)
      | Inr (r, fut, sh) \<Rightarrow> (Inr (r, fut), h\<lparr>h_shared := sh\<rparr>))"

definition drop_subscribe_future :: "subscribe_future \<Rightarrow> ('q, unit) call" where
  "drop_subscribe_future fut h =
     (case subscribe_future_drop fut (h_shared h) of
        Inl f \<Rightarrow> (Inl f, h)
      | Inr sh \<Rightarrow> (Inr (), h\<lparr>h_shared := sh\<rparr>))"

definition await_after ::
    "waker \<Rightarrow> subscribe_future \<Rightarrow> 'r \<Rightarrow> ('q, (subscribe_error + 'r \<times> qos) poll \<times> 'r subscribe_call) call" where
  "await_after w fut ret =
     act_bind (poll_subscribe_future w fut) (\<lambda>(r, fut).
       case r of
         PollPending \<Rightarrow> act_return (PollPending, SubAfter fut ret)
       | Ready x \<Rightarrow>
           act_bind (drop_subscribe_future fut) (\<lambda>_.
           act_return (Ready (case x of Inl _ \<Rightarrow> Inl RefusedByBroker | Inr q \<Rightarrow> Inr (ret, q)), SubDone)))"

definition send_subscribe ::
    "'q channel \<Rightarrow> waker \<Rightarrow> command \<Rightarrow> rstr \<Rightarrow> 'r \<Rightarrow> qos option \<Rightarrow>
     ('q, (subscribe_error + 'r \<times> qos) poll \<times> 'r subscribe_call) call" where
  "send_subscribe C w cmd topic ret actual_qos =
     act_bind (poll_send C w cmd) (\<lambda>sent.
       case sent of
         PollPending \<Rightarrow> act_return (PollPending, SubSend cmd topic ret actual_qos)
       | Ready (Inl _) \<Rightarrow> act_return (Ready (Inl SubTransceiverTaskTerminated), SubDone)
       | Ready (Inr _) \<Rightarrow>
           (case actual_qos of
              Some q \<Rightarrow> act_return (Ready (Inr (ret, q)), SubDone)
            | None \<Rightarrow> await_after w (subscribe_future_new topic) ret))"

definition call_func :: "'r sub_func \<Rightarrow> ('q, 'r \<times> subscription_kind) call" where
  "call_func func h = (case func (h_shared h) of (x, sh) \<Rightarrow> (Inr x, h\<lparr>h_shared := sh\<rparr>))"

definition run_subscribe ::
    "'q channel \<Rightarrow> waker \<Rightarrow> rstr \<Rightarrow> qos \<Rightarrow> 'r sub_func \<Rightarrow> qos option \<Rightarrow>
     ('q, (subscribe_error + 'r \<times> qos) poll \<times> 'r subscribe_call) call" where
  "run_subscribe C w topic qos_hint func actual_qos =
     act_bind (call_func func) (\<lambda>(ret, kind).
     send_subscribe C w (CmdSubscribe \<lparr>sc_topic = topic, sc_qos = qos_hint, sc_kind = kind\<rparr>) topic ret actual_qos)"

definition await_before ::
    "'q channel \<Rightarrow> waker \<Rightarrow> subscribe_future \<Rightarrow> rstr \<Rightarrow> qos \<Rightarrow> 'r sub_func \<Rightarrow>
     ('q, (subscribe_error + 'r \<times> qos) poll \<times> 'r subscribe_call) call" where
  "await_before C w fut topic qos_hint func =
     act_bind (poll_subscribe_future w fut) (\<lambda>(r, fut).
       case r of
         PollPending \<Rightarrow> act_return (PollPending, SubBefore fut topic qos_hint func)
       | Ready (Inl _) \<Rightarrow>
           act_bind (drop_subscribe_future fut) (\<lambda>_. act_return (Ready (Inl RefusedByBroker), SubDone))
       | Ready (Inr q) \<Rightarrow>
           act_bind (drop_subscribe_future fut) (\<lambda>_. run_subscribe C w topic qos_hint func (Some q)))"

fun subscribe_call_poll ::
    "'q channel \<Rightarrow> waker \<Rightarrow> 'r subscribe_call \<Rightarrow>
     ('q, (subscribe_error + 'r \<times> qos) poll \<times> 'r subscribe_call) call" where
  "subscribe_call_poll C w (SubStart topic qos_hint func) =
     act_bind (sub_register topic) (\<lambda>wait.
       case wait of
         DontWait q \<Rightarrow> run_subscribe C w topic qos_hint func (Some q)
       | Before \<Rightarrow> await_before C w (subscribe_future_new topic) topic qos_hint func
       | After \<Rightarrow> run_subscribe C w topic qos_hint func None)"
| "subscribe_call_poll C w (SubBefore fut topic qos_hint func) = await_before C w fut topic qos_hint func"
| "subscribe_call_poll C w (SubSend cmd topic ret actual_qos) = send_subscribe C w cmd topic ret actual_qos"
| "subscribe_call_poll C w (SubAfter fut ret) = await_after w fut ret"
| "subscribe_call_poll C w SubDone = act_fail (Panic ''async fn resumed after completion'')"

fun subscribe_call_drop :: "'r subscribe_call \<Rightarrow> ('q, unit) call" where
  "subscribe_call_drop (SubBefore fut _ _ _) = drop_subscribe_future fut"
| "subscribe_call_drop (SubAfter fut _) = drop_subscribe_future fut"
| "subscribe_call_drop _ = act_return ()"

text \<open>The handle of a fast callback, \<open>subs.rs\<close>.\<close>

record callback =
  callback_topic :: rstr
  callback_id :: u32

definition callback_new :: "rstr \<Rightarrow> u32 \<Rightarrow> callback" where
  "callback_new topic i = \<lparr>callback_topic = topic, callback_id = i\<rparr>"

text \<open>
  The four public functions. The channel that a lossy or unbounded subscription makes is given
  by its handle.
\<close>

definition subscribe_void :: "rstr \<Rightarrow> qos \<Rightarrow> unit subscribe_call" where
  "subscribe_void topic qos_hint = SubStart topic qos_hint (\<lambda>sh. (((), Void), sh))"

definition subscribe_lossy :: "handle \<Rightarrow> rstr \<Rightarrow> qos \<Rightarrow> handle subscribe_call" where
  "subscribe_lossy chan topic qos_hint = SubStart topic qos_hint (\<lambda>sh. ((chan, Lossy chan), sh))"

definition subscribe_unbounded :: "handle \<Rightarrow> rstr \<Rightarrow> qos \<Rightarrow> handle subscribe_call" where
  "subscribe_unbounded chan topic qos_hint = SubStart topic qos_hint (\<lambda>sh. ((chan, Unbounded chan), sh))"

definition subscribe_fast_callback :: "handle \<Rightarrow> rstr \<Rightarrow> qos \<Rightarrow> u32 subscribe_call" where
  "subscribe_fast_callback callback topic qos_hint =
     SubStart topic qos_hint (\<lambda>sh.
       case fetch_callback_id sh of
         (i, sh) \<Rightarrow> ((i, FastCallback \<lparr>cb_id = i, cb_f = callback\<rparr>), sh))"

text \<open>What the first and the last of them make of the result.\<close>

definition poll_map :: "('a \<Rightarrow> 'b) \<Rightarrow> 'a poll \<Rightarrow> 'b poll" where
  "poll_map f p = (case p of Ready a \<Rightarrow> Ready (f a) | PollPending \<Rightarrow> PollPending)"

definition subscribe_void_poll ::
    "'q channel \<Rightarrow> waker \<Rightarrow> unit subscribe_call \<Rightarrow>
     ('q, (subscribe_error + qos) poll \<times> unit subscribe_call) call" where
  "subscribe_void_poll C w c =
     act_bind (subscribe_call_poll C w c) (\<lambda>(r, c).
     act_return (poll_map (map_sum id snd) r, c))"

definition subscribe_fast_callback_poll ::
    "'q channel \<Rightarrow> waker \<Rightarrow> rstr \<Rightarrow> u32 subscribe_call \<Rightarrow>
     ('q, (subscribe_error + callback \<times> qos) poll \<times> u32 subscribe_call) call" where
  "subscribe_fast_callback_poll C w topic c =
     act_bind (subscribe_call_poll C w c) (\<lambda>(r, c).
     act_return (poll_map (map_sum id (\<lambda>(i, q). (callback_new topic i, q))) r, c))"

datatype subscription_status = Absent | StatusPending | Live

definition get_subscription_status :: "rstr \<Rightarrow> client_shared \<Rightarrow> subscription_status" where
  "get_subscription_status topic sh =
     (case hm_get topic (subs sh) of
        Some (Existing _) \<Rightarrow> Live
      | Some (Pending _) \<Rightarrow> StatusPending
      | None \<Rightarrow> Absent)"

section \<open>Commands without an answer\<close>

text \<open>\<open>let _ = self.cmd_queue.send(cmd).await\<close>.\<close>

datatype send_call = SendStart command | SendDone

fun send_call_poll :: "'q channel \<Rightarrow> waker \<Rightarrow> send_call \<Rightarrow> ('q, unit poll \<times> send_call) call" where
  "send_call_poll C w (SendStart cmd) =
     act_bind (poll_send C w cmd) (\<lambda>sent.
       case sent of
         PollPending \<Rightarrow> act_return (PollPending, SendStart cmd)
       | Ready _ \<Rightarrow> act_return (Ready (), SendDone))"
| "send_call_poll C w SendDone = act_fail (Panic ''async fn resumed after completion'')"

definition unsubscribe :: "rstr \<Rightarrow> send_call" where
  "unsubscribe topic = SendStart (CmdUnsub \<lparr>uc_topic = topic, uc_kind = Immediate\<rparr>)"

definition client_disconnect :: send_call where
  "client_disconnect = SendStart CmdDisconnect"

definition is_transceiver_task_running :: "'q channel \<Rightarrow> 'q handles \<Rightarrow> bool" where
  "is_transceiver_task_running C h = (\<not> ch_is_closed C (h_queue h))"

definition did_transceiver_task_stop :: "'q channel \<Rightarrow> 'q handles \<Rightarrow> bool" where
  "did_transceiver_task_stop C h = ch_is_closed C (h_queue h)"

definition remove_callback :: "callback \<Rightarrow> send_call" where
  "remove_callback cb = SendStart (CmdUnsub \<lparr>uc_topic = callback_topic cb, uc_kind = UnsubFastCallback (callback_id cb)\<rparr>)"

text \<open>\<open>ClientShutdownHandle::disconnect\<close>; \<open>join\<close> is a poll of the join handle of the task.\<close>

datatype shutdown_call = ShutdownSend send_call | ShutdownJoin | ShutdownDone

definition shutdown_disconnect :: shutdown_call where
  "shutdown_disconnect = ShutdownSend client_disconnect"

definition await_join ::
    "'j poll \<Rightarrow> ('q, 'j poll \<times> shutdown_call) call" where
  "await_join join =
     act_return (join, case join of PollPending \<Rightarrow> ShutdownJoin | Ready _ \<Rightarrow> ShutdownDone)"

fun shutdown_call_poll ::
    "'q channel \<Rightarrow> waker \<Rightarrow> 'j poll \<Rightarrow> shutdown_call \<Rightarrow> ('q, 'j poll \<times> shutdown_call) call" where
  "shutdown_call_poll C w join (ShutdownSend s) =
     act_bind (send_call_poll C w s) (\<lambda>(r, s).
       case r of
         PollPending \<Rightarrow> act_return (PollPending, ShutdownSend s)
       | Ready _ \<Rightarrow> await_join join)"
| "shutdown_call_poll C w join ShutdownJoin = await_join join"
| "shutdown_call_poll C w join ShutdownDone = act_fail (Panic ''async fn resumed after completion'')"

section \<open>Connecting\<close>

text \<open>\<open>time::timeout\<close>: the answer, or nothing before the time is over.\<close>

datatype 'a timed = InTime 'a | Elapsed

record 's network =
  lookup_host :: "nat \<Rightarrow> rstr \<Rightarrow> (io_error + socket_addr list) timed"
  new_socket :: "bool \<Rightarrow> io_error + unit"
  tcp_connect :: "nat \<Rightarrow> socket_addr \<Rightarrow> (io_error + 's) timed"
  set_nodelay :: "'s \<Rightarrow> io_error + 's"

fun is_ipv6 :: "socket_addr \<Rightarrow> bool" where
  "is_ipv6 (AddrV4 _ _) = False"
| "is_ipv6 (AddrV6 _ _) = True"

text \<open>The decimal digits of a number, and \<open>str::find\<close> for a character.\<close>

fun fmt_dec :: "nat \<Rightarrow> rstr" where
  "fmt_dec n = (if n < 10 then [] else fmt_dec (n div 10)) @ [word_of_nat (48 + n mod 10)]"

declare fmt_dec.simps [simp del]

fun find_byte :: "u8 \<Rightarrow> rstr \<Rightarrow> nat option" where
  "find_byte c [] = None"
| "find_byte c (b # bs) = (if b = c then Some 0 else map_option Suc (find_byte c bs))"

definition colon :: u8 where "colon = 58"

definition host_and_port :: "rstr \<Rightarrow> u16 \<Rightarrow> rstr \<times> nat" where
  "host_and_port host port =
     (case find_byte colon host of
        Some x \<Rightarrow> (host, x)
      | None \<Rightarrow> (host @ [colon] @ fmt_dec (unat port), length host))"

record 't build_data =
  bd_transport :: 't
  bd_connect_packet :: "u8 list"
  bd_ping_interval :: nat
  bd_shared :: client_shared
  bd_packet_resend_delay :: nat

definition connect_packet_of :: "unit options \<Rightarrow> connect_packet" where
  "connect_packet_of opt =
     \<lparr>cp_clean_session = o_clean_session opt, cp_keep_alive = o_keep_alive opt,
      cp_client_id = o_client_id opt, cp_will = o_last_will opt,
      cp_username = o_username opt, cp_password = o_password opt\<rparr>"

definition make_build_data :: "unit options \<Rightarrow> 't \<Rightarrow> (connect_error, 't build_data) result" where
  "make_build_data opt tr =
     res_bind (map_err ConnIoError (make_arc_packet connect_impl (connect_packet_of opt))) (\<lambda>connect_packet.
     Inr \<lparr>bd_transport = tr, bd_connect_packet = connect_packet,
          bd_ping_interval = from_secs (unat (o_keep_alive opt)), bd_shared = client_shared_new,
          bd_packet_resend_delay = max (o_packets_resend_delay opt) (from_secs 1)\<rparr>)"

text \<open>The part of \<open>connect\<close> up to the connected socket.\<close>

definition open_stream :: "'s network \<Rightarrow> unit options \<Rightarrow> rstr \<Rightarrow> connect_error + 's" where
  "open_stream N opt hp =
     (case lookup_host N (o_dns_timeout opt) hp of
        Elapsed \<Rightarrow> Inl (Timeout DnsLookup)
      | InTime (Inl e) \<Rightarrow> Inl (LookupHostError e)
      | InTime (Inr addrs) \<Rightarrow>
          (case filter (supports (o_enabled_ip_versions opt)) addrs of
             [] \<Rightarrow> Inl HostnameNotFound
           | addr # _ \<Rightarrow>
               (case new_socket N (is_ipv6 addr) of
                  Inl e \<Rightarrow> Inl (ConnIoError e)
                | Inr _ \<Rightarrow>
                    (case tcp_connect N (o_tcp_connect_timeout opt) addr of
                       Elapsed \<Rightarrow> Inl (Timeout TcpConnect)
                     | InTime (Inl e) \<Rightarrow> Inl (ConnIoError e)
                     | InTime (Inr stream) \<Rightarrow>
                         if o_no_delay opt
                         then (case set_nodelay N stream of
                                 Inl e \<Rightarrow> Inl (ConnIoError e)
                               | Inr stream \<Rightarrow> Inr stream)
                         else Inr stream))))"

definition connect_setup ::
    "'s network \<Rightarrow> ('c, 'conn, 's, 't) connection_config \<Rightarrow> rstr \<Rightarrow> 'c options \<Rightarrow>
     (connect_error, 't build_data) result" where
  "connect_setup N CC host opt =
     res_bind (separate_connection_cfg opt) (\<lambda>(opt, conn_cfg).
     let (hp, port_pos) = host_and_port host (default_port opt); host_only = take port_pos hp in
     (case create_connection CC conn_cfg host_only of
        Inl e \<Rightarrow> Inl (Err e)
      | Inr conn \<Rightarrow>
          (case open_stream N opt hp of
             Inl e \<Rightarrow> Inl (Err e)
           | Inr stream \<Rightarrow> make_build_data opt (create_transport CC stream conn))))"

record client =
  was_session_present :: bool

text \<open>
  The answer of the task, as \<open>connect\<close> receives it in time or not, becomes its result; the
  second component tells what happens to the command queue of a client that is not returned.
\<close>

datatype queue_end = QueueKept | QueueDisconnect | QueueDropped

fun connect_finish :: "conn_result option timed \<Rightarrow> (connect_error + client) \<times> queue_end" where
  "connect_finish (InTime (Some (Inr x))) = (Inr \<lparr>was_session_present = x\<rparr>, QueueKept)"
| "connect_finish (InTime (Some (Inl x))) = (Inl (ServerError x), QueueDropped)"
| "connect_finish (InTime None) = (Inl OneshotRecvError, QueueDropped)"
| "connect_finish Elapsed = (Inl (Timeout MqttConnect), QueueDisconnect)"

text \<open>
  What the receiver of the one-shot channel sees of a task that has run for a while: the value
  that was sent, the sender dropped with the task, or nothing yet.
\<close>

definition conn_rx ::
    "(io_error, bool) result progress \<Rightarrow> ('t, 'w) transceiver \<Rightarrow> conn_result option timed" where
  "conn_rx p t =
     (case connect_result t of
        Some r \<Rightarrow> InTime (Some r)
      | None \<Rightarrow> (case p of Finished _ \<Rightarrow> InTime None | _ \<Rightarrow> Elapsed))"

text \<open>
  The whole function: \<open>evs\<close> are the events that the spawned task receives until \<open>connect\<close> goes
  on. The state of the task is returned with the client.
\<close>

definition client_connect ::
    "'s network \<Rightarrow> ('c, 'conn, 's, 't) connection_config \<Rightarrow> ('t, 'w) env \<Rightarrow> rstr \<Rightarrow> 'c options \<Rightarrow>
     event list \<Rightarrow> 'w \<Rightarrow>
     (connect_error, ((connect_error + client) \<times> queue_end) \<times> ('t, 'w) transceiver) result" where
  "client_connect N CC E host opt evs w =
     res_bind (connect_setup N CC host opt) (\<lambda>bd.
     res_bind (map_err ConnIoError (spawn_state E (bd_transport bd) (bd_connect_packet bd)
         (bd_ping_interval bd) (bd_shared bd) (bd_packet_resend_delay bd) w)) (\<lambda>t.
     case run_task_loop E evs t of
       (p, t, _) \<Rightarrow> Inr (connect_finish (conn_rx p t), t)))"

end
