(* ===== verification/Client_Properties.thy ===== *)
theory Client_Properties
  imports Client Protocol_Properties Handshake_Properties Lifecycle_Properties
begin

text \<open>
  Properties of the public interface, and of the client, the futures and the transceiver task
  together.
\<close>

section \<open>The command queue\<close>

text \<open>
  What the client relies on: a command that is accepted goes to the end of the queue, and
  nothing else changes the commands in it; only a closed queue refuses for good.
\<close>

locale command_queue =
  fixes C :: "'q channel" and items :: "'q \<Rightarrow> command list"
  assumes try_send_law: "ch_try_send C cmd q = (r, q') \<Longrightarrow>
      items q' = items q @ (if r = SendOk then [cmd] else []) \<and> (r = SendClosed \<longleftrightarrow> ch_is_closed C q)"
    and poll_send_law: "ch_poll_send C w cmd q = (p, q') \<Longrightarrow>
      items q' = items q @ (if p = Ready (Inr ()) then [cmd] else []) \<and> (p = Ready (Inl ()) \<longleftrightarrow> ch_is_closed C q)"

text \<open>A bounded queue, as \<open>mpsc::channel\<close> documents it.\<close>

record bounded_queue =
  bq_items :: "command list"
  bq_capacity :: nat
  bq_closed :: bool

definition bounded_channel :: "bounded_queue channel" where
  "bounded_channel =
     \<lparr>ch_try_send = (\<lambda>cmd q.
        if bq_closed q then (SendClosed, q)
        else if bq_capacity q \<le> length (bq_items q) then (SendFull, q)
        else (SendOk, q\<lparr>bq_items := bq_items q @ [cmd]\<rparr>)),
      ch_poll_send = (\<lambda>w cmd q.
        if bq_closed q then (Ready (Inl ()), q)
        else if bq_capacity q \<le> length (bq_items q) then (PollPending, q)
        else (Ready (Inr ()), q\<lparr>bq_items := bq_items q @ [cmd]\<rparr>)),
      ch_is_closed = bq_closed\<rparr>"

interpretation bounded: command_queue bounded_channel bq_items
  by unfold_locales (auto simp: bounded_channel_def split: if_splits)

section \<open>Publishing\<close>

text \<open>The message that the arguments of a publish function describe, once it has an identifier.\<close>

definition message_for :: "rstr \<Rightarrow> u8 list \<Rightarrow> qos \<Rightarrow> bool \<Rightarrow> client_shared \<Rightarrow> message" where
  "message_for topic payload q retain sh =
     \<lparr>m_dup = False, m_qos = q, m_retain = retain, m_topic = topic,
      m_packet_id = (if q = AtMostOnce then 0 else next_packet_id sh), m_payload = payload\<rparr>"

definition after_id :: "qos \<Rightarrow> client_shared \<Rightarrow> client_shared" where
  "after_id q sh = (if q = AtMostOnce then sh else sh\<lparr>next_packet_id := next_packet_id sh + 1\<rparr>)"

lemma make_publish_cmd_eq:
  assumes "sendable (message_for topic payload q retain (h_shared h))"
  obtains pkt where
    "make_publish_cmd topic payload q retain h =
       (Inr \<lparr>pc_packet_id = m_packet_id (message_for topic payload q retain (h_shared h)), pc_qos = q,
          pc_packet = pkt\<rparr>, h\<lparr>h_shared := after_id q (h_shared h)\<rparr>)"
    "make_arc_packet publish_impl (outgoing (message_for topic payload q retain (h_shared h))) = Inr pkt"
proof -
  let ?m = "message_for topic payload q retain (h_shared h)"
  have "publish_wf (outgoing ?m)" "length (publish_body (outgoing ?m)) < 2 ^ 28"
    using assms
    by (auto simp: sendable_def publish_wf_def outgoing_def publish_flags_new_ok publish_body_def)
  then obtain pkt where "make_arc_packet publish_impl (outgoing ?m) = Inr pkt"
    using publish.make_arc_packet_ok [of "outgoing ?m"] by (auto simp: publish_impl_def)
  then show ?thesis
    by (intro that [of pkt]; cases "q = AtMostOnce")
      (simp_all add: make_publish_cmd_def act_bind_def act_return_def next_id_def fetch_packet_id_def
        outgoing_def message_for_def after_id_def)
qed

context command_queue
begin

lemma poll_send_cases:
  assumes "poll_send C w cmd h = (r, h')"
  obtains "r = Inr (Ready (Inr ()))" "items (h_queue h') = items (h_queue h) @ [cmd]" "h_shared h' = h_shared h"
    | "r = Inr (Ready (Inl ()))" "items (h_queue h') = items (h_queue h)" "h_shared h' = h_shared h"
      "ch_is_closed C (h_queue h)"
    | "r = Inr PollPending" "items (h_queue h') = items (h_queue h)" "h_shared h' = h_shared h"
      "\<not> ch_is_closed C (h_queue h)"
proof -
  obtain p q where s: "ch_poll_send C w cmd (h_queue h) = (p, q)" by fastforce
  then have h': "h' = h\<lparr>h_queue := q\<rparr>" "r = Inr p" using assms by (simp_all add: poll_send_def)
  note law = poll_send_law [OF s]
  show ?thesis
  proof (cases p)
    case (Ready x)
    with law h' that(1,2) show ?thesis by (cases x) auto
  qed (use law h' that(3) in auto)
qed

text \<open>The three ways a first poll can end when there is a stage to await.\<close>

lemma first_poll_cases:
  assumes "sendable (message_for topic payload q retain (h_shared h))"
    and "publish_call_poll C w (PubStart topic payload q retain (Some st)) h = (r, h')"
  obtains pkt fut where
      "make_arc_packet publish_impl (outgoing (message_for topic payload q retain (h_shared h))) = Inr pkt"
      "r = Inr (PollPending, PubAwait fut)"
      "items (h_queue h') = items (h_queue h) @ [CmdPublish \<lparr>pc_packet_id = pf_packet_id fut, pc_qos = q, pc_packet = pkt\<rparr>]"
      "fut = \<lparr>pf_packet_id = m_packet_id (message_for topic payload q retain (h_shared h)), pf_notifier = st, pf_result = None\<rparr>"
      "hm_get (pf_packet_id fut) (access_notifier_map st (h_shared h')) = Some (WithWaker w)"
    | cmd fut where "r = Inr (PollPending, PubSend cmd (Some fut))" "items (h_queue h') = items (h_queue h)"
      "hm_get (pf_packet_id fut) (access_notifier_map st (h_shared h')) = Some WithoutWaker"
    | "r = Inr (Ready (Inl PubTransceiverTaskTerminated), PubDone)" "items (h_queue h') = items (h_queue h)"
      "ch_is_closed C (h_queue h)"
      "hm_get (m_packet_id (message_for topic payload q retain (h_shared h))) (access_notifier_map st (h_shared h')) = None"
proof -
  let ?i = "m_packet_id (message_for topic payload q retain (h_shared h))"
  let ?sh = "after_id q (h_shared h)"
  let ?fut = "\<lparr>pf_packet_id = ?i, pf_notifier = st, pf_result = None\<rparr>"
  let ?sh1 = "set_notifier_map st (hm_insert ?i WithoutWaker (access_notifier_map st ?sh)) ?sh"
  obtain pkt where
    c: "make_publish_cmd topic payload q retain h =
       (Inr \<lparr>pc_packet_id = ?i, pc_qos = q, pc_packet = pkt\<rparr>, h\<lparr>h_shared := ?sh\<rparr>)"
    and pkt: "make_arc_packet publish_impl (outgoing (message_for topic payload q retain (h_shared h))) = Inr pkt"
    using make_publish_cmd_eq [OF assms(1)] .
  let ?cmd = "CmdPublish \<lparr>pc_packet_id = ?i, pc_qos = q, pc_packet = pkt\<rparr>"
  let ?h = "h\<lparr>h_shared := ?sh1\<rparr>"
  have p: "send_publish C w ?cmd (Some ?fut) ?h = (r, h')"
    using assms(2) c by (simp add: act_bind_def register_def publish_future_new_def)
  obtain r1 h1 where s: "poll_send C w ?cmd ?h = (r1, h1)" by fastforce
  show ?thesis
  proof (rule poll_send_cases [OF s])
    assume k: "r1 = Inr (Ready (Inr ()))" "items (h_queue h1) = items (h_queue ?h) @ [?cmd]" "h_shared h1 = h_shared ?h"
    then have a: "await_publish w ?fut h1 = (r, h')" using p s by (simp add: send_publish_def act_bind_def)
    show ?thesis
      by (rule that(1) [OF pkt, of ?fut])
        (use a k in \<open>auto simp: await_publish_def publish_future_poll_def Let_def\<close>)
  next
    assume k: "r1 = Inr (Ready (Inl ()))" "items (h_queue h1) = items (h_queue ?h)" "h_shared h1 = h_shared ?h"
      "ch_is_closed C (h_queue ?h)"
    with p s show ?thesis
      by (intro that(3)) (auto simp: send_publish_def act_bind_def drop_future_def act_return_def publish_future_drop_def)
  next
    assume k: "r1 = Inr PollPending" "items (h_queue h1) = items (h_queue ?h)" "h_shared h1 = h_shared ?h"
    with p s show ?thesis
      by (intro that(2) [of ?cmd ?fut]) (auto simp: send_publish_def act_bind_def act_return_def)
  qed
qed

end

text \<open>
  C19. A publish call that awaits an acknowledgement registers its future before the command can
  reach the task. Its first poll ends in one of three ways: the command is the last in the
  queue, its packet is decoded to the message, and the waker is registered under the
  identifier of the packet; the queue is full, nothing has been sent and the registration
  stays; or the task has terminated, nothing has been sent and the registration is gone.
\<close>

theorem publish_registers_before_sending:
  assumes "command_queue C items" and "sendable (message_for topic payload q retain (h_shared h))"
    and "m = message_for topic payload q retain (h_shared h)"
    and "publish_call_poll C w (PubStart topic payload q retain (Some st)) h = (r, h')"
  shows "(\<exists>pkt fut. r = Inr (PollPending, PubAwait fut) \<and>
      items (h_queue h') = items (h_queue h) @
        [CmdPublish \<lparr>pc_packet_id = m_packet_id m, pc_qos = q, pc_packet = pkt\<rparr>] \<and>
      parses pkt [received m] [] \<and>
      hm_get (m_packet_id m) (access_notifier_map st (h_shared h')) = Some (WithWaker w)) \<or>
    (\<exists>cmd fut. r = Inr (PollPending, PubSend cmd (Some fut)) \<and> items (h_queue h') = items (h_queue h) \<and>
      hm_get (pf_packet_id fut) (access_notifier_map st (h_shared h')) = Some WithoutWaker) \<or>
    r = Inr (Ready (Inl PubTransceiverTaskTerminated), PubDone) \<and> items (h_queue h') = items (h_queue h) \<and>
      ch_is_closed C (h_queue h) \<and> hm_get (m_packet_id m) (access_notifier_map st (h_shared h')) = None"
proof (rule command_queue.first_poll_cases [OF assms(1,2,4)], goal_cases)
  case (1 pkt fut)
  have "parses (pkt @ []) [received m] []"
    by (rule publish_frame) (use assms(2,3) 1 in simp_all)
  with 1 assms(3) show ?case by auto
qed (use assms(3) in auto)

text \<open>A client that has just been connected, with its command queue.\<close>

definition fresh :: "bounded_queue handles" where
  "fresh = \<lparr>h_shared = client_shared_new, h_queue = \<lparr>bq_items = [], bq_capacity = 1024, bq_closed = False\<rparr>\<rparr>"

theorem publish_registers_before_sending_witness:
  "\<exists>h' fut. publish_call_poll bounded_channel 42 (publish_qos_1 (str_bytes ''a'') [5] False True) fresh =
       (Inr (PollPending, PubAwait fut), h') \<and>
     hm_get 1 (notify_ack (h_shared h')) = Some (WithWaker 42) \<and>
     (\<exists>pkt. bq_items (h_queue h') = [CmdPublish \<lparr>pc_packet_id = 1, pc_qos = AtLeastOnce, pc_packet = pkt\<rparr>])"
proof -
  let ?p = "publish_call_poll bounded_channel 42 (PubStart (str_bytes ''a'') [5] AtLeastOnce False (Some StAck)) fresh"
  have "fst ?p = Inr (PollPending, PubAwait \<lparr>pf_packet_id = 1, pf_notifier = StAck, pf_result = None\<rparr>)"
    by code_simp
  then obtain h' where p: "?p = (Inr (PollPending, PubAwait \<lparr>pf_packet_id = 1, pf_notifier = StAck, pf_result = None\<rparr>), h')"
    by (metis prod.collapse)
  have "sendable (message_for (str_bytes ''a'') [5] AtLeastOnce False (h_shared fresh))"
    "m_packet_id (message_for (str_bytes ''a'') [5] AtLeastOnce False (h_shared fresh)) = 1"
    "bq_items (h_queue fresh) = []"
    by code_simp+
  with publish_registers_before_sending [OF bounded.command_queue_axioms _ refl p] p show ?thesis
    by (auto simp: publish_qos_1_def)
qed

section \<open>Publishing from end to end\<close>

text \<open>The packets by which the broker acknowledges a publication up to a stage.\<close>

fun acknowledgements :: "stage \<Rightarrow> u16 \<Rightarrow> incoming_packet list" where
  "acknowledgements StAck i = [ack_packet StAck i]"
| "acknowledgements StRec i = [ack_packet StRec i]"
| "acknowledgements StComp i = [ack_packet StRec i, ack_packet StComp i]"

fun stage_of :: "qos \<Rightarrow> stage \<Rightarrow> bool" where
  "stage_of AtLeastOnce st = (st = StAck)"
| "stage_of ExactlyOnce st = (st = StRec \<or> st = StComp)"
| "stage_of AtMostOnce st = False"

lemma with_timeout_ok:
  assumes "queue_internal_packet_with_timeout E p i t = (Inr u, t')"
  shows "pending_packets t' i = Some p \<and> connect_sig t' = connect_sig t \<and> shared t' = shared t \<and> woken t' = woken t"
  using assms
  by (auto simp: queue_internal_packet_with_timeout_def act_bind_def act_simps timeout_now_def panic_in_test_def
      push_timeout_def instant_now_def dest!: only_ioD [OF queue_only_io] elim!: io_changeE
      split: if_splits)

lemma acknowledged_others:
  assumes "acknowledged StRec i t = (r, t')"
  shows "pending_packets t' (id_pub_rel j) = pending_packets t (id_pub_rel j)"
    "notify_comp (shared t') = notify_comp (shared t)"
  using assms
  by (auto simp: acknowledged_def act_bind_def clear_packet_timeout_def notify_stage_def
      remove_notifier_def wake_def act_return_def id_type_defs Let_def split: if_splits)

lemma pub_rec_prepares_comp:
  assumes "connected t" and "process_packet E (ack_packet StRec i) t = (Inr b, t')"
  shows "(\<exists>p. pending_packets t' (id_pub_rel i) = Some p) \<and> notify_comp (shared t') = notify_comp (shared t)"
proof -
  let ?rel = "id_pub_rel i"
  let ?m = "case pending_packets t ?rel of
           Some existing \<Rightarrow> queue_internal_packet E existing False
         | None \<Rightarrow>
             act_bind (lift_res (make_arc_packet pub_rel_impl (simple_new i))) (\<lambda>pkt.
             queue_internal_packet_with_timeout E pkt ?rel)"
  have "act_bind ?m (\<lambda>_. acknowledged StRec i) t = (Inr b, t')"
    using assms
    by (simp add: process_packet_def connected_def process_pub_rec_def Let_def acknowledged_def
        act_bind_assoc act_bind_get cong: option.case_cong if_cong)
  then obtain u t1 where m: "?m t = (Inr u, t1)" and a: "acknowledged StRec i t1 = (Inr b, t')"
    by (auto simp: act_bind_eq_Inr)
  have "(\<exists>p. pending_packets t1 ?rel = Some p) \<and> shared t1 = shared t"
  proof (cases "pending_packets t ?rel")
    case None
    with m obtain p where "queue_internal_packet_with_timeout E p ?rel t = (Inr u, t1)"
      by (auto simp: act_bind_eq_Inr lift_res_def)
    from with_timeout_ok [OF this] show ?thesis by simp
  next
    case (Some p)
    with m only_ioD [OF queue_only_io, of E p False t "Inr u" t1] show ?thesis by (auto elim!: io_changeE)
  qed
  with acknowledged_others [OF a] show ?thesis by simp
qed

lemma process_packet_connected:
  assumes "connected t" and "process_packet E pkt t = (r, t')"
  shows "connected t'"
proof -
  have "act_bind (process_connected E pkt) (\<lambda>_. act_return False) t = (r, t')"
    using assms by (simp add: process_packet_def connected_def)
  with keepsD [OF keeps_bind [OF handshake.keeps_process_connected keeps_basic(1)] this] assms(1)
  show ?thesis by (simp add: connected_def)
qed

lemma acknowledgement_effect:
  assumes "connected t" and "pending_packets t (awaited st i) = Some p"
    and "hm_get i (access_notifier_map st (shared t)) = Some (WithWaker w)"
    and "process_packet E (ack_packet st i) t = (Inr b, t')"
  shows "w \<in> set (woken t') \<and> hm_get i (access_notifier_map st (shared t')) = None"
proof -
  obtain t1 where t1: "acknowledged st i t1 = (Inr b, t')" "shared t1 = shared t" "woken t1 = woken t"
    "pending_packets t1 (awaited st i) = pending_packets t (awaited st i)"
    using process_ack_packet [OF assms(1,4)] .
  have "(Inr b :: (io_error, bool) result) = Inr False \<and> woken t' = woken t1 @ [w] \<and>
      pending_packets t' (awaited st i) = None \<and> hm_get i (access_notifier_map st (shared t')) = None"
    by (rule acknowledged_effect [OF _ _ t1(1)]) (use assms t1 in simp_all)
  then show ?thesis by simp
qed

lemma acknowledgements_effect:
  assumes "connected t" and "pending_packets t (id_publish i) = Some p"
    and "hm_get i (access_notifier_map st (shared t)) = Some (WithWaker w)"
    and "receive_all E (acknowledgements st i) t = Some t'"
  shows "w \<in> set (woken t') \<and> hm_get i (access_notifier_map st (shared t')) = None"
proof (cases st)
  case StComp
  from assms(4) StComp obtain t1 where
    r: "process_packet E (ack_packet StRec i) t = (Inr False, t1)"
    and c: "process_packet E (ack_packet StComp i) t1 = (Inr False, t')"
    by (auto split: prod.splits sum.splits bool.splits)
  from pub_rec_prepares_comp [OF assms(1) r] obtain q where
    "pending_packets t1 (awaited StComp i) = Some q"
    "hm_get i (access_notifier_map StComp (shared t1)) = Some (WithWaker w)"
    using assms(3) StComp by auto
  from acknowledgement_effect [OF process_packet_connected [OF assms(1) r] this c] StComp show ?thesis by simp
next
  case StAck
  with assms acknowledgement_effect [of t StAck i p w E False t'] show ?thesis
    by (auto split: prod.splits sum.splits bool.splits)
next
  case StRec
  with assms acknowledgement_effect [of t StRec i p w E False t'] show ?thesis
    by (auto split: prod.splits sum.splits bool.splits)
qed



section \<open>Subscribing\<close>

text \<open>What a closure passed to \<open>subscribe\<close> leaves alone, as all four of them do.\<close>

definition harmless :: "'r sub_func \<Rightarrow> bool" where
  "harmless func = (\<forall>sh. subs (snd (func sh)) = subs sh)"

lemma harmless_funcs:
  "harmless (\<lambda>sh. ((a, k), sh))"
  "harmless (\<lambda>sh. case fetch_callback_id sh of (i, sh) \<Rightarrow> ((g i, k' i), sh))"
  by (simp_all add: harmless_def fetch_callback_id_def)

lemma poll_while_pending:
  assumes "hm_get topic (subs (h_shared h)) = Some (Pending ws)"
  shows "subscribe_call_poll C w (SubStart topic qos_hint func) h =
    (Inr (PollPending, SubBefore \<lparr>sf_topic = topic, sf_waker_index = Some (length ws), sf_result = None\<rparr> topic qos_hint func),
     h\<lparr>h_shared := (h_shared h)\<lparr>subs := hm_insert topic (Pending (ws @ [Some w])) (subs (h_shared h))\<rparr>\<rparr>)"
  using assms
  by (simp add: act_bind_def sub_register_def await_before_def poll_subscribe_future_def
      subscribe_future_poll_def subscribe_future_new_def act_return_def)

context command_queue
begin

text \<open>The ways the first subscriber's first poll can end.\<close>

lemma first_subscriber_cases:
  assumes "hm_get topic (subs (h_shared h)) = None" and "harmless func"
    and "subscribe_call_poll C w (SubStart topic qos_hint func) h = (r, h')"
  obtains fut ret kind where "r = Inr (PollPending, SubAfter fut ret)"
      "items (h_queue h') = items (h_queue h) @ [CmdSubscribe \<lparr>sc_topic = topic, sc_qos = qos_hint, sc_kind = kind\<rparr>]"
      "hm_get topic (subs (h_shared h')) = Some (Pending [Some w])"
      "fut = \<lparr>sf_topic = topic, sf_waker_index = Some 0, sf_result = None\<rparr>"
      "(ret, kind) = fst (func ((h_shared h)\<lparr>subs := hm_insert topic (Pending []) (subs (h_shared h))\<rparr>))"
    | cmd ret where "r = Inr (PollPending, SubSend cmd topic ret None)" "items (h_queue h') = items (h_queue h)"
      "hm_get topic (subs (h_shared h')) = Some (Pending [])"
    | "r = Inr (Ready (Inl SubTransceiverTaskTerminated), SubDone)" "items (h_queue h') = items (h_queue h)"
      "hm_get topic (subs (h_shared h')) = Some (Pending [])" "ch_is_closed C (h_queue h)"
proof -
  let ?sh = "(h_shared h)\<lparr>subs := hm_insert topic (Pending []) (subs (h_shared h))\<rparr>"
  obtain ret kind sh where f: "func ?sh = ((ret, kind), sh)" by (metis prod.exhaust)
  have sh: "subs sh = hm_insert topic (Pending []) (subs (h_shared h))"
    using assms(2) f unfolding harmless_def by (metis client_shared.select_convs(5) client_shared.surjective
        client_shared.update_convs(5) snd_conv)
  let ?cmd = "CmdSubscribe \<lparr>sc_topic = topic, sc_qos = qos_hint, sc_kind = kind\<rparr>"
  have p: "send_subscribe C w ?cmd topic ret None (h\<lparr>h_shared := sh\<rparr>) = (r, h')"
    using assms(1,3) f by (simp add: act_bind_def sub_register_def run_subscribe_def call_func_def)
  obtain r1 h1 where s: "poll_send C w ?cmd (h\<lparr>h_shared := sh\<rparr>) = (r1, h1)" by fastforce
  show ?thesis
  proof (rule poll_send_cases [OF s], goal_cases)
    case 1
    then have "await_after w (subscribe_future_new topic) ret h1 = (r, h')"
      using p s by (simp add: send_subscribe_def act_bind_def)
    with 1 sh f show ?case
      by (intro that(1) [of _ ret kind])
        (auto simp: await_after_def act_bind_def poll_subscribe_future_def subscribe_future_poll_def
          subscribe_future_new_def act_return_def)
  next
    case 2
    with p s sh show ?case by (intro that(3)) (auto simp: send_subscribe_def act_bind_def act_return_def)
  next
    case 3
    with p s sh show ?case by (intro that(2)) (auto simp: send_subscribe_def act_bind_def act_return_def)
  qed
qed

end

text \<open>Several callers that subscribe to one topic, each polled once.\<close>

fun poll_each :: "'q channel \<Rightarrow> (waker \<times> 'r subscribe_call) list \<Rightarrow> 'q handles \<Rightarrow> 'q handles" where
  "poll_each C [] h = h"
| "poll_each C ((w, c) # cs) h = poll_each C cs (snd (subscribe_call_poll C w c h))"

lemma poll_each_pending:
  assumes "hm_get topic (subs (h_shared h)) = Some (Pending ws)"
    and "h' = poll_each C (map (\<lambda>(w, func). (w, SubStart topic qos_hint func)) cs) h"
  shows "h_queue h' = h_queue h \<and>
    hm_get topic (subs (h_shared h')) = Some (Pending (ws @ map (Some \<circ> fst) cs))"
  using assms
proof (induction cs arbitrary: h ws)
  case (Cons c cs)
  obtain w func where c: "c = (w, func)" by fastforce
  from Cons.IH [of "h\<lparr>h_shared := (h_shared h)\<lparr>subs := hm_insert topic (Pending (ws @ [Some w])) (subs (h_shared h))\<rparr>\<rparr>"
      "ws @ [Some w]"] Cons.prems c
  show ?case by (simp add: poll_while_pending [OF Cons.prems(1)] comp_def del: subscribe_call_poll.simps)
qed simp





section \<open>Subscribing from end to end\<close>

lemma get_unsubscribed:
  assumes "parse_filter (levels topic) = Some p" and "\<not> is_subscribed (sub_at p n)"
    and "get topic (\<lambda>sub. if is_subscribed sub then g sub else (None, sub)) n = (r, n')"
  shows "(r = Inr None \<or> r = Inr (Some None)) \<and> (\<forall>q. sub_at q n' = sub_at q n)"
proof -
  let ?f = "\<lambda>sub. if is_subscribed sub then g sub else (None, sub)"
  have "get_from (topic_slicer_new topic) ?f n = (r, n')" using assms(3) by (simp add: get_def)
  note s = get_from_spec [OF this]
  show ?thesis
  proof (cases r)
    case (Inl u)
    with s assms(1) show ?thesis by (simp add: levels_def)
  next
    case (Inr x)
    with s assms(1,2) show ?thesis by (cases x) (auto simp: levels_def)
  qed
qed

lemma command_subscribe_effect:
  assumes "parse_filter (levels topic) = Some p" and "\<not> is_subscribed (sub_at p (subscriptions t))"
    and "command_subscribe E \<lparr>sc_topic = topic, sc_qos = q, sc_kind = kind\<rparr> t = (Inr u, t1)"
  obtains pkt where
    "pending_subs t1 (next_packet_id (shared t)) = Some \<lparr>ps_topic = topic, ps_kind = kind, ps_packet = pkt\<rparr>"
    "subs (shared t1) = subs (shared t)" "woken t1 = woken t" "connect_sig t1 = connect_sig t"
    "\<And>f. sub_at f (subscriptions t1) = sub_at f (subscriptions t)"
proof -
  let ?i = "next_packet_id (shared t)"
  obtain r n' where g: "get topic (\<lambda>sub. if is_subscribed sub
      then (case (sub_add (en_cfg_test E) kind sub :: (io_error, unit) result \<times> _) of (r, sub) \<Rightarrow> (Some r, sub))
      else (None, sub)) (subscriptions t) = (r, n')" by fastforce
  note s = get_unsubscribed [OF assms(1,2) g]
  obtain pkt t2 where "try_send_packet E pkt False (t\<lparr>subscriptions := n',
        shared := (shared t)\<lparr>next_packet_id := ?i + 1\<rparr>,
        pending_subs := (pending_subs t)(?i \<mapsto> \<lparr>ps_topic = topic, ps_kind = kind, ps_packet = pkt\<rparr>)\<rparr>) = (Inr (), t2)"
    and t1: "t1 = t2\<lparr>clock_reads := clock_reads t2 + 1,
        timeout_queue := timeout_queue t2 @ [\<lparr>to_t = en_clock E (clock_reads t2), to_packet_id = id_subscribe ?i\<rparr>]\<rparr>"
    using assms(3) g s
    by (auto simp: command_subscribe_def act_bind_eq_Inr lift_res_def fetch_id_def fetch_packet_id_def act_modify_def
        timeout_now_def instant_now_def push_timeout_def act_return_def act_bind_def [of "instant_now E"]
        cong: if_cong)
  with only_ioD [OF try_send_packet_only_io this(1)] s show ?thesis
    by (intro that [of pkt]) (auto elim!: io_changeE)
qed



end
