(* ===== verification/Connect_Properties.thy ===== *)
theory Connect_Properties
  imports Client_Properties Codec_Properties
begin

text \<open>
  Connecting: what \<open>connect\<close> sends and returns, how it takes a host name apart, and what becomes
  of a task whose connection is never answered; packet identifiers.
\<close>

section \<open>The result of connecting\<close>

lemma connect_setup_packet:
  assumes "connect_setup N CC host opt = Inr bd"
  shows "make_arc_packet connect_impl (connect_packet_of (map_connection_cfg (\<lambda>_. ()) opt)) = Inr (bd_connect_packet bd)"
    "bd_shared bd = client_shared_new" "bd_ping_interval bd = from_secs (unat (o_keep_alive opt))"
    "bd_packet_resend_delay bd = max (o_packets_resend_delay opt) (from_secs 1)"
proof -
  have "separate_connection_cfg opt = (Inr (map_connection_cfg (\<lambda>_. ()) opt, o_connection_cfg opt) :: (connect_error, _) result)"
    by (simp add: separate_connection_cfg_def map_connection_cfg_def Let_def)
  with assms obtain tr where "make_build_data (map_connection_cfg (\<lambda>_. ()) opt) tr = Inr bd"
    by (auto simp: connect_setup_def Let_def split: prod.splits sum.splits)
  then show "make_arc_packet connect_impl (connect_packet_of (map_connection_cfg (\<lambda>_. ()) opt)) = Inr (bd_connect_packet bd)"
    "bd_shared bd = client_shared_new" "bd_ping_interval bd = from_secs (unat (o_keep_alive opt))"
    "bd_packet_resend_delay bd = max (o_packets_resend_delay opt) (from_secs 1)"
    by (auto simp: make_build_data_def map_connection_cfg_def res_bind_eq_Inr)
qed

text \<open>A network that knows one host, whose broker sends what the script holds.\<close>

definition script_network :: "u8 list option list \<Rightarrow> script network" where
  "script_network rds =
     \<lparr>lookup_host = (\<lambda>_ hp. InTime (if hp = str_bytes ''broker:1883'' then Inr [AddrV4 0x7F000001 1883] else Inr [])),
      new_socket = (\<lambda>_. Inr ()),
      tcp_connect = (\<lambda>_ _. InTime (Inr \<lparr>sc_reads = rds, sc_writes = [], sc_out = []\<rparr>)),
      set_nodelay = Inr\<rparr>"

definition sample_options :: "unit options" where
  "sample_options = options_new (str_bytes ''me'')"

definition sample_data :: "u8 list option list \<Rightarrow> script tcp_transport build_data" where
  "sample_data rds =
     \<lparr>bd_transport = tcp_transport_new \<lparr>sc_reads = rds, sc_writes = [], sc_out = []\<rparr>,
      bd_connect_packet = [0x10, 14, 0, 4, 0x4D, 0x51, 0x54, 0x54, 4, 0, 0, 30, 0, 2, 0x6D, 0x65],
      bd_ping_interval = 30000000000, bd_shared = client_shared_new, bd_packet_resend_delay = 1000000000\<rparr>"

lemma sample_connect:
  "connect_setup (script_network rds) tcp_connection_config (str_bytes ''broker'') sample_options = Inr (sample_data rds)"
  "connect_wf (connect_packet_of (map_connection_cfg (\<lambda>_. ()) sample_options))"
  "connect_utf8 (connect_packet_of (map_connection_cfg (\<lambda>_. ()) sample_options))"
  by code_simp+

text \<open>
  C17. \<open>connect\<close> sends the options it was given: the broker decodes the CONNECT packet to the
  session flag, keep-alive, client identifier, last will and credentials of the options. The
  task pings at the keep-alive interval, and retransmits after the delay of the options or one
  second.
\<close>

theorem connect_sends_options:
  assumes "connect_setup N CC host opt = Inr bd"
    and "connect_wf (connect_packet_of (map_connection_cfg (\<lambda>_. ()) opt))"
    and "connect_utf8 (connect_packet_of (map_connection_cfg (\<lambda>_. ()) opt))"
  shows "\<exists>body. bd_connect_packet bd = fixed_header PT_Connect 0 (length body) @ body \<and>
      broker_from_bytes body (ControlField (control_byte PT_Connect 0)) =
        Inr (IB_Connect
          \<lparr>cp_clean_session = o_clean_session opt, cp_keep_alive = o_keep_alive opt,
           cp_client_id = o_client_id opt, cp_will = o_last_will opt,
           cp_username = o_username opt, cp_password = o_password opt\<rparr>, []) \<and>
    bd_ping_interval bd = from_secs (unat (o_keep_alive opt)) \<and>
    bd_packet_resend_delay bd = max (o_packets_resend_delay opt) (from_secs 1)"
  using connect_packet_made [OF assms(2,3)] connect_setup_packet [OF assms(1)]
  by (intro exI [of _ "connect_body (connect_packet_of (map_connection_cfg (\<lambda>_. ()) opt))"])
    (simp add: connect_packet_of_def map_connection_cfg_def)

lemma client_connect_answer:
  assumes "transport_contract (en_transport E) inp out" and "\<not> en_cfg_test E"
    and "connect_setup N CC host opt = Inr bd" and "out (bd_transport bd) = []"
    and "connect_wf (connect_packet_of (map_connection_cfg (\<lambda>_. ()) opt))"
    and "connect_utf8 (connect_packet_of (map_connection_cfg (\<lambda>_. ()) opt))"
    and "client_connect N CC E host opt evs w = Inr ((answer, queue), t)"
  shows "(case answer of
      Inr c \<Rightarrow> connected t \<and> connect_result t = Some (Inr (was_session_present c)) \<and> queue = QueueKept
    | Inl e \<Rightarrow> prefix (out (transport t)) (bd_connect_packet bd) \<and>
        (case e of
           ServerError x \<Rightarrow> connect_result t = Some (Inl x) \<and> queue = QueueDropped
         | Timeout k \<Rightarrow> k = MqttConnect \<and> connect_sig t \<and> queue = QueueDisconnect
         | OneshotRecvError \<Rightarrow> connect_sig t \<and> queue = QueueDropped
         | _ \<Rightarrow> False))"
proof -
  from assms(3,7) obtain t0 where
    sp: "spawn_state E (bd_transport bd) (bd_connect_packet bd) (bd_ping_interval bd) (bd_shared bd)
        (bd_packet_resend_delay bd) w = Inr t0"
    and c: "(case run_task_loop E evs t0 of
        (p, t, _) \<Rightarrow> Inr (connect_finish (conn_rx p t), t)) = (Inr ((answer, queue), t) :: (connect_error, _) result)"
    by (auto simp: client_connect_def res_bind_eq_Inr simp del: split_paired_All)
  obtain p t' rest where "run_task_loop E evs t0 = (p, t', rest)" by (rule prod_cases3)
  with c have r: "run_task_loop E evs t0 = (p, t, rest)" and f: "connect_finish (conn_rx p t) = (answer, queue)"
    by auto
  have "bd_connect_packet bd \<noteq> []"
    using connect_packet_made [OF assms(5,6)] connect_setup_packet(1) [OF assms(3)]
    by (auto simp: fixed_header_def)
  note h = run_task_loop_handshake [OF assms(1,2) sp this assms(4) r]
  show ?thesis
  proof (cases "connect_result t")
    case None
    with h f show ?thesis by (cases p) (auto simp: conn_rx_def)
  next
    case (Some x)
    with h f show ?thesis by (cases x) (auto simp: conn_rx_def)
  qed
qed

theorem connect_sends_options_witness:
  "\<exists>body. bd_connect_packet (sample_data []) = fixed_header PT_Connect 0 (length body) @ body \<and>
     broker_from_bytes body (ControlField (control_byte PT_Connect 0)) =
       Inr (IB_Connect
         \<lparr>cp_clean_session = False, cp_keep_alive = 30, cp_client_id = [0x6D, 0x65], cp_will = None,
          cp_username = None, cp_password = None\<rparr>, [])"
  using connect_sends_options [OF sample_connect(1) [of "[]"] sample_connect(2,3)]
  by (auto simp: sample_options_def options_new_def str_bytes_def)

text \<open>
  C16. \<open>connect\<close> returns a client exactly when the broker has accepted, with the session flag of
  its answer, and reports a refusal as such. Without an acceptance nothing but a part of the
  CONNECT packet has been sent.
\<close>

theorem connect_reports_answer:
  assumes "transport_contract (en_transport E) inp out" and "\<not> en_cfg_test E"
    and "connect_setup N CC host opt = Inr bd" and "out (bd_transport bd) = []"
    and "connect_wf (connect_packet_of (map_connection_cfg (\<lambda>_. ()) opt))"
    and "connect_utf8 (connect_packet_of (map_connection_cfg (\<lambda>_. ()) opt))"
    and "client_connect N CC E host opt evs w = Inr ((answer, queue), t)"
  shows "(case answer of
      Inr c \<Rightarrow> connected t \<and> connect_result t = Some (Inr (was_session_present c)) \<and> queue = QueueKept
    | Inl e \<Rightarrow> prefix (out (transport t)) (bd_connect_packet bd) \<and>
        (case e of
           ServerError x \<Rightarrow> connect_result t = Some (Inl x) \<and> queue = QueueDropped
         | Timeout k \<Rightarrow> k = MqttConnect \<and> connect_sig t \<and> queue = QueueDisconnect
         | OneshotRecvError \<Rightarrow> connect_sig t \<and> queue = QueueDropped
         | _ \<Rightarrow> False))"
  by (rule client_connect_answer [OF assms])

theorem connect_reports_answer_witness:
  "\<exists>t. client_connect (script_network [Some [0x20, 2, 1, 0], None]) tcp_connection_config script_env
       (str_bytes ''broker'') sample_options [ReadReady None] [] =
         Inr ((Inr \<lparr>was_session_present = True\<rparr>, QueueKept), t) \<and>
     connected t \<and> connect_result t = Some (Inr True)"
proof -
  let ?c = "client_connect (script_network [Some [0x20, 2, 1, 0], None]) tcp_connection_config script_env
      (str_bytes ''broker'') sample_options [ReadReady None] []"
  have "(case ?c of Inr (a, _) \<Rightarrow> a = (Inr \<lparr>was_session_present = True\<rparr>, QueueKept) | _ \<Rightarrow> False)"
    by code_simp
  then obtain t where c: "?c = Inr ((Inr \<lparr>was_session_present = True\<rparr>, QueueKept), t)"
    by (auto split: sum.splits)
  have "transport_contract (en_transport script_env) (\<lambda>t. script_inp (tcp t)) (\<lambda>t. sc_out (tcp t))"
    by (rule scripted_client.transport_contract_axioms)
  from connect_reports_answer [OF this _ sample_connect(1) _ sample_connect(2,3) c] c show ?thesis
    by (auto simp: script_env_def sample_data_def tcp_transport_new_def)
qed

section \<open>A connection that is never answered\<close>

lemma unanswered_task_waits:
  assumes "connect_sig t"
    and "list_all (\<lambda>ev. case ev of CommandRecv _ \<Rightarrow> True | AlarmTick \<Rightarrow> True | _ \<Rightarrow> False) evs"
  shows "step_loop E evs t = (Waiting, t, [])"
  using assms
  by (induction evs)
    (auto simp: event_enabled_def connected_def task_step_def alarm_tick_def act_bind_def act_return_def
      split: event.splits)



section \<open>Subscribing while the task ends\<close>



section \<open>Packet identifiers\<close>

text \<open>The shared state of a new client after \<open>n\<close> packet identifiers have been taken from it.\<close>

definition ids_taken :: "nat \<Rightarrow> client_shared" where
  "ids_taken n = ((snd \<circ> fetch_packet_id) ^^ n) client_shared_new"

lemma fetch_after: "fst (fetch_packet_id (ids_taken n)) = word_of_nat (n + 1)"
  by (induction n) (simp_all add: ids_taken_def fetch_packet_id_def client_shared_new_def add_ac)

text \<open>
  C33. The packet identifiers of a client go round: two of them are equal exactly when the
  numbers of identifiers taken before agree modulo \<open>2 ^ 16\<close>, and every 65536th, the first one
  after 65535 others, is 0.
\<close>

theorem packet_ids_wrap:
  "(fst (fetch_packet_id (ids_taken m)) = fst (fetch_packet_id (ids_taken n)) \<longleftrightarrow> m mod 65536 = n mod 65536) \<and>
   (fst (fetch_packet_id (ids_taken n)) = 0 \<longleftrightarrow> n mod 65536 = 65535)"
proof -
  have "word_of_nat (m + 1) = (word_of_nat (n + 1) :: u16) \<longleftrightarrow> (word_of_nat m :: u16) = word_of_nat n"
    by simp
  also have "\<dots> \<longleftrightarrow> m mod 65536 = n mod 65536"
    by (simp only: word_of_nat_eq_iff take_bit_eq_mod) simp
  moreover have "(word_of_nat (n + 1) :: u16) = 0 \<longleftrightarrow> Suc n mod 65536 = 0"
    by (simp only: word_of_nat_eq_0_iff dvd_eq_mod_eq_0) simp
  ultimately show ?thesis unfolding fetch_after by (simp add: mod_Suc)
qed

end
