(* ===== verification/Command_Properties.thy ===== *)
theory Command_Properties
  imports Client_Properties Codec_Properties
begin

text \<open>
  The commands that the public functions put into the queue are of the form that the
  transceiver task requires.
\<close>

section \<open>Well-formed calls\<close>

text \<open>
  A call is well-formed when its topic fits the 16-bit length that the packets have for it and
  when a command it already holds is well-formed. The topic and the payload of a publication
  are slices of memory; whether they fit a packet is checked when the packet is made.
\<close>

fun publish_call_ok :: "publish_call \<Rightarrow> bool" where
  "publish_call_ok (PubStart topic payload _ _ _) = (length topic + length payload < 2 ^ 63)"
| "publish_call_ok (PubSend cmd _) = command_ok cmd"
| "publish_call_ok _ = True"

fun subscribe_call_ok :: "'r subscribe_call \<Rightarrow> bool" where
  "subscribe_call_ok (SubStart topic _ _) = (length topic < 2 ^ 16)"
| "subscribe_call_ok (SubBefore _ topic _ _) = (length topic < 2 ^ 16)"
| "subscribe_call_ok (SubSend cmd _ _ _) = command_ok cmd"
| "subscribe_call_ok _ = True"

fun send_call_ok :: "send_call \<Rightarrow> bool" where
  "send_call_ok (SendStart cmd) = command_ok cmd"
| "send_call_ok SendDone = True"

text \<open>Each of the public functions makes a well-formed call.\<close>

lemma public_calls_ok:
  "length topic + length payload < 2 ^ 63 \<Longrightarrow>
     publish_call_ok (publish_no_wait topic payload q retain) \<and>
     publish_call_ok (publish_qos_0 topic payload retain) \<and>
     publish_call_ok (publish_qos_1 topic payload retain await_ack) \<and>
     publish_call_ok (publish_qos_2 topic payload retain await_event)"
  "length topic < 2 ^ 16 \<Longrightarrow>
     subscribe_call_ok (subscribe_void topic q) \<and> subscribe_call_ok (subscribe_lossy chan topic q) \<and>
     subscribe_call_ok (subscribe_unbounded chan topic q) \<and>
     subscribe_call_ok (subscribe_fast_callback chan topic q) \<and>
     send_call_ok (unsubscribe topic) \<and> send_call_ok (remove_callback (callback_new topic i))"
  "send_call_ok client_disconnect"
  by (simp_all add: publish_no_wait_def publish_qos_0_def publish_qos_1_def publish_qos_2_def
      subscribe_void_def subscribe_lossy_def subscribe_unbounded_def subscribe_fast_callback_def
      unsubscribe_def remove_callback_def callback_new_def client_disconnect_def)

lemma publish_command_ok:
  assumes "make_publish_cmd topic payload q retain h = (Inr cmd, h')" and "length topic + length payload < 2 ^ 63"
  shows "command_ok (CmdPublish cmd) \<and> h_queue h' = h_queue h"
proof -
  from assms(1) obtain i where
    m: "make_arc_packet publish_impl \<lparr>op_flags = publish_flags_new False q retain, op_topic = topic,
        op_packet_id = i, op_payload = payload\<rparr> = Inr (pc_packet cmd)" and h: "h_queue h' = h_queue h"
    by (auto simp: make_publish_cmd_def act_bind_def act_return_def next_id_def fetch_packet_id_def
        res_bind_eq_Inr split: if_splits)
  let ?p = "\<lparr>op_flags = publish_flags_new False q retain, op_topic = topic, op_packet_id = i, op_payload = payload\<rparr>"
  have "length (publish_body ?p) < 2 ^ 64" using assms(2) by (auto simp: publish_body_def)
  from publish_packet_made [OF refl this] m show ?thesis
    using is_packet_encoded [of "publish_body ?p"] h by (auto split: if_splits)
qed

section \<open>Polling\<close>

context command_queue
begin

text \<open>A call that leaves only well-formed commands in the queue and returns a value with \<open>Q\<close>.\<close>

definition queues_ok :: "('a \<Rightarrow> bool) \<Rightarrow> ('q, 'a) call \<Rightarrow> bool" where
  "queues_ok Q m \<longleftrightarrow> (\<forall>h r h'. list_all command_ok (items (h_queue h)) \<and> m h = (r, h') \<longrightarrow>
     list_all command_ok (items (h_queue h')) \<and> (\<forall>a. r = Inr a \<longrightarrow> Q a))"

lemma queues_ok_bind:
  assumes "queues_ok P m" and "\<And>a. P a \<Longrightarrow> queues_ok Q (f a)"
  shows "queues_ok Q (act_bind m f)"
  unfolding queues_ok_def
proof (intro allI impI)
  fix h r h'
  assume h: "list_all command_ok (items (h_queue h)) \<and> act_bind m f h = (r, h')"
  obtain r1 h1 where m: "m h = (r1, h1)" by fastforce
  with assms(1) h have 1: "list_all command_ok (items (h_queue h1))" "\<And>a. r1 = Inr a \<Longrightarrow> P a"
    by (auto simp: queues_ok_def)
  show "list_all command_ok (items (h_queue h')) \<and> (\<forall>a. r = Inr a \<longrightarrow> Q a)"
  proof (cases r1)
    case (Inl x)
    with h m 1 show ?thesis by (auto simp: act_bind_def)
  next
    case (Inr a)
    with h m have "f a h1 = (r, h')" by (simp add: act_bind_def)
    with assms(2) [OF 1(2) [OF Inr]] 1(1) show ?thesis by (auto simp: queues_ok_def)
  qed
qed

lemma queues_okD:
  assumes "queues_ok (\<lambda>(_, c). Q c) m" and "list_all command_ok (items (h_queue h))"
  shows "case m h of
      (r, h') \<Rightarrow> list_all command_ok (items (h_queue h')) \<and> (\<forall>a c. r = Inr (a, c) \<longrightarrow> Q c)"
  using assms by (auto simp: queues_ok_def)

lemma queues_ok_return: "Q a \<Longrightarrow> queues_ok Q (act_return a)"
  by (simp add: queues_ok_def act_return_def)

lemma queues_ok_fail: "queues_ok Q (act_fail f)"
  by (simp add: queues_ok_def act_fail_def)

lemma queues_ok_keep: "(\<And>h. h_queue (snd (m h)) = h_queue h) \<Longrightarrow> queues_ok (\<lambda>_. True) m"
  unfolding queues_ok_def by (metis snd_conv)

lemma poll_send_ok:
  assumes "command_ok cmd"
  shows "queues_ok (\<lambda>_. True) (poll_send C w cmd)"
  unfolding queues_ok_def
proof (intro allI impI)
  fix h r h'
  assume h: "list_all command_ok (items (h_queue h)) \<and> poll_send C w cmd h = (r, h')"
  then have "poll_send C w cmd h = (r, h')" by simp
  then show "list_all command_ok (items (h_queue h')) \<and> (\<forall>a. r = Inr a \<longrightarrow> True)"
    by (rule poll_send_cases) (use assms h in simp_all)
qed

lemma make_publish_cmd_ok:
  assumes "length topic + length payload < 2 ^ 63"
  shows "queues_ok (\<lambda>cmd. command_ok (CmdPublish cmd)) (make_publish_cmd topic payload q retain)"
proof -
  have "h_queue h' = h_queue h" if "make_publish_cmd topic payload q retain h = (r, h')" for h r h'
    using that
    by (auto simp: make_publish_cmd_def act_bind_def act_return_def next_id_def fetch_packet_id_def
        split: if_splits)
  then show ?thesis unfolding queues_ok_def by (metis publish_command_ok [OF _ assms])
qed

lemma quiet_calls_ok:
  "queues_ok (\<lambda>_. True) (register i st)" "queues_ok (\<lambda>_. True) (drop_future f)"
  "queues_ok (\<lambda>_. True) (sub_register topic)" "queues_ok (\<lambda>_. True) (poll_subscribe_future w fut)"
  "queues_ok (\<lambda>_. True) (drop_subscribe_future fut)" "queues_ok (\<lambda>_. True) (call_func func)"
  by (rule queues_ok_keep, auto simp: register_def drop_future_def sub_register_def
      poll_subscribe_future_def drop_subscribe_future_def call_func_def
      split: option.splits prod.splits sum.splits subscription_state.splits)+

lemma await_publish_ok: "queues_ok (\<lambda>(_, c). publish_call_ok c) (await_publish w fut)"
  by (auto simp: queues_ok_def await_publish_def split: prod.splits poll.splits)

lemma send_publish_ok:
  "command_ok cmd \<Longrightarrow> queues_ok (\<lambda>(_, c). publish_call_ok c) (send_publish C w cmd fut)"
  unfolding send_publish_def
  by (rule queues_ok_bind [OF poll_send_ok])
    (auto intro!: queues_ok_return queues_ok_bind [OF quiet_calls_ok(2)] await_publish_ok
      split: poll.splits sum.splits option.splits)

lemma publish_call_poll_ok:
  "publish_call_ok c \<Longrightarrow> queues_ok (\<lambda>(_, c). publish_call_ok c) (publish_call_poll C w c)"
  by (cases c)
    (auto intro!: queues_ok_bind [OF make_publish_cmd_ok] queues_ok_bind [OF quiet_calls_ok(1)]
      send_publish_ok await_publish_ok queues_ok_fail)

lemma try_publish_ok:
  assumes "length topic + length payload < 2 ^ 63"
  shows "queues_ok (\<lambda>_. True) (try_publish C topic payload q retain)"
  unfolding try_publish_def
proof (rule queues_ok_bind [OF make_publish_cmd_ok [OF assms]])
  fix cmd assume "command_ok (CmdPublish cmd)"
  then show "queues_ok (\<lambda>_. True) (\<lambda>h. case ch_try_send C (CmdPublish cmd) (h_queue h) of
         (SendOk, qu) \<Rightarrow> (Inr (Inr ()), h\<lparr>h_queue := qu\<rparr>)
       | (SendClosed, qu) \<Rightarrow> (Inr (Inl TryTransceiverTaskTerminated), h\<lparr>h_queue := qu\<rparr>)
       | (SendFull, qu) \<Rightarrow> (Inr (Inl QueueFull), h\<lparr>h_queue := qu\<rparr>))"
    using try_send_law by (fastforce simp: queues_ok_def split: prod.splits try_send_result.splits)
qed

lemma await_after_ok: "queues_ok (\<lambda>(_, c). subscribe_call_ok c) (await_after w fut ret)"
  unfolding await_after_def
  by (rule queues_ok_bind [OF quiet_calls_ok(4)])
    (auto intro!: queues_ok_return queues_ok_bind [OF quiet_calls_ok(5)] split: poll.splits)

lemma send_subscribe_ok:
  "command_ok cmd \<Longrightarrow> queues_ok (\<lambda>(_, c). subscribe_call_ok c) (send_subscribe C w cmd topic ret aq)"
  unfolding send_subscribe_def
  by (rule queues_ok_bind [OF poll_send_ok])
    (auto intro!: queues_ok_return await_after_ok split: poll.splits sum.splits option.splits)

lemma run_subscribe_ok:
  "length topic < 2 ^ 16 \<Longrightarrow>
   queues_ok (\<lambda>(_, c). subscribe_call_ok c) (run_subscribe C w topic q func aq)"
  unfolding run_subscribe_def
  by (rule queues_ok_bind [OF quiet_calls_ok(6)]) (auto intro!: send_subscribe_ok)

lemma await_before_ok:
  "length topic < 2 ^ 16 \<Longrightarrow>
   queues_ok (\<lambda>(_, c). subscribe_call_ok c) (await_before C w fut topic q func)"
  unfolding await_before_def
  by (rule queues_ok_bind [OF quiet_calls_ok(4)])
    (auto intro!: queues_ok_return queues_ok_bind [OF quiet_calls_ok(5)] run_subscribe_ok
      split: poll.splits sum.splits)

lemma subscribe_call_poll_ok:
  "subscribe_call_ok c \<Longrightarrow> queues_ok (\<lambda>(_, c). subscribe_call_ok c) (subscribe_call_poll C w c)"
  by (cases c)
    (auto intro!: queues_ok_bind [OF quiet_calls_ok(3)] run_subscribe_ok await_before_ok
      send_subscribe_ok await_after_ok queues_ok_fail split: sub_wait.splits)

lemma send_call_poll_ok:
  "send_call_ok c \<Longrightarrow> queues_ok (\<lambda>(_, c). send_call_ok c) (send_call_poll C w c)"
  by (cases c)
    (auto intro!: queues_ok_bind [OF poll_send_ok] queues_ok_return queues_ok_fail split: poll.splits)

end


definition sample_handles :: "bounded_queue handles" where
  "sample_handles =
     \<lparr>h_shared = client_shared_new, h_queue = \<lparr>bq_items = [], bq_capacity = 2, bq_closed = False\<rparr>\<rparr>"


end
