(* ===== verification/Sync_Transport.thy ===== *)
theory Sync_Transport
  imports Transceiver
begin

unbundle bit_operations_syntax

text \<open>
  \<open>tests/mini_broker/sync_transport.rs\<close>: the transport of the test broker, whose functions
  return when the whole of what is to be read or written has been. A loop that waits takes the
  events that end the wait from a list, as the loops of the transceiver do.
\<close>

section \<open>Waiting\<close>

text \<open>
  What can end a wait: the socket is ready for reading or for writing, or the 100 milliseconds of
  the timer have passed. \<open>Deadline\<close> ends what is under \<open>time::timeout\<close>, and no other wait.
\<close>

datatype wait_event =
    Readable "io_error option"
  | Writable "io_error option"
  | TimerTick
  | Deadline

type_synonym ('s, 'a) blocking =
  "wait_event list \<Rightarrow> 's \<Rightarrow> (io_error, 'a) result progress \<times> 's \<times> wait_event list"

definition bl_return :: "'a \<Rightarrow> ('s, 'a) blocking" where
  "bl_return a evs s = (Finished (Inr a), s, evs)"

definition bl_fail :: "io_error fault \<Rightarrow> ('s, 'a) blocking" where
  "bl_fail f evs s = (Finished (Inl f), s, evs)"

definition bl_lift :: "('s, io_error, 'a) act \<Rightarrow> ('s, 'a) blocking" where
  "bl_lift m evs s = (case m s of (r, s) \<Rightarrow> (Finished r, s, evs))"

definition bl_bind :: "('s, 'a) blocking \<Rightarrow> ('a \<Rightarrow> ('s, 'b) blocking) \<Rightarrow> ('s, 'b) blocking" where
  "bl_bind m k evs s =
     (case m evs s of
        (Finished (Inr a), s, evs) \<Rightarrow> k a evs s
      | (Finished (Inl f), s, evs) \<Rightarrow> (Finished (Inl f), s, evs)
      | (Waiting, s, evs) \<Rightarrow> (Waiting, s, evs)
      | (Spinning, s, evs) \<Rightarrow> (Spinning, s, evs))"

text \<open>A panic of \<open>assert!\<close> and of \<open>panic!\<close>.\<close>

definition bl_assert :: "bool \<Rightarrow> string \<Rightarrow> ('s, unit) blocking" where
  "bl_assert b msg = (if b then bl_return () else bl_fail (Panic msg))"

text \<open>The \<open>select!\<close> that ends each round of the loops: an event whose guard is false is not polled.\<close>

fun select_ready :: "'t transport_ops \<Rightarrow> wanted_flags \<Rightarrow> ('t, unit) blocking" where
  "select_ready T wants [] t = (Waiting, t, [])"
| "select_ready T wants (Readable r # evs) t =
     (if wants_read wants
      then case r of
             Some e \<Rightarrow> (Finished (Inl (Err e)), t, evs)
           | None \<Rightarrow> bl_bind (bl_lift (t_pre_read T)) (\<lambda>_. bl_return ()) evs t
      else select_ready T wants evs t)"
| "select_ready T wants (Writable r # evs) t =
     (if wants_write wants
      then case r of
             Some e \<Rightarrow> (Finished (Inl (Err e)), t, evs)
           | None \<Rightarrow> bl_lift (t_pre_write T) evs t
      else select_ready T wants evs t)"
| "select_ready T wants (TimerTick # evs) t = (Finished (Inr ()), t, evs)"
| "select_ready T wants (Deadline # evs) t = select_ready T wants evs t"

lemma select_ready_shorter:
  "select_ready T wants evs t = (Finished r, t', evs') \<Longrightarrow> length evs' < length evs"
  by (induction T wants evs t rule: select_ready.induct)
    (auto simp: bl_bind_def bl_lift_def bl_return_def split: if_splits option.splits prod.splits sum.splits)

section \<open>Reading\<close>

abbreviation connection_reset :: io_error where
  "connection_reset \<equiv> IoError ConnectionReset NoPayload"

text \<open>
  What one round of a loop reads: no byte when the transport would block, and at least one
  otherwise.
\<close>

definition read_some :: "'t transport_ops \<Rightarrow> nat \<Rightarrow> ('t, io_error, u8 list) act" where
  "read_some T n t =
     (case t_read T n t of
        (Inr bs, t) \<Rightarrow> if length bs \<le> 0 then (Inl (Err connection_reset), t) else (Inr bs, t)
      | (Inl (Err err), t) \<Rightarrow> if io_kind err = WouldBlock then (Inr [], t) else (Inl (Err err), t)
      | (Inl f, t) \<Rightarrow> (Inl f, t))"

text \<open>\<open>read_fully\<close>, with the number of bytes to read and those read so far.\<close>

function read_loop_fully :: "'t transport_ops \<Rightarrow> nat \<Rightarrow> u8 list \<Rightarrow> ('t, u8 list) blocking" where
  "read_loop_fully T n dst evs t =
     (case read_some T (n - length dst) t of
        (Inl f, t) \<Rightarrow> (Finished (Inl f), t, evs)
      | (Inr bs, t) \<Rightarrow>
          let dst = dst @ bs in
          if n \<le> length dst then (Finished (Inr dst), t, evs)
          else
            let wants = t_wants T t True False in
            if \<not> wants_read wants \<and> \<not> wants_write wants
            then (Finished (Inl (Panic ''there is still some data to be read'')), t, evs)
            else
              case select_ready T wants evs t of
                (Finished (Inr _), t, evs) \<Rightarrow> read_loop_fully T n dst evs t
              | (Finished (Inl f), t, evs) \<Rightarrow> (Finished (Inl f), t, evs)
              | (Waiting, t, evs) \<Rightarrow> (Waiting, t, evs)
              | (Spinning, t, evs) \<Rightarrow> (Spinning, t, evs))"
  by pat_completeness auto
termination
  by (relation "measure (\<lambda>(T, n, dst, evs, t). length evs)")
    (auto dest!: sym [of "(Finished _, _)"] select_ready_shorter)

declare read_loop_fully.simps [simp del]

definition read_fully :: "'t transport_ops \<Rightarrow> nat \<Rightarrow> ('t, u8 list) blocking" where
  "read_fully T n = (if n \<le> 0 then bl_return [] else read_loop_fully T n [])"

function drop_byte :: "'t transport_ops \<Rightarrow> ('t, bool) blocking" where
  "drop_byte T evs t =
     (let wait = (\<lambda>t.
        let wants = t_wants T t True False in
        if \<not> wants_read wants \<and> \<not> wants_write wants
        then (Finished (Inl (Panic ''there is still some data to be read'')), t, evs)
        else
          case select_ready T wants evs t of
            (Finished (Inr _), t, evs) \<Rightarrow> drop_byte T evs t
          | (Finished (Inl f), t, evs) \<Rightarrow> (Finished (Inl f), t, evs)
          | (Waiting, t, evs) \<Rightarrow> (Waiting, t, evs)
          | (Spinning, t, evs) \<Rightarrow> (Spinning, t, evs)) in
      case t_read T 1 t of
        (Inr bs, t) \<Rightarrow> (Finished (Inr (length bs \<le> 0)), t, evs)
      | (Inl (Err err), t) \<Rightarrow>
          if io_kind err \<noteq> WouldBlock then (Finished (Inl (Err err)), t, evs) else wait t
      | (Inl f, t) \<Rightarrow> (Finished (Inl f), t, evs))"
  by pat_completeness auto
termination
  by (relation "measure (\<lambda>(T, evs, t). length evs)")
    (auto dest!: sym [of "(Finished _, _)"] select_ready_shorter)

declare drop_byte.simps [simp del]

abbreviation invalid_size :: io_error where
  "invalid_size \<equiv> IoError Other (MessagePayload ''Invalid packet size'')"

text \<open>The size bytes: \<open>i\<close> counts them, \<open>b\<close> is the last one read.\<close>

function read_size :: "'t transport_ops \<Rightarrow> nat \<Rightarrow> usize \<Rightarrow> nat \<Rightarrow> u8 \<Rightarrow> ('t, usize) blocking" where
  "read_size T i sz shift b =
     (let sz = sz OR push_bit shift (ucast (b AND 0x7F)) in
      if b AND 0x80 = 0 then bl_return sz
      else if 4 \<le> i then bl_fail (Err invalid_size)
      else
        bl_bind (read_fully T 1) (\<lambda>dst.
          case dst of
            [b] \<Rightarrow> read_size T (i + 1) sz (shift + 7) b
          | _ \<Rightarrow> bl_fail (Panic ''index out of bounds'')))"
  by pat_completeness auto
termination
  by (relation "measure (\<lambda>(T, i, sz, shift, b). 4 - i)") auto

declare read_size.simps [simp del]

definition read_packet :: "'t transport_ops \<Rightarrow> ('t, u8 list) blocking" where
  "read_packet T =
     bl_bind (read_fully T 2) (\<lambda>header.
       case header of
         [c, b] \<Rightarrow>
           bl_bind (read_size T 1 0 0 b) (\<lambda>sz.
           if 128000000 < sz then bl_fail (Err invalid_size)
           else bl_bind (read_fully T (unat sz)) (\<lambda>body. bl_return (c # body)))
       | _ \<Rightarrow> bl_fail (Panic ''index out of bounds''))"

section \<open>Writing\<close>

definition write_some :: "'t transport_ops \<Rightarrow> u8 list \<Rightarrow> ('t, io_error, nat) act" where
  "write_some T data t =
     (if length data \<le> 0 then (Inr 0, t)
      else
        case t_write T data False t of
          (Inr x, t) \<Rightarrow> if x \<le> 0 then (Inl (Err connection_reset), t) else (Inr x, t)
        | (Inl (Err err), t) \<Rightarrow> if io_kind err = WouldBlock then (Inr 0, t) else (Inl (Err err), t)
        | (Inl f, t) \<Rightarrow> (Inl f, t))"

function write_fully :: "'t transport_ops \<Rightarrow> u8 list \<Rightarrow> ('t, unit) blocking" where
  "write_fully T data evs t =
     (case act_bind (write_some T data) (\<lambda>written t.
             if length data < written then (Inl (Panic ''range start index out of range''), t)
             else
               act_bind (if length data \<le> written then t_flush T else act_return ())
                 (\<lambda>_. act_return (drop written data)) t) t of
        (Inl f, t) \<Rightarrow> (Finished (Inl f), t, evs)
      | (Inr data, t) \<Rightarrow>
          let wants = t_wants T t False (0 < length data) in
          if \<not> wants_read wants \<and> \<not> wants_write wants
          then if length data \<le> 0 then (Finished (Inr ()), t, evs)
               else (Finished (Inl (Panic ''there is still some data to be sent'')), t, evs)
          else if length data \<le> 0 \<and> \<not> wants_write wants then (Finished (Inr ()), t, evs)
          else
            case select_ready T wants evs t of
              (Finished (Inr _), t, evs) \<Rightarrow> write_fully T data evs t
            | (Finished (Inl f), t, evs) \<Rightarrow> (Finished (Inl f), t, evs)
            | (Waiting, t, evs) \<Rightarrow> (Waiting, t, evs)
            | (Spinning, t, evs) \<Rightarrow> (Spinning, t, evs))"
  by pat_completeness auto
termination
  by (relation "measure (\<lambda>(T, data, evs, t). length evs)")
    (auto dest!: sym [of "(Finished _, _)"] select_ready_shorter)

declare write_fully.simps [simp del]

function close_notify_loop :: "'t transport_ops \<Rightarrow> ('t, unit) blocking" where
  "close_notify_loop T evs t =
     (let wants = t_wants T t False False in
      if \<not> wants_read wants \<and> \<not> wants_write wants then (Finished (Inr ()), t, evs)
      else
        case select_ready T wants evs t of
          (Finished (Inr _), t, evs) \<Rightarrow> close_notify_loop T evs t
        | (Finished (Inl f), t, evs) \<Rightarrow> (Finished (Inl f), t, evs)
        | (Waiting, t, evs) \<Rightarrow> (Waiting, t, evs)
        | (Spinning, t, evs) \<Rightarrow> (Spinning, t, evs))"
  by pat_completeness auto
termination
  by (relation "measure (\<lambda>(T, evs, t). length evs)")
    (auto dest!: sym [of "(Finished _, _)"] select_ready_shorter)

declare close_notify_loop.simps [simp del]

definition sync_send_close_notify :: "'t transport_ops \<Rightarrow> ('t, unit) blocking" where
  "sync_send_close_notify T evs t = close_notify_loop T evs (t_send_close_notify T t)"

end
