(* ===== verification/Mini_Broker.thy ===== *)
theory Mini_Broker
  imports Sync_Transport
begin

text \<open>
  \<open>tests/mini_broker/mod.rs\<close>: the broker against which the tests run the client. It reads the
  packets of one client, answers them, and panics when something else arrives than it expects.
  The listener and the report of its state in the log are left out, and the texts of panics do not
  name the packets.
\<close>

record 't mini_broker =
  mb_transport :: 't
  mb_pending :: "incoming_broker_packet list"

definition mini_broker_new :: "'t \<Rightarrow> 't mini_broker" where
  "mini_broker_new tr = \<lparr>mb_transport = tr, mb_pending = []\<rparr>"

definition on_sync :: "('t, 'a) blocking \<Rightarrow> ('t mini_broker, 'a) blocking" where
  "on_sync m evs b =
     (case m evs (mb_transport b) of (r, tr, evs) \<Rightarrow> (r, b\<lparr>mb_transport := tr\<rparr>, evs))"

definition bl_result :: "(io_error, 'a) result \<Rightarrow> ('s, 'a) blocking" where
  "bl_result r evs s = (Finished r, s, evs)"

section \<open>Packets\<close>

definition broker_send :: "'t transport_ops \<Rightarrow> 'p encode_impl \<Rightarrow> 'p \<Rightarrow> ('t mini_broker, unit) blocking" where
  "broker_send T P pkt =
     bl_bind (bl_result (make_packet P pkt)) (\<lambda>data. on_sync (write_fully T data))"

text \<open>The \<open>unwrap\<close> of a decoded packet, and the check that no byte of it is left.\<close>

definition decode_whole ::
    "incoming_broker_packet read_result \<Rightarrow> ('s, incoming_broker_packet) blocking" where
  "decode_whole r =
     (case r of
        Inr (ret, rd) \<Rightarrow>
          bl_bind (bl_assert (remaining rd \<le> 0) ''Did not read packet in its entirety'') (\<lambda>_. bl_return ret)
      | Inl (Err _) \<Rightarrow> bl_fail (Panic ''called Result::unwrap() on an Err value'')
      | Inl (Panic m) \<Rightarrow> bl_fail (Panic m)
      | Inl (UB m) \<Rightarrow> bl_fail (UB m))"

definition broker_recv :: "'t transport_ops \<Rightarrow> bool \<Rightarrow> ('t mini_broker, incoming_broker_packet) blocking" where
  "broker_recv T use_pending evs b =
     (case (if use_pending then mb_pending b else []) of
        x # rest \<Rightarrow> (Finished (Inr x), b\<lparr>mb_pending := rest\<rparr>, evs)
      | [] \<Rightarrow>
          bl_bind (on_sync (read_packet T)) (\<lambda>data.
            case data of
              [] \<Rightarrow> bl_fail (Panic ''range start index out of range'')
            | c # body \<Rightarrow> decode_whole (broker_from_bytes (reader_new body) (ControlField c))) evs b)"

section \<open>Expecting a packet\<close>

text \<open>
  \<open>Expect\<close> and \<open>ExpectOrEnqueue\<close> have one function for each kind of packet; here the kind is an
  argument, the function that takes the packet out of its constructor.
\<close>

fun as_connect :: "incoming_broker_packet \<Rightarrow> connect_packet option" where
  "as_connect (IB_Connect x) = Some x" | "as_connect _ = None"

fun as_subscribe :: "incoming_broker_packet \<Rightarrow> subscribe_packet option" where
  "as_subscribe (IB_Subscribe x) = Some x" | "as_subscribe _ = None"

fun as_publish :: "incoming_broker_packet \<Rightarrow> incoming_publish_packet option" where
  "as_publish (IB_Publish x) = Some x" | "as_publish _ = None"

fun as_pub_ack :: "incoming_broker_packet \<Rightarrow> simple_packet option" where
  "as_pub_ack (IB_PubAck x) = Some x" | "as_pub_ack _ = None"

fun as_pub_rec :: "incoming_broker_packet \<Rightarrow> simple_packet option" where
  "as_pub_rec (IB_PubRec x) = Some x" | "as_pub_rec _ = None"

fun as_pub_rel :: "incoming_broker_packet \<Rightarrow> simple_packet option" where
  "as_pub_rel (IB_PubRel x) = Some x" | "as_pub_rel _ = None"

fun as_pub_comp :: "incoming_broker_packet \<Rightarrow> simple_packet option" where
  "as_pub_comp (IB_PubComp x) = Some x" | "as_pub_comp _ = None"

fun as_unsubscribe :: "incoming_broker_packet \<Rightarrow> unsubscribe_packet option" where
  "as_unsubscribe (IB_Unsubscribe x) = Some x" | "as_unsubscribe _ = None"

fun as_ping_req :: "incoming_broker_packet \<Rightarrow> unit option" where
  "as_ping_req IB_PingReq = Some ()" | "as_ping_req _ = None"

definition expect ::
    "'t transport_ops \<Rightarrow> (incoming_broker_packet \<Rightarrow> 'a option) \<Rightarrow> ('t mini_broker, 'a) blocking" where
  "expect T kind =
     bl_bind (broker_recv T True) (\<lambda>x.
       case kind x of
         Some a \<Rightarrow> bl_return a
       | None \<Rightarrow> bl_fail (Panic ''Broker expected another packet''))"

text \<open>The loop of \<open>expect_or_enqueue\<close>. It ends only with a packet of the kind, so it may not end.\<close>

partial_function (option) enqueue_loop ::
    "'t transport_ops \<Rightarrow> (incoming_broker_packet \<Rightarrow> 'a option) \<Rightarrow> wait_event list \<Rightarrow> 't mini_broker \<Rightarrow>
     ((io_error, 'a) result progress \<times> 't mini_broker \<times> wait_event list) option" where
  "enqueue_loop T kind evs b =
     (case broker_recv T False evs b of
        (Finished (Inr x), b, evs) \<Rightarrow>
          (case kind x of
             Some a \<Rightarrow> Some (Finished (Inr a), b, evs)
           | None \<Rightarrow> enqueue_loop T kind evs (b\<lparr>mb_pending := mb_pending b @ [x]\<rparr>))
      | (Finished (Inl f), b, evs) \<Rightarrow> Some (Finished (Inl f), b, evs)
      | (Waiting, b, evs) \<Rightarrow> Some (Waiting, b, evs)
      | (Spinning, b, evs) \<Rightarrow> Some (Spinning, b, evs))"

declare enqueue_loop.simps [code]

text \<open>\<open>time::timeout\<close>: the result, or \<open>None\<close> when the deadline comes first.\<close>

definition before_deadline :: "('s, 'a) blocking \<Rightarrow> ('s, (io_error + 'a) option) blocking" where
  "before_deadline m evs s =
     (let later = dropWhile (\<lambda>e. e \<noteq> Deadline) evs in
      case m (takeWhile (\<lambda>e. e \<noteq> Deadline) evs) s of
        (Finished (Inr a), s, evs) \<Rightarrow> (Finished (Inr (Some (Inr a))), s, evs @ later)
      | (Finished (Inl (Err e)), s, evs) \<Rightarrow> (Finished (Inr (Some (Inl e))), s, evs @ later)
      | (Finished (Inl (Panic msg)), s, evs) \<Rightarrow> (Finished (Inl (Panic msg)), s, evs @ later)
      | (Finished (Inl (UB msg)), s, evs) \<Rightarrow> (Finished (Inl (UB msg)), s, evs @ later)
      | (Waiting, s, _) \<Rightarrow>
          (case later of
             [] \<Rightarrow> (Waiting, s, [])
           | _ # evs \<Rightarrow> (Finished (Inr None), s, evs))
      | (Spinning, s, evs) \<Rightarrow> (Spinning, s, evs @ later))"

definition expect_or_enqueue ::
    "'t transport_ops \<Rightarrow> (incoming_broker_packet \<Rightarrow> 'a option) \<Rightarrow> ('t mini_broker, 'a) blocking" where
  "expect_or_enqueue T kind =
     bl_bind
       (before_deadline (\<lambda>evs b.
          case enqueue_loop T kind evs b of None \<Rightarrow> (Spinning, b, evs) | Some x \<Rightarrow> x))
       (\<lambda>r. case r of
          Some (Inr a) \<Rightarrow> bl_return a
        | Some (Inl e) \<Rightarrow> bl_fail (Err e)
        | None \<Rightarrow> bl_fail (Panic ''Got stuck waiting for packet''))"

section \<open>Messages\<close>

definition recv_message :: "'t transport_ops \<Rightarrow> ('t mini_broker, incoming_publish_packet) blocking" where
  "recv_message T =
     bl_bind (expect T as_publish) (\<lambda>ret.
     let info = publish_info ret in
     bl_bind (bl_result (flags_qos (pi_flags info))) (\<lambda>qos.
     bl_bind
       (if qos = AtLeastOnce then broker_send T pub_ack_impl (simple_new (pi_packet_id info))
        else if qos = ExactlyOnce then
          bl_bind (broker_send T pub_rec_impl (simple_new (pi_packet_id info))) (\<lambda>_.
          bl_bind (expect_or_enqueue T as_pub_rel) (\<lambda>rel.
          bl_bind (bl_assert (sp_packet_id rel = pi_packet_id info) ''assertion failed: left == right'') (\<lambda>_.
          broker_send T pub_comp_impl (simple_new (pi_packet_id info)))))
        else bl_return ())
       (\<lambda>_. bl_return ret)))"

definition send_message :: "'t transport_ops \<Rightarrow> outgoing_publish_packet \<Rightarrow> ('t mini_broker, unit) blocking" where
  "send_message T msg =
     bl_bind (broker_send T publish_impl msg) (\<lambda>_.
     bl_bind (bl_result (flags_qos (op_flags msg))) (\<lambda>qos.
     if qos = AtLeastOnce then
       bl_bind (expect_or_enqueue T as_pub_ack) (\<lambda>ack.
       bl_assert (op_packet_id msg = sp_packet_id ack) ''assertion failed: left == right'')
     else if qos = ExactlyOnce then
       bl_bind (expect_or_enqueue T as_pub_rec) (\<lambda>rec.
       bl_bind (bl_assert (op_packet_id msg = sp_packet_id rec) ''assertion failed: left == right'') (\<lambda>_.
       bl_bind (broker_send T pub_rel_impl (simple_new (op_packet_id msg))) (\<lambda>_.
       bl_bind (expect_or_enqueue T as_pub_comp) (\<lambda>comp.
       bl_assert (op_packet_id msg = sp_packet_id comp) ''assertion failed: left == right''))))
     else bl_return ()))"

section \<open>Disconnecting\<close>

definition terminate_conn :: "'t transport_ops \<Rightarrow> ('t mini_broker, bool) blocking" where
  "terminate_conn T =
     bl_bind (on_sync (sync_send_close_notify T)) (\<lambda>_. on_sync (drop_byte T))"

definition expect_disconnect :: "'t transport_ops \<Rightarrow> ('t mini_broker, unit) blocking" where
  "expect_disconnect T evs b =
     (case broker_recv T True evs b of
        (Finished (Inr IB_Disconnect), b, evs) \<Rightarrow>
          bl_bind (before_deadline (terminate_conn T)) (\<lambda>result.
            case result of
              Some (Inr True) \<Rightarrow> bl_return ()
            | Some (Inr False) \<Rightarrow> bl_fail (Panic ''Unexpected bytes after DISCONNECT packet.'')
            | Some (Inl err) \<Rightarrow>
                if io_kind err = UnexpectedEof then bl_return ()
                else bl_fail (Panic ''Error while waiting for the socket to close'')
            | None \<Rightarrow> bl_fail (Panic ''Timed out waiting for the socket to close'')) evs b
      | (Finished (Inr _), b, evs) \<Rightarrow> (Finished (Inl (Panic ''Expected a disconnect packet'')), b, evs)
      | (Finished (Inl (Err _)), b, evs) \<Rightarrow> (Finished (Inr ()), b, evs)
      | (Finished (Inl (Panic m)), b, evs) \<Rightarrow> (Finished (Inl (Panic m)), b, evs)
      | (Finished (Inl (UB m)), b, evs) \<Rightarrow> (Finished (Inl (UB m)), b, evs)
      | (Waiting, b, evs) \<Rightarrow> (Waiting, b, evs)
      | (Spinning, b, evs) \<Rightarrow> (Spinning, b, evs))"

definition mini_broker_drop :: "'t mini_broker \<Rightarrow> (io_error, unit) result" where
  "mini_broker_drop b =
     (if 0 < length (mb_pending b) then Inl (Panic ''unprocessed packet(s) on receive queue'') else Inr ())"

end
