(* ===== verification/Blocking.thy ===== *)
theory Blocking
  imports Mini_Broker
begin

unbundle bit_operations_syntax

text \<open>
  What the functions of the test broker's transport do: soundness on every transport, and
  that they return on a connection that stays up.
\<close>

section \<open>Connections that stay up\<close>

text \<open>
  A transport over such a connection: reading and writing make progress or would block, which
  happens only finitely often, and the other methods have nothing to do, as for TCP.
\<close>

locale responsive = delivering T inp out patience
  for T :: "'t transport_ops" and inp :: "'t \<Rightarrow> u8 list" and out :: "'t \<Rightarrow> u8 list"
    and patience :: "'t \<Rightarrow> nat" +
  assumes wants_hints: "t_wants T t r w = \<lparr>wants_read = r, wants_write = w\<rparr>"
    and quiet: "\<exists>b. t_pre_read T t = (Inr b, t)" "t_pre_write T t = (Inr (), t)" "t_flush T t = (Inr (), t)"
    and write_some: "t_write T src False t = (Inr k, t') \<Longrightarrow> src \<noteq> [] \<Longrightarrow> 0 < k \<and> patience t' \<le> patience t"
    and write_blocked: "t_write T src False t = (Inl f, t') \<Longrightarrow> f = Err would_block \<and> patience t' < patience t"

definition script_pauses :: "script \<Rightarrow> nat" where
  "script_pauses s = script_patience s + length (filter (\<lambda>w. w = None \<or> w = Some 0) (sc_writes s))"

lemma script_read_pauses:
  "script_read n s = (r, s') \<Longrightarrow>
   (case r of
      Inr bs \<Rightarrow> script_pauses s' \<le> script_pauses s \<and> (0 < n \<longrightarrow> script_inp s \<noteq> [] \<longrightarrow> bs \<noteq> [])
    | Inl f \<Rightarrow> f = Err would_block \<and> script_pauses s' < script_pauses s)"
  by (auto simp: script_read_def script_pauses_def script_patience_def script_inp_def
      split: list.splits option.splits if_splits)

lemma script_write_pauses:
  "script_write src s = (r, s') \<Longrightarrow>
   (case r of
      Inr k \<Rightarrow> script_pauses s' \<le> script_pauses s \<and> (src \<noteq> [] \<longrightarrow> 0 < k)
    | Inl f \<Rightarrow> f = Err would_block \<and> script_pauses s' < script_pauses s)"
  by (auto simp: script_write_def script_pauses_def script_patience_def
      split: list.splits option.splits if_splits)

interpretation scripted_broker: responsive "tcp_transport_ops script_tcp"
    "\<lambda>t. script_inp (tcp t)" "\<lambda>t. sc_out (tcp t)" "\<lambda>t. script_pauses (tcp t)"
proof unfold_locales
  let ?T = "tcp_transport_ops script_tcp"
  fix n :: nat and t t' :: "script tcp_transport" and bs src :: "u8 list" and f k
  { fix r assume "t_read ?T n t = (r, t')"
    then have "script_read n (tcp t) = (r, tcp t')"
      by (auto simp: tcp_transport_ops_def script_tcp_def act_zoom_def split: prod.splits)
    note script_read_pauses [OF this] }
  note rd = this
  show "bs \<noteq> []" if "t_read ?T n t = (Inr bs, t')" "0 < n" "script_inp (tcp t) \<noteq> []"
    using rd [OF that(1)] that(2,3) by simp
  show "script_pauses (tcp t') \<le> script_pauses (tcp t)" if "t_read ?T n t = (Inr bs, t')"
    using rd [OF that] by simp
  show "f = Err would_block \<and> script_pauses (tcp t') < script_pauses (tcp t)" if "t_read ?T n t = (Inl f, t')"
    using rd [OF that] by simp
  { fix r assume "t_write ?T src False t = (r, t')"
    then have "script_write src (tcp t) = (r, tcp t')"
      by (auto simp: tcp_transport_ops_def script_tcp_def tcp_write_def act_zoom_def split: prod.splits)
    note script_write_pauses [OF this] }
  note wr = this
  show "0 < k \<and> script_pauses (tcp t') \<le> script_pauses (tcp t)"
    if "t_write ?T src False t = (Inr k, t')" "src \<noteq> []"
    using wr [OF that(1)] that(2) by simp
  show "f = Err would_block \<and> script_pauses (tcp t') < script_pauses (tcp t)" if "t_write ?T src False t = (Inl f, t')"
    using wr [OF that] by simp
qed (auto simp: tcp_transport_ops_def act_return_def)

section \<open>Events without errors\<close>

definition calm :: "wait_event list \<Rightarrow> bool" where
  "calm evs = list_all (\<lambda>e. e = TimerTick \<or> e = Readable None \<or> e = Writable None) evs"

definition ticks :: "wait_event list \<Rightarrow> nat" where
  "ticks evs = length (filter (\<lambda>e. e = TimerTick) evs)"

lemma calm_no_deadline:
  assumes "calm evs"
  shows "takeWhile (\<lambda>e. e \<noteq> Deadline) evs = evs" "dropWhile (\<lambda>e. e \<noteq> Deadline) evs = []"
  using assms by (auto simp: calm_def list_all_iff)

text \<open>The bytes of one packet that the broker decodes to \<open>p\<close>.\<close>

definition broker_frame :: "u8 list \<Rightarrow> incoming_broker_packet \<Rightarrow> bool" where
  "broker_frame bs p =
     (case split_frame bs of
        Some (c, body, rest) \<Rightarrow> rest = [] \<and> length body \<le> 128000000 \<and>
          broker_from_bytes body (ControlField c) = Inr (p, [])
      | None \<Rightarrow> False)"

text \<open>One size byte, as \<open>read_size\<close> takes it into the size read so far.\<close>

lemma size_step:
  fixes sz :: usize and b :: u8
  assumes "1 \<le> i" and "i \<le> 4" and "unat sz < 2 ^ (7 * (i - 1))"
  shows "sz OR push_bit (7 * (i - 1)) (ucast (b AND 0x7F)) = of_nat (unat sz + 2 ^ (7 * (i - 1)) * unat (b AND 0x7F))"
    "unat (sz OR push_bit (7 * (i - 1)) (ucast (b AND 0x7F))) = unat sz + 2 ^ (7 * (i - 1)) * unat (b AND 0x7F)"
    "unat (sz OR push_bit (7 * (i - 1)) (ucast (b AND 0x7F))) < 2 ^ (7 * i)"
proof -
  let ?w = "ucast (b AND 0x7F) :: usize" and ?s = "7 * (i - 1)"
  have w: "unat ?w = unat (b AND 0x7F)"
    using unat_and_0x7f_less [of b] by (simp add: unsigned_ucast_eq take_bit_nat_eq_self)
  then show eq: "unat (sz OR push_bit ?s ?w) = unat sz + 2 ^ ?s * unat (b AND 0x7F)"
    using unat_or_push_bit [of sz ?s ?w] assms unat_and_0x7f_less [of b] by simp
  then show "sz OR push_bit ?s ?w = of_nat (unat sz + 2 ^ ?s * unat (b AND 0x7F))"
    by (metis of_nat_unat ucast_id)
  have "7 * i = ?s + 7" using assms(1) by simp
  then show "unat (sz OR push_bit ?s ?w) < 2 ^ (7 * i)"
    using eq digit_bound [OF assms(3) unat_and_0x7f_less [of b]] by (simp only: power_add) simp
qed

context responsive
begin

lemma select_calm:
  assumes "calm evs" and "0 < ticks evs"
  shows "\<exists>evs'. select_ready T wants evs t = (Finished (Inr ()), t, evs') \<and> calm evs' \<and> ticks evs \<le> ticks evs' + 1"
  using assms
proof (induction evs)
  case (Cons e evs)
  obtain b where b: "t_pre_read T t = (Inr b, t)" using quiet(1) by blast
  show ?case
  proof (cases e)
    case (Readable r)
    with Cons b show ?thesis
      by (cases "wants_read wants") (auto simp: calm_def ticks_def bl_bind_def bl_lift_def bl_return_def)
  next
    case (Writable r)
    with Cons quiet(2) show ?thesis
      by (cases "wants_write wants") (auto simp: calm_def ticks_def bl_lift_def)
  qed (use Cons in \<open>auto simp: calm_def ticks_def\<close>)
qed (simp add: ticks_def)

text \<open>
  \<open>m\<close> returns \<open>a\<close> when it is given enough ticks of the timer, having read \<open>rd\<close> and written \<open>wr\<close>,
  and uses at most \<open>k\<close> ticks, apart from those during which the transport blocks. The state it
  leaves satisfies \<open>Q\<close>.
\<close>

definition finishes ::
    "('s \<Rightarrow> 't) \<Rightarrow> ('s, 'a) blocking \<Rightarrow> 's \<Rightarrow> 'a \<Rightarrow> nat \<Rightarrow> u8 list \<Rightarrow> u8 list \<Rightarrow> ('s \<Rightarrow> bool) \<Rightarrow> bool" where
  "finishes tr m s a k rd wr Q \<longleftrightarrow>
     (\<forall>evs. calm evs \<and> k + patience (tr s) \<le> ticks evs \<longrightarrow>
        (\<exists>s' evs'. m evs s = (Finished (Inr a), s', evs') \<and> inp (tr s) = rd @ inp (tr s') \<and>
           out (tr s') = out (tr s) @ wr \<and> calm evs' \<and>
           ticks evs + patience (tr s') \<le> ticks evs' + k + patience (tr s) \<and> Q s'))"

lemma finishesI:
  assumes "\<And>evs. calm evs \<Longrightarrow> k + patience (tr s) \<le> ticks evs \<Longrightarrow>
     \<exists>s' evs'. m evs s = (Finished (Inr a), s', evs') \<and> inp (tr s) = rd @ inp (tr s') \<and>
       out (tr s') = out (tr s) @ wr \<and> calm evs' \<and>
       ticks evs + patience (tr s') \<le> ticks evs' + k + patience (tr s) \<and> Q s'"
  shows "finishes tr m s a k rd wr Q"
  using assms unfolding finishes_def by blast

lemma finishesE:
  assumes "finishes tr m s a k rd wr Q" and "calm evs" and "k + patience (tr s) \<le> ticks evs"
  obtains s' evs' where "m evs s = (Finished (Inr a), s', evs')" "inp (tr s) = rd @ inp (tr s')"
    "out (tr s') = out (tr s) @ wr" "calm evs'"
    "ticks evs + patience (tr s') \<le> ticks evs' + k + patience (tr s)" "Q s'"
  using assms unfolding finishes_def by blast

lemma finishes_return: "Q s \<Longrightarrow> finishes tr (bl_return a) s a 0 [] [] Q"
  by (auto simp: finishes_def bl_return_def)

lemma finishes_bind:
  assumes m: "finishes tr m s a k1 rd1 wr1 P"
    and f: "\<And>s'. P s' \<Longrightarrow> inp (tr s) = rd1 @ inp (tr s') \<Longrightarrow> finishes tr (f a) s' b k2 rd2 wr2 Q"
  shows "finishes tr (bl_bind m f) s b (k1 + k2) (rd1 @ rd2) (wr1 @ wr2) Q"
proof (rule finishesI)
  fix evs assume evs: "calm evs" "k1 + k2 + patience (tr s) \<le> ticks evs"
  then have "k1 + patience (tr s) \<le> ticks evs" by simp
  from finishesE [OF m evs(1) this] obtain s1 evs1 where 1: "m evs s = (Finished (Inr a), s1, evs1)"
    "inp (tr s) = rd1 @ inp (tr s1)" "out (tr s1) = out (tr s) @ wr1" "calm evs1"
    "ticks evs + patience (tr s1) \<le> ticks evs1 + k1 + patience (tr s)" "P s1" .
  then have "k2 + patience (tr s1) \<le> ticks evs1" using evs(2) by linarith
  from finishesE [OF f [OF 1(6,2)] 1(4) this] obtain s2 evs2 where
    2: "f a evs1 s1 = (Finished (Inr b), s2, evs2)"
    "inp (tr s1) = rd2 @ inp (tr s2)" "out (tr s2) = out (tr s1) @ wr2" "calm evs2"
    "ticks evs1 + patience (tr s2) \<le> ticks evs2 + k2 + patience (tr s1)" "Q s2" .
  have "bl_bind m f evs s = (Finished (Inr b), s2, evs2)" using 1 2 by (simp add: bl_bind_def)
  moreover have "inp (tr s) = (rd1 @ rd2) @ inp (tr s2)" "out (tr s2) = out (tr s) @ wr1 @ wr2"
    using 1 2 by simp_all
  moreover have "ticks evs + patience (tr s2) \<le> ticks evs2 + (k1 + k2) + patience (tr s)"
    using 1(5) 2(5) by linarith
  ultimately show "\<exists>s' evs'. bl_bind m f evs s = (Finished (Inr b), s', evs') \<and>
      inp (tr s) = (rd1 @ rd2) @ inp (tr s') \<and> out (tr s') = out (tr s) @ wr1 @ wr2 \<and> calm evs' \<and>
      ticks evs + patience (tr s') \<le> ticks evs' + (k1 + k2) + patience (tr s) \<and> Q s'"
    using 2(4,6) by blast
qed

lemma finishes_weaken:
  "finishes tr m s a k rd wr P \<Longrightarrow> (\<And>s'. P s' \<Longrightarrow> Q s') \<Longrightarrow> finishes tr m s a k rd wr Q"
  unfolding finishes_def by blast

section \<open>Reading\<close>

lemma read_loop_fully_finishes:
  "length dst < n \<Longrightarrow> n - length dst \<le> length (inp t) \<Longrightarrow>
   finishes (\<lambda>t. t) (read_loop_fully T n dst) t (dst @ take (n - length dst) (inp t)) (n - length dst)
     (take (n - length dst) (inp t)) [] (\<lambda>_. True)"
proof (rule finishesI)
  fix evs
  assume "length dst < n" "n - length dst \<le> length (inp t)" "calm evs"
    "n - length dst + patience t \<le> ticks evs"
  then show "\<exists>s' evs'. read_loop_fully T n dst evs t =
      (Finished (Inr (dst @ take (n - length dst) (inp t))), s', evs') \<and>
      inp t = take (n - length dst) (inp t) @ inp s' \<and> out s' = out t @ [] \<and>
      calm evs' \<and> ticks evs + patience s' \<le> ticks evs' + (n - length dst) + patience t \<and> True"
  proof (induction "n - length dst + patience t" arbitrary: dst evs t rule: less_induct)
    case less
    let ?k = "n - length dst"
    obtain r t1 where rd: "t_read T ?k t = (r, t1)" by fastforce
    have o: "out t1 = out t" using read_out rd by (rule keepsD)
    have "\<exists>bs. read_some T ?k t = (Inr bs, t1) \<and> length bs \<le> ?k \<and> inp t = bs @ inp t1 \<and>
        (?k - length bs) + patience t1 < ?k + patience t \<and> patience t1 \<le> patience t"
    proof (cases r)
      case (Inl f)
      with read_blocked [of ?k t f t1] rd read_err [of ?k t f t1] show ?thesis by (auto simp: read_some_def)
    next
      case (Inr bs)
      have "inp t \<noteq> []" "0 < ?k" using less.prems by auto
      with read_ok [of ?k t bs t1] read_some [of ?k t bs t1] read_patience [of ?k t bs t1] rd Inr
      have "length bs \<le> ?k" "inp t = bs @ inp t1" "0 < length bs" "patience t1 \<le> patience t" by auto
      moreover from this have "?k - length bs + patience t1 < ?k + patience t" by linarith
      ultimately show ?thesis using rd Inr by (auto simp: read_some_def)
    qed
    then obtain bs where bs: "read_some T ?k t = (Inr bs, t1)" "length bs \<le> ?k" "inp t = bs @ inp t1"
      "(?k - length bs) + patience t1 < ?k + patience t" "patience t1 \<le> patience t" by blast
    show ?case
    proof (cases "n \<le> length (dst @ bs)")
      case True
      with bs less.prems have "take ?k (inp t) = bs" by simp
      with True bs less.prems o show ?thesis
        by (simp add: read_loop_fully.simps Let_def)
    next
      case False
      have "0 < ticks evs" using less.prems by simp
      then obtain evs1 where s: "select_ready T (t_wants T t1 True False) evs t1 = (Finished (Inr ()), t1, evs1)"
        "calm evs1" "ticks evs \<le> ticks evs1 + 1"
        using select_calm [OF less.prems(3)] by blast
      have "n - length (dst @ bs) + patience t1 < n - length dst + patience t" "length (dst @ bs) < n"
        "n - length (dst @ bs) \<le> length (inp t1)" "n - length (dst @ bs) + patience t1 \<le> ticks evs1"
        using bs False less.prems s(3) by auto
      from less.hyps [OF this(1-3) s(2) this(4)] obtain s' evs' where
        "read_loop_fully T n (dst @ bs) evs1 t1 =
          (Finished (Inr ((dst @ bs) @ take (n - length (dst @ bs)) (inp t1))), s', evs')"
        "inp t1 = take (n - length (dst @ bs)) (inp t1) @ inp s'" "out s' = out t1" "calm evs'"
        "ticks evs1 + patience s' \<le> ticks evs' + (n - length (dst @ bs)) + patience t1"
        by auto
      moreover have "take ?k (inp t) = bs @ take (n - length (dst @ bs)) (inp t1)"
        using bs(2,3) by simp
      ultimately show ?thesis
        using bs s False o
        by (subst read_loop_fully.simps) (auto simp: wants_hints Let_def)
    qed
  qed
qed

lemma read_fully_finishes:
  "n \<le> length (inp t) \<Longrightarrow>
   finishes (\<lambda>t. t) (read_fully T n) t (take n (inp t)) n (take n (inp t)) [] (\<lambda>_. True)"
  using read_loop_fully_finishes [of "[]" n t] finishes_return [of "\<lambda>_. True" t "\<lambda>t. t" "[]"]
  by (auto simp: read_fully_def)

lemma read_size_finishes:
  "1 \<le> i \<Longrightarrow> i \<le> 4 \<Longrightarrow> unat sz < 2 ^ (7 * (i - 1)) \<Longrightarrow>
   scan_size (b # take (4 - i) (inp t)) = Some (v, Suc k) \<Longrightarrow>
   finishes (\<lambda>t. t) (read_size T i sz (7 * (i - 1)) b) t (of_nat (unat sz + 2 ^ (7 * (i - 1)) * v)) k
     (take k (inp t)) [] (\<lambda>_. True)"
proof (induction "4 - i" arbitrary: i sz b t v k)
  case 0
  note s = size_step [OF 0(2-4), of b]
  from 0 have b: "b AND 0x80 = 0" "v = unat (b AND 0x7F)" "k = 0" by (auto split: if_splits)
  show ?case
    using finishes_return [of "\<lambda>_. True" t "\<lambda>t. t"] s(1) b
    by (simp add: read_size.simps Let_def)
next
  case (Suc n)
  note s = size_step [OF Suc(3-5), of b]
  show ?case
  proof (cases "b AND 0x80 = 0")
    case True
    with Suc.prems(4) have "v = unat (b AND 0x7F)" "k = 0" by auto
    with True show ?thesis
      using finishes_return [of "\<lambda>_. True" t "\<lambda>t. t"] s(1) by (simp add: read_size.simps Let_def)
  next
    case False
    from Suc.prems(4) False obtain v' where v': "scan_size (take (4 - i) (inp t)) = Some (v', k)"
      and v: "v = unat (b AND 0x7F) + 128 * v'" by (auto split: option.splits)
    then obtain k' where k: "k = Suc k'" using scan_size_bounds [OF v'] by (cases k) auto
    obtain b' bs where inp: "inp t = b' # bs" using v' by (cases "inp t") auto
    have i: "i < 4" using Suc.hyps(2) Suc.prems(2) by simp
    let ?sz = "sz OR push_bit (7 * (i - 1)) (ucast (b AND 0x7F)) :: usize"
    have "finishes (\<lambda>t. t) (read_size T (i + 1) ?sz (7 * i) b') t1
        (of_nat (unat sz + 2 ^ (7 * (i - 1)) * v)) k' (take k' bs) [] (\<lambda>_. True)"
      if "inp t1 = bs" for t1
    proof -
      have "scan_size (b' # take (4 - (i + 1)) (inp t1)) = Some (v', Suc k')"
        using v' inp that k i by (simp add: take_Cons' split: if_splits)
      moreover have "unat ?sz + 2 ^ (7 * i) * v' = unat sz + 2 ^ (7 * (i - 1)) * v"
        using s(2) v Suc.prems(1) by (cases i) (simp_all add: power_add algebra_simps)
      ultimately show ?thesis
        using Suc.hyps(1) [of "i + 1" ?sz b' t1 v' k'] Suc.hyps(2) i s(3) that by simp
    qed
    moreover have "7 * (i - 1) + 7 = 7 * i" using Suc.prems(1) by simp
    ultimately have "finishes (\<lambda>t. t) (bl_bind (read_fully T 1) (\<lambda>dst.
          case dst of
            [b] \<Rightarrow> read_size T (i + 1) ?sz (7 * (i - 1) + 7) b
          | _ \<Rightarrow> bl_fail (Panic ''index out of bounds''))) t
        (of_nat (unat sz + 2 ^ (7 * (i - 1)) * v)) (1 + k') ([b'] @ take k' bs) ([] @ []) (\<lambda>_. True)"
      using read_fully_finishes [of 1 t] inp
      by (intro finishes_bind [where P = "\<lambda>_. True" and a = "[b']"]) simp_all
    moreover have "k = 1 + k'" "take (1 + k') (inp t) = [b'] @ take k' bs" using inp k by simp_all
    ultimately show ?thesis using False i by (subst read_size.simps) (simp add: Let_def del: One_nat_def)
  qed
qed

lemma read_packet_finishes:
  assumes "split_frame (inp t) = Some (c, body, rest)" and "length body \<le> 128000000"
  shows "finishes (\<lambda>t. t) (read_packet T) t (c # body) (length (inp t) - length rest)
    (take (length (inp t) - length rest) (inp t)) [] (\<lambda>t'. inp t' = rest)"
proof -
  from assms(1) obtain r0 v k where t: "inp t = c # r0" and sc: "scan_size (take 4 r0) = Some (v, k)"
    and len: "k + v \<le> length r0" and parts: "body = take v (drop k r0)" "rest = drop (k + v) r0"
    by (auto simp: split_frame_def split: list.splits option.splits if_splits)
  obtain b r1 where r0: "r0 = b # r1" using sc by (cases r0) auto
  obtain k' where k: "k = Suc k'" using scan_size_bounds [OF sc] by (cases k) auto
  have v: "v \<le> 128000000" using assms(2) parts len by simp
  then have uv: "unat (of_nat v :: usize) = v" by (intro unat_of_nat_less) simp
  have "finishes (\<lambda>t. t) (read_size T 1 0 0 b) t1 (of_nat v) k' (take k' r1) [] (\<lambda>_. True)" if "inp t1 = r1" for t1
    using read_size_finishes [of 1 0 b t1 v k'] sc r0 k that by simp
  moreover have "finishes (\<lambda>t. t) (bl_bind (read_fully T v) (\<lambda>body. bl_return (c # body))) t2 (c # body)
      (v + 0) (body @ []) ([] @ []) (\<lambda>_. True)" if "inp t2 = drop k' r1" for t2
    using read_fully_finishes [of v t2] that parts r0 k len
    by (intro finishes_bind [where P = "\<lambda>_. True" and a = body] finishes_return) simp_all
  ultimately have "finishes (\<lambda>t. t) (bl_bind (read_size T 1 0 0 b) (\<lambda>sz.
        if 128000000 < sz then bl_fail (Err invalid_size)
        else bl_bind (read_fully T (unat sz)) (\<lambda>body. bl_return (c # body)))) t1 (c # body)
      (k' + (v + 0)) (take k' r1 @ body @ []) ([] @ [] @ []) (\<lambda>_. True)" if "inp t1 = r1" for t1
    using that uv v
    by (intro finishes_bind [where P = "\<lambda>_. True" and a = "of_nat v"])
      (simp_all add: word_less_nat_alt, metis append_eq_conv_conj append_take_drop_id)
  then have "finishes (\<lambda>t. t) (read_packet T) t (c # body) (2 + (k' + (v + 0)))
      ([c, b] @ take k' r1 @ body @ []) ([] @ [] @ [] @ []) (\<lambda>_. True)"
    unfolding read_packet_def
    using read_fully_finishes [of 2 t] t r0
    by (intro finishes_bind [where P = "\<lambda>_. True" and a = "[c, b]"]) simp_all
  moreover have "length (inp t) - length rest = 2 + (k' + v)"
    "take (2 + (k' + v)) (inp t) = [c, b] @ take k' r1 @ body" "drop (2 + (k' + v)) (inp t) = rest"
    using t r0 k len parts by (auto simp: take_add add.commute)
  ultimately show ?thesis
    unfolding finishes_def by (metis (no_types, lifting) append_Nil append_Nil2 append_eq_conv_conj append_take_drop_id add_0_right)
qed

section \<open>Writing\<close>

lemma write_fully_finishes:
  "finishes (\<lambda>t. t) (write_fully T data) t () (length data) [] data (\<lambda>t'. inp t' = inp t)"
proof (rule finishesI)
  fix evs assume "calm evs" "length data + patience t \<le> ticks evs"
  then show "\<exists>s' evs'. write_fully T data evs t = (Finished (Inr ()), s', evs') \<and>
      inp t = [] @ inp s' \<and> out s' = out t @ data \<and> calm evs' \<and>
      ticks evs + patience s' \<le> ticks evs' + length data + patience t \<and> inp s' = inp t"
  proof (induction "length data + patience t" arbitrary: data evs t rule: less_induct)
    case less
    show ?case
    proof (cases "data = []")
      case True
      with less.prems quiet(3) show ?thesis
        by (simp add: write_fully.simps write_some_def act_bind_def act_return_def wants_hints Let_def)
    next
      case False
      obtain r t1 where w: "t_write T data False t = (r, t1)" by fastforce
      have i: "inp t1 = inp t" using write_inp w by (rule keepsD)
      have "\<exists>k. write_some T data t = (Inr k, t1) \<and> k \<le> length data \<and> out t1 = out t @ take k data \<and>
          length (drop k data) + patience t1 < length data + patience t \<and> patience t1 \<le> patience t"
      proof (cases r)
        case (Inl f)
        with write_blocked [of data t f t1] write_err [of data False t f t1] w False show ?thesis
          by (auto simp: write_some_def)
      next
        case (Inr k)
        with write_ok [of data False t k t1] write_some [of data t k t1] w False
        have "k \<le> length data" "out t1 = out t @ take k data" "0 < k" "patience t1 \<le> patience t" by auto
        moreover from this have "length (drop k data) + patience t1 < length data + patience t" by simp
        ultimately show ?thesis using w Inr False by (auto simp: write_some_def)
      qed
      then obtain k where k: "write_some T data t = (Inr k, t1)" "k \<le> length data" "out t1 = out t @ take k data"
        "length (drop k data) + patience t1 < length data + patience t" "patience t1 \<le> patience t" by blast
      show ?thesis
      proof (cases "length data \<le> k")
        case True
        with k i less.prems quiet(3) show ?thesis
          by (subst write_fully.simps) (simp add: act_bind_def act_return_def wants_hints Let_def)
      next
        case nd: False
        have "0 < ticks evs" using less.prems False by (cases data) auto
        then obtain evs1 where s: "select_ready T \<lparr>wants_read = False, wants_write = True\<rparr> evs t1 =
            (Finished (Inr ()), t1, evs1)" "calm evs1" "ticks evs \<le> ticks evs1 + 1"
          using select_calm [OF less.prems(1)] by blast
        have "length (drop k data) + patience t1 \<le> ticks evs1" using k(4) less.prems(2) s(3) by linarith
        from less.hyps [OF k(4) s(2) this] obtain s' evs' where
          "write_fully T (drop k data) evs1 t1 = (Finished (Inr ()), s', evs')" "inp s' = inp t1"
          "out s' = out t1 @ drop k data" "calm evs'"
          "ticks evs1 + patience s' \<le> ticks evs' + length (drop k data) + patience t1" by auto
        with k i s nd show ?thesis
          by (subst write_fully.simps) (auto simp: act_bind_def act_return_def wants_hints Let_def)
      qed
    qed
  qed
qed

section \<open>The broker\<close>

lemma on_sync_finishes:
  assumes "finishes (\<lambda>t. t) m (mb_transport b) a k rd wr Q"
  shows "finishes mb_transport (on_sync m) b a k rd wr (\<lambda>b'. mb_pending b' = mb_pending b \<and> Q (mb_transport b'))"
proof (rule finishesI)
  fix evs assume "calm evs" "k + patience (mb_transport b) \<le> ticks evs"
  with assms obtain t' evs' where "m evs (mb_transport b) = (Finished (Inr a), t', evs')"
    "inp (mb_transport b) = rd @ inp t'" "out t' = out (mb_transport b) @ wr" "calm evs'"
    "ticks evs + patience t' \<le> ticks evs' + k + patience (mb_transport b)" "Q t'"
    unfolding finishes_def by blast
  then show "\<exists>s' evs'. on_sync m evs b = (Finished (Inr a), s', evs') \<and>
      inp (mb_transport b) = rd @ inp (mb_transport s') \<and> out (mb_transport s') = out (mb_transport b) @ wr \<and>
      calm evs' \<and> ticks evs + patience (mb_transport s') \<le> ticks evs' + k + patience (mb_transport b) \<and>
      mb_pending s' = mb_pending b \<and> Q (mb_transport s')"
    by (simp add: on_sync_def)
qed

lemma finishes_result: "finishes tr (bl_result (Inr a)) s a 0 [] [] (\<lambda>s'. s' = s)"
  by (auto simp: finishes_def bl_result_def)

lemma finishes_assert: "c \<Longrightarrow> finishes tr (bl_assert c msg) s () 0 [] [] (\<lambda>s'. s' = s)"
  by (simp add: bl_assert_def finishes_return)

lemma broker_send_finishes:
  assumes "make_packet P pkt = Inr bs"
  shows "finishes mb_transport (broker_send T P pkt) b () (length bs) [] bs (\<lambda>b'. mb_pending b' = mb_pending b)"
proof -
  have "finishes mb_transport (broker_send T P pkt) b () (0 + length bs) ([] @ []) ([] @ bs)
      (\<lambda>b'. mb_pending b' = mb_pending b \<and> inp (mb_transport b') = inp (mb_transport b))"
    unfolding broker_send_def assms
    by (rule finishes_bind [OF finishes_result]) (auto intro: on_sync_finishes write_fully_finishes)
  then show ?thesis by (auto elim: finishes_weaken)
qed

lemma broker_recv_finishes:
  assumes "broker_frame bs p" and "inp (mb_transport b) = bs @ rest" and "u \<Longrightarrow> mb_pending b = []"
  shows "finishes mb_transport (broker_recv T u) b p (length bs) bs [] (\<lambda>b'. mb_pending b' = mb_pending b)"
proof -
  from assms(1) obtain c body where f: "split_frame bs = Some (c, body, [])" "length body \<le> 128000000"
    and d: "broker_from_bytes body (ControlField c) = Inr (p, [])"
    by (auto simp: broker_frame_def split: option.splits prod.splits)
  have "split_frame (inp (mb_transport b)) = Some (c, body, rest)"
    using split_frame_append [OF f(1)] assms(2) by simp
  from on_sync_finishes [OF read_packet_finishes [OF this f(2)]]
  have r: "finishes mb_transport (on_sync (read_packet T)) b (c # body) (length bs) bs []
      (\<lambda>b'. mb_pending b' = mb_pending b)"
    using assms(2) by (auto elim: finishes_weaken)
  have "finishes mb_transport (decode_whole (broker_from_bytes (reader_new body) (ControlField c))) b' p
      0 [] [] Q" if "Q b'" for b' Q
    using d that
    by (simp add: decode_whole_def reader_new_def remaining_def bl_assert_def bl_bind_def finishes_def bl_return_def)
  then have "finishes mb_transport (bl_bind (on_sync (read_packet T)) (\<lambda>data.
            case data of
              [] \<Rightarrow> bl_fail (Panic ''range start index out of range'')
            | c # body \<Rightarrow> decode_whole (broker_from_bytes (reader_new body) (ControlField c)))) b p
      (length bs + 0) (bs @ []) ([] @ []) (\<lambda>b'. mb_pending b' = mb_pending b)"
    by (intro finishes_bind [OF r]) simp
  moreover have "broker_recv T u evs b = bl_bind (on_sync (read_packet T)) (\<lambda>data.
            case data of
              [] \<Rightarrow> bl_fail (Panic ''range start index out of range'')
            | c # body \<Rightarrow> decode_whole (broker_from_bytes (reader_new body) (ControlField c))) evs b" for evs
    using assms(3) by (simp add: broker_recv_def)
  ultimately show ?thesis by (simp add: finishes_def)
qed

lemma expect_finishes:
  assumes "broker_frame bs p" and "inp (mb_transport b) = bs @ rest" and "mb_pending b = []" and "kind p = Some a"
  shows "finishes mb_transport (expect T kind) b a (length bs) bs [] (\<lambda>b'. mb_pending b' = [])"
proof -
  have "finishes mb_transport (expect T kind) b a (length bs + 0) (bs @ []) ([] @ []) (\<lambda>b'. mb_pending b' = [])"
    unfolding expect_def
    by (rule finishes_bind [OF broker_recv_finishes [OF assms(1,2)]])
      (use assms(3,4) in \<open>auto intro: finishes_return\<close>)
  then show ?thesis by simp
qed

lemma enqueue_loop_finishes:
  assumes "list_all2 broker_frame bss ps" and "\<forall>p \<in> set ps. kind p = None"
    and "broker_frame bs p" and "kind p = Some a" and "inp (mb_transport b) = concat bss @ bs @ rest"
  shows "finishes mb_transport (\<lambda>evs b. case enqueue_loop T kind evs b of None \<Rightarrow> (Spinning, b, evs) | Some x \<Rightarrow> x)
    b a (length (concat bss @ bs)) (concat bss @ bs) [] (\<lambda>b'. mb_pending b' = mb_pending b @ ps)"
  using assms(1,2,5)
proof (induction arbitrary: b rule: list_all2_induct)
  case Nil
  have "finishes mb_transport (broker_recv T False) b p (length bs) bs [] (\<lambda>b'. mb_pending b' = mb_pending b)"
    using broker_recv_finishes [OF assms(3), of b rest False] Nil by simp
  then show ?case
    unfolding finishes_def using assms(4)
    by (subst enqueue_loop.simps) fastforce
next
  case (Cons bs1 bss p1 ps)
  let ?L = "\<lambda>evs b. case enqueue_loop T kind evs b of None \<Rightarrow> (Spinning, b, evs) | Some x \<Rightarrow> x"
  have r: "finishes mb_transport (broker_recv T False) b p1 (length bs1) bs1 []
      (\<lambda>b'. mb_pending b' = mb_pending b)"
    by (rule broker_recv_finishes [OF Cons.hyps(1)]) (use Cons.prems in auto)
  have k: "kind p1 = None" using Cons.prems(1) by simp
  show ?case
  proof (rule finishesI)
    fix evs assume evs: "calm evs" "length (concat (bs1 # bss) @ bs) + patience (mb_transport b) \<le> ticks evs"
    then have "length bs1 + patience (mb_transport b) \<le> ticks evs" by simp
    from finishesE [OF r evs(1) this] obtain b1 evs1 where
      1: "broker_recv T False evs b = (Finished (Inr p1), b1, evs1)"
      "inp (mb_transport b) = bs1 @ inp (mb_transport b1)" "out (mb_transport b1) = out (mb_transport b)"
      "calm evs1" "ticks evs + patience (mb_transport b1) \<le> ticks evs1 + length bs1 + patience (mb_transport b)"
      "mb_pending b1 = mb_pending b"
      by auto
    let ?b = "b1\<lparr>mb_pending := mb_pending b1 @ [p1]\<rparr>"
    have "inp (mb_transport ?b) = concat bss @ bs @ rest" using 1(2) Cons.prems(2) by simp
    with Cons.IH [of ?b] Cons.prems(1)
    have l: "finishes mb_transport ?L ?b a (length (concat bss @ bs)) (concat bss @ bs) []
        (\<lambda>b'. mb_pending b' = mb_pending ?b @ ps)" by simp
    have "length (concat bss @ bs) + patience (mb_transport ?b) \<le> ticks evs1"
      using evs(2) 1(5) by simp
    from finishesE [OF l 1(4) this] obtain b2 evs2 where 2: "?L evs1 ?b = (Finished (Inr a), b2, evs2)"
      "inp (mb_transport ?b) = (concat bss @ bs) @ inp (mb_transport b2)"
      "out (mb_transport b2) = out (mb_transport ?b)" "calm evs2"
      "ticks evs1 + patience (mb_transport b2) \<le> ticks evs2 + length (concat bss @ bs) + patience (mb_transport ?b)"
      "mb_pending b2 = mb_pending ?b @ ps"
      by auto
    have "?L evs b = (Finished (Inr a), b2, evs2)"
      using 1(1) 2(1) k by (subst enqueue_loop.simps) (auto split: option.splits)
    with 1 2 show "\<exists>s' evs'. ?L evs b = (Finished (Inr a), s', evs') \<and>
        inp (mb_transport b) = (concat (bs1 # bss) @ bs) @ inp (mb_transport s') \<and>
        out (mb_transport s') = out (mb_transport b) @ [] \<and> calm evs' \<and>
        ticks evs + patience (mb_transport s') \<le>
          ticks evs' + length (concat (bs1 # bss) @ bs) + patience (mb_transport b) \<and>
        mb_pending s' = mb_pending b @ p1 # ps"
      by simp
  qed
qed

lemma before_deadline_finishes:
  "finishes tr m s a k rd wr Q \<Longrightarrow> finishes tr (before_deadline m) s (Some (Inr a)) k rd wr Q"
  unfolding finishes_def before_deadline_def by (fastforce simp: calm_no_deadline Let_def)

lemma expect_or_enqueue_finishes:
  assumes "list_all2 broker_frame bss ps" and "\<forall>p \<in> set ps. kind p = None"
    and "broker_frame bs p" and "kind p = Some a" and "inp (mb_transport b) = concat bss @ bs @ rest"
  shows "finishes mb_transport (expect_or_enqueue T kind) b a (length (concat bss @ bs)) (concat bss @ bs) []
    (\<lambda>b'. mb_pending b' = mb_pending b @ ps)"
proof -
  note e = before_deadline_finishes [OF enqueue_loop_finishes [OF assms]]
  have "finishes mb_transport (expect_or_enqueue T kind) b a (length (concat bss @ bs) + 0)
      ((concat bss @ bs) @ []) ([] @ []) (\<lambda>b'. mb_pending b' = mb_pending b @ ps)"
    unfolding expect_or_enqueue_def by (rule finishes_bind [OF e]) (simp add: finishes_return)
  then show ?thesis by simp
qed

end

section \<open>Soundness of reading\<close>

context transport_contract
begin

text \<open>\<open>m\<close> writes nothing, and if it returns then \<open>P\<close> relates the result to the bytes it has read.\<close>

definition reads :: "('t, 'a) blocking \<Rightarrow> ('a \<Rightarrow> u8 list \<Rightarrow> bool) \<Rightarrow> bool" where
  "reads m P \<longleftrightarrow>
     (\<forall>evs t a t' evs'. m evs t = (Finished (Inr a), t', evs') \<longrightarrow>
        (\<exists>rd. inp t = rd @ inp t' \<and> out t' = out t \<and> P a rd))"

lemma readsD:
  assumes "reads m P" and "m evs t = (Finished (Inr a), t', evs')"
  obtains rd where "inp t = rd @ inp t'" "out t' = out t" "P a rd"
  using assms unfolding reads_def by blast

lemma reads_weaken: "reads m P \<Longrightarrow> (\<And>a rd. P a rd \<Longrightarrow> Q a rd) \<Longrightarrow> reads m Q"
  unfolding reads_def by blast

lemma reads_return: "P a [] \<Longrightarrow> reads (bl_return a) P"
  by (simp add: reads_def bl_return_def)

lemma reads_fail: "reads (bl_fail f) P"
  by (simp add: reads_def bl_fail_def)

lemma reads_bind:
  assumes "reads m P" and "\<And>a rd. P a rd \<Longrightarrow> reads (f a) (\<lambda>b rd'. Q b (rd @ rd'))"
  shows "reads (bl_bind m f) Q"
  unfolding reads_def
proof (intro allI impI)
  fix evs t b t' evs'
  assume "bl_bind m f evs t = (Finished (Inr b), t', evs')"
  then obtain a t1 evs1 where m: "m evs t = (Finished (Inr a), t1, evs1)"
    and f: "f a evs1 t1 = (Finished (Inr b), t', evs')"
    by (auto simp: bl_bind_def split: prod.splits progress.splits sum.splits)
  obtain rd1 where 1: "inp t = rd1 @ inp t1" "out t1 = out t" "P a rd1"
    using readsD [OF assms(1) m] .
  obtain rd2 where "inp t1 = rd2 @ inp t'" "out t' = out t1" "Q b (rd1 @ rd2)"
    using readsD [OF assms(2) [OF 1(3)] f] .
  with 1 show "\<exists>rd. inp t = rd @ inp t' \<and> out t' = out t \<and> Q b rd" by (intro exI [of _ "rd1 @ rd2"]) simp
qed

lemma pre_keeps:
  "t_pre_read T t = (r, t') \<Longrightarrow> inp t' = inp t \<and> out t' = out t"
  "t_pre_write T t = (r', t') \<Longrightarrow> inp t' = inp t \<and> out t' = out t"
  using others_keep(1-4) by (metis keepsD)+

lemma select_ready_keeps:
  "select_ready T wants evs t = (Finished (Inr u), t', evs') \<Longrightarrow> inp t' = inp t \<and> out t' = out t"
proof (induction evs)
  case (Cons e evs)
  then show ?case
    by (cases e)
      (auto simp: bl_bind_def bl_lift_def bl_return_def dest!: pre_keeps
        split: if_splits option.splits prod.splits sum.splits)
qed simp

lemma read_some_ok:
  "read_some T n t = (Inr bs, t') \<Longrightarrow> length bs \<le> n \<and> inp t = bs @ inp t' \<and> out t' = out t"
  using read_ok [of n t] read_err [of n t] keepsD [OF read_out, of n t]
  by (auto simp: read_some_def split: prod.splits sum.splits fault.splits if_splits)

lemma read_loop_fully_reads:
  "length dst < n \<Longrightarrow> read_loop_fully T n dst evs t = (Finished (Inr bs), t', evs') \<Longrightarrow>
   \<exists>rd. inp t = rd @ inp t' \<and> out t' = out t \<and> bs = dst @ rd \<and> length bs = n"
proof (induction "length evs" arbitrary: dst evs t rule: less_induct)
  case less
  obtain r t1 where r: "read_some T (n - length dst) t = (r, t1)" by fastforce
  with less.prems(2) obtain x where x: "r = Inr x" by (subst (asm) read_loop_fully.simps) (cases r; auto)
  note ok = read_some_ok [OF r [unfolded x]]
  show ?case
  proof (cases "n \<le> length (dst @ x)")
    case True
    with less.prems r x ok show ?thesis by (subst (asm) read_loop_fully.simps) (auto simp: Let_def)
  next
    case False
    with less.prems(2) r x obtain t2 evs2 where
      s: "select_ready T (t_wants T t1 True False) evs t1 = (Finished (Inr ()), t2, evs2)"
      and l: "read_loop_fully T n (dst @ x) evs2 t2 = (Finished (Inr bs), t', evs')"
      by (subst (asm) read_loop_fully.simps) (auto simp: Let_def split: if_splits prod.splits progress.splits sum.splits)
    from less.hyps [OF select_ready_shorter [OF s] _ l] False obtain rd where
      "inp t2 = rd @ inp t'" "out t' = out t2" "bs = (dst @ x) @ rd" "length bs = n" by auto
    with ok select_ready_keeps [OF s] show ?thesis by (intro exI [of _ "x @ rd"]) simp
  qed
qed

lemma read_fully_reads: "reads (read_fully T n) (\<lambda>bs rd. bs = rd \<and> length rd = n)"
proof (cases "n \<le> 0")
  case False
  then show ?thesis using read_loop_fully_reads [of "[]" n] by (auto simp: read_fully_def reads_def)
qed (simp add: read_fully_def reads_return)

lemma read_size_reads:
  "1 \<le> i \<Longrightarrow> i \<le> 4 \<Longrightarrow> unat sz < 2 ^ (7 * (i - 1)) \<Longrightarrow>
   reads (read_size T i sz (7 * (i - 1)) b) (\<lambda>sz' rd. length rd \<le> 4 - i \<and>
     (\<exists>v. scan_size (b # rd) = Some (v, Suc (length rd)) \<and> sz' = of_nat (unat sz + 2 ^ (7 * (i - 1)) * v)))"
proof (induction "4 - i" arbitrary: i sz b)
  case 0
  note s = size_step [OF 0(2-4), of b]
  have "4 \<le> i" using 0 by simp
  then show ?case
    using s(1) by (subst read_size.simps) (auto simp: Let_def intro!: reads_return reads_fail)
next
  case (Suc n)
  note s = size_step [OF Suc(3-5), of b]
  let ?sz = "sz OR push_bit (7 * (i - 1)) (ucast (b AND 0x7F)) :: usize"
  have i: "i < 4" "7 * (i - 1) + 7 = 7 * (i + 1 - 1)" using Suc.hyps(2) Suc.prems(1) by simp_all
  have "reads (read_size T (i + 1) ?sz (7 * (i - 1) + 7) b') (\<lambda>sz' rd. length (b' # rd) \<le> 4 - i \<and>
     (\<exists>v. scan_size (b # b' # rd) = Some (v, Suc (length (b' # rd))) \<and>
       sz' = of_nat (unat sz + 2 ^ (7 * (i - 1)) * v)))" if "b AND 0x80 \<noteq> 0" for b'
  proof -
    have "n = 4 - (i + 1)" "1 \<le> i + 1" "i + 1 \<le> 4" "unat ?sz < 2 ^ (7 * (i + 1 - 1))"
      using Suc.hyps(2) i s(3) by simp_all
    note h = Suc.hyps(1) [OF this, of b']
    have "unat ?sz + 2 ^ (7 * (i + 1 - 1)) * v = unat sz + 2 ^ (7 * (i - 1)) * (unat (b AND 0x7F) + 128 * v)" for v
      using s(2) Suc.prems(1) by (cases i) (simp_all add: power_add algebra_simps)
    with i(1) that show ?thesis
      unfolding i(2) by (intro reads_weaken [OF h]) (auto simp del: unat_of_nat)
  qed
  then have "reads (bl_bind (read_fully T 1) (\<lambda>dst.
          case dst of
            [b] \<Rightarrow> read_size T (i + 1) ?sz (7 * (i - 1) + 7) b
          | _ \<Rightarrow> bl_fail (Panic ''index out of bounds'')))
      (\<lambda>sz' rd. length rd \<le> 4 - i \<and>
        (\<exists>v. scan_size (b # rd) = Some (v, Suc (length rd)) \<and> sz' = of_nat (unat sz + 2 ^ (7 * (i - 1)) * v)))"
    if "b AND 0x80 \<noteq> 0"
    using that by (intro reads_bind [OF read_fully_reads]) (auto simp: length_Suc_conv)
  note more = this
  show ?case
  proof (cases "b AND 0x80 = 0")
    case True
    with s(1) show ?thesis by (subst read_size.simps) (simp add: Let_def reads_return)
  next
    case False
    have "\<not> 4 \<le> i" using i(1) by simp
    with False more [OF False] show ?thesis by (subst read_size.simps) (simp only: Let_def if_False)
  qed
qed

lemma read_packet_reads:
  "reads (read_packet T) (\<lambda>data rd. \<exists>c body. data = c # body \<and> split_frame rd = Some (c, body, []))"
  unfolding read_packet_def
proof (rule reads_bind [OF read_fully_reads])
  fix header rd :: "u8 list"
  assume "header = rd \<and> length rd = 2"
  then obtain c b where h: "header = [c, b]" "rd = [c, b]" by (auto simp: length_Suc_conv numeral_2_eq_2)
  have z: "reads (read_size T 1 0 0 b) (\<lambda>sz' rd. length rd \<le> 3 \<and>
      (\<exists>v. scan_size (b # rd) = Some (v, Suc (length rd)) \<and> sz' = of_nat v))"
    using read_size_reads [of 1 0 b] by simp
  have "reads (bl_bind (read_size T 1 0 0 b) (\<lambda>sz.
        if 128000000 < sz then bl_fail (Err invalid_size)
        else bl_bind (read_fully T (unat sz)) (\<lambda>body. bl_return (c # body))))
      (\<lambda>data rd'. \<exists>c body. data = c # body \<and> split_frame (rd @ rd') = Some (c, body, []))"
  proof (rule reads_bind [OF z])
    fix sz :: usize and rs :: "u8 list"
    assume "length rs \<le> 3 \<and> (\<exists>v. scan_size (b # rs) = Some (v, Suc (length rs)) \<and> sz = of_nat v)"
    then obtain v where rs: "length rs \<le> 3" "scan_size (b # rs) = Some (v, Suc (length rs))" "sz = of_nat v" by blast
    have "v < 128 ^ 4"
    proof -
      have "v < 128 ^ Suc (length rs)" using scan_size_bounds [OF rs(2)] by simp
      also have "\<dots> \<le> 128 ^ 4" using rs(1) by (intro power_increasing) auto
      finally show ?thesis .
    qed
    then have v: "unat sz = v" using rs(3) by (simp add: unat_of_nat_less)
    have "split_frame ([c, b] @ rs @ body) = Some (c, body, [])" if "length body = v" for body
      using scan_size_append [OF rs(2), of "take (3 - length rs) body"] rs(1) that
      by (simp add: split_frame_def)
    then show "reads (if 128000000 < sz then bl_fail (Err invalid_size)
        else bl_bind (read_fully T (unat sz)) (\<lambda>body. bl_return (c # body)))
        (\<lambda>data rd'. \<exists>c body. data = c # body \<and> split_frame (rd @ rs @ rd') = Some (c, body, []))"
      using h v by (auto intro!: reads_fail reads_bind [OF read_fully_reads] reads_return)
  qed
  then show "reads (case header of
         [c, b] \<Rightarrow>
           bl_bind (read_size T 1 0 0 b) (\<lambda>sz.
           if 128000000 < sz then bl_fail (Err invalid_size)
           else bl_bind (read_fully T (unat sz)) (\<lambda>body. bl_return (c # body)))
       | _ \<Rightarrow> bl_fail (Panic ''index out of bounds''))
      (\<lambda>data rd'. \<exists>c body. data = c # body \<and> split_frame (rd @ rd') = Some (c, body, []))"
    using h by simp
qed

end

end
