(* ===== verification/Broker_Properties.thy ===== *)
theory Broker_Properties
  imports Blocking Client_Properties
begin

text \<open>
  The client and the test broker together: both cut a stream into the same packets, and a
  message with quality of service 2 goes through all its stages.
\<close>

section \<open>Framing\<close>


text \<open>A connection on which \<open>rds\<close> arrives, in pieces, and that accepts one byte at first.\<close>

definition broker_link :: "u8 list option list \<Rightarrow> script tcp_transport" where
  "broker_link rds = tcp_transport_new \<lparr>sc_reads = rds, sc_writes = [Some 1], sc_out = []\<rparr>"


section \<open>Answers\<close>

context responsive
begin

lemma expected_finishes:
  fixes b :: "'t mini_broker"
  assumes "list_all2 broker_frame bss ps" and "\<forall>p \<in> set ps. kind p = None"
    and "broker_frame bs p" and "kind p = Some r" and "inp (mb_transport b) = concat bss @ bs @ rest" and "ok r"
    and k: "\<And>b'. mb_pending b' = mb_pending b @ ps \<Longrightarrow> inp (mb_transport b') = rest \<Longrightarrow>
      finishes mb_transport k b' a n rd wr Q"
  shows "finishes mb_transport
    (bl_bind (expect_or_enqueue T kind) (\<lambda>r. bl_bind (bl_assert (ok r) msg) (\<lambda>_. k))) b a
    (length (concat bss @ bs) + (0 + n)) ((concat bss @ bs) @ [] @ rd) ([] @ [] @ wr) Q"
proof (rule finishes_bind [OF expect_or_enqueue_finishes [OF assms(1-5)]])
  fix b1 :: "'t mini_broker"
  assume b1: "mb_pending b1 = mb_pending b @ ps" "inp (mb_transport b) = (concat bss @ bs) @ inp (mb_transport b1)"
  show "finishes mb_transport (bl_bind (bl_assert (ok r) msg) (\<lambda>_. k)) b1 a (0 + n) ([] @ rd) ([] @ wr) Q"
    by (rule finishes_bind [OF finishes_assert]) (use b1 assms(5,6) in \<open>auto intro!: k\<close>)
qed

lemma recv_message_qos2:
  fixes b :: "'t mini_broker"
  assumes "broker_frame bs (IB_Publish msg)" and q: "flags_qos (pi_flags (publish_info msg)) = (Inr ExactlyOnce :: (io_error, qos) result)"
    and i: "pi_packet_id (publish_info msg) = i"
    and rec: "make_packet pub_rec_impl (simple_new i) = Inr rec" and cmp: "make_packet pub_comp_impl (simple_new i) = Inr cmp"
    and others: "list_all2 broker_frame bss ps" "\<forall>p \<in> set ps. as_pub_rel p = None"
    and rel: "broker_frame rel (IB_PubRel (simple_new i))"
    and "mb_pending b = []" and "inp (mb_transport b) = bs @ concat bss @ rel @ rest"
  shows "finishes mb_transport (recv_message T) b msg
    (length bs + (0 + ((length rec + (length (concat bss @ rel) + (0 + length cmp))) + 0)))
    (bs @ [] @ ([] @ (concat bss @ rel) @ [] @ []) @ []) ([] @ [] @ (rec @ [] @ [] @ cmp) @ []) (\<lambda>b'. mb_pending b' = ps)"
  unfolding recv_message_def Let_def
proof (rule finishes_bind [OF expect_finishes [OF assms(1,10,9), of as_publish msg]], goal_cases)
  case (2 b1)
  then have b1: "mb_pending b1 = []" "inp (mb_transport b1) = concat bss @ rel @ rest" using assms(10) by simp_all
  show ?case
    unfolding q i
  proof (rule finishes_bind [OF finishes_result], goal_cases)
    case (1 b2)
    have "finishes mb_transport (bl_bind (broker_send T pub_rec_impl (simple_new i)) (\<lambda>_.
          bl_bind (expect_or_enqueue T as_pub_rel) (\<lambda>rel.
          bl_bind (bl_assert (sp_packet_id rel = i) ''assertion failed: left == right'') (\<lambda>_.
          broker_send T pub_comp_impl (simple_new i))))) b2 ()
        (length rec + (length (concat bss @ rel) + (0 + length cmp))) ([] @ (concat bss @ rel) @ [] @ [])
        (rec @ [] @ [] @ cmp) (\<lambda>b'. mb_pending b' = ps)"
    proof (rule finishes_bind [OF broker_send_finishes [OF rec]], goal_cases)
      case (1 b3)
      then have "mb_pending b3 = []" "inp (mb_transport b3) = concat bss @ rel @ rest"
        using \<open>b2 = b1\<close> b1 by simp_all
      then show ?case
        by (intro expected_finishes [OF others rel])
          (use broker_send_finishes [OF cmp] in \<open>auto simp: simple_new_def elim!: finishes_weaken\<close>)
    qed
    moreover have "(if ExactlyOnce = AtLeastOnce then x else if ExactlyOnce = ExactlyOnce then y else z) = y"
      for x y z :: "('t mini_broker, unit) blocking"
      by simp
    ultimately show ?case
      by (simp only:) (rule finishes_bind, assumption, rule finishes_return)
  qed
qed simp

lemma send_message_qos2:
  fixes b :: "'t mini_broker"
  assumes pub: "make_packet publish_impl msg = Inr bs"
    and q: "flags_qos (op_flags msg) = (Inr ExactlyOnce :: (io_error, qos) result)"
    and rec: "broker_frame rec (IB_PubRec (simple_new (op_packet_id msg)))"
    and rel: "make_packet pub_rel_impl (simple_new (op_packet_id msg)) = Inr rel"
    and cmp: "broker_frame cmp (IB_PubComp (simple_new (op_packet_id msg)))"
    and others1: "list_all2 broker_frame bss1 ps1" "\<forall>p \<in> set ps1. as_pub_rec p = None"
    and others2: "list_all2 broker_frame bss2 ps2" "\<forall>p \<in> set ps2. as_pub_comp p = None"
    and inp: "inp (mb_transport b) = concat bss1 @ rec @ concat bss2 @ cmp @ rest"
  shows "finishes mb_transport (send_message T msg) b ()
    (length bs + (0 + (length (concat bss1 @ rec) + (0 + (length rel + (length (concat bss2 @ cmp) + 0))))))
    ([] @ [] @ (concat bss1 @ rec) @ [] @ [] @ (concat bss2 @ cmp) @ []) (bs @ [] @ [] @ [] @ rel @ [] @ [])
    (\<lambda>b'. mb_pending b' = mb_pending b @ ps1 @ ps2)"
  unfolding send_message_def
proof (rule finishes_bind [OF broker_send_finishes [OF pub]], goal_cases)
  case (1 b1)
  then have b1: "mb_pending b1 = mb_pending b" "inp (mb_transport b1) = concat bss1 @ rec @ concat bss2 @ cmp @ rest"
    using inp by simp_all
  have choice: "(if ExactlyOnce = AtLeastOnce then x else if ExactlyOnce = ExactlyOnce then y else z) = y"
    for x y z :: "('t mini_broker, unit) blocking"
    by simp
  show ?case
    unfolding q
  proof (rule finishes_bind [OF finishes_result], unfold choice,
      rule expected_finishes [OF others1 rec, where rest = "concat bss2 @ cmp @ rest" and r = "simple_new (op_packet_id msg)"],
      goal_cases)
    case (4 b2 b3)
    show ?case
    proof (rule finishes_bind [OF broker_send_finishes [OF rel]], goal_cases)
      case (1 b4)
      then have "inp (mb_transport b4) = concat bss2 @ cmp @ rest" "mb_pending b4 = mb_pending b @ ps1"
        using 4 b1 by simp_all
      then show ?case
        by (intro finishes_bind [OF expect_or_enqueue_finishes [OF others2 cmp]])
          (auto simp: simple_new_def intro: finishes_weaken [OF finishes_assert])
    qed
  qed (use b1 in \<open>simp_all add: simple_new_def\<close>)
qed

end

section \<open>Frames\<close>

lemma make_packet_arc: "make_packet P p = make_arc_packet P p"
  by (simp add: make_packet_def make_arc_packet_def)

text \<open>Bytes of one packet, which the client reads as \<open>x\<close> and the broker as \<open>y\<close>.\<close>

definition framed :: "u8 list \<Rightarrow> incoming_packet \<Rightarrow> incoming_broker_packet \<Rightarrow> bool" where
  "framed bs x y = (bs \<noteq> [] \<and> (\<forall>s. parses (bs @ s) [x] s) \<and> broker_frame bs y)"

lemma framedI:
  assumes "bs = fixed_header ty fl (length body) @ body" and "length body < 2 ^ 28" and "length bs \<le> 128000000"
    and "from_bytes body (ControlField (control_byte ty fl)) = Inr (x, [])"
    and "broker_from_bytes body (ControlField (control_byte ty fl)) = Inr (y, [])"
  shows "framed bs x y"
proof -
  have sp: "split_frame (bs @ s) = Some (control_byte ty fl, body, s)" for s
    using split_frame_encoded [OF assms(2), of ty fl s] assms(1) by simp
  have "bs \<noteq> []" "length body \<le> length bs" using assms(1) by (auto simp: fixed_header_def)
  with sp [of "[]"] parses_Cons [OF sp assms(4) parses_Nil] assms(3,5) show ?thesis
    by (simp add: framed_def broker_frame_def)
qed

lemma framed_two:
  assumes "framed bs1 x1 y1" and "framed bs2 x2 y2"
  shows "parses (bs1 @ bs2) [x1, x2] []"
proof -
  have "parses (bs1 @ bs2) [x1] bs2" using assms(1) by (simp add: framed_def)
  moreover have "parses (bs2 @ []) [x2] []" using assms(2) unfolding framed_def by blast
  ultimately show ?thesis using parses_append by fastforce
qed

lemma framed_frame: "framed bs x y \<Longrightarrow> broker_frame bs y" "framed bs x y \<Longrightarrow> bs \<noteq> []"
  by (simp_all add: framed_def)

lemma publish_framed:
  assumes "sendable m" and "make_arc_packet publish_impl (outgoing m) = Inr bs" and "length bs \<le> 128000000"
    and "received m = IP_Publish msg"
  shows "framed bs (IP_Publish msg) (IB_Publish msg)"
proof (rule framedI [OF _ _ assms(3)])
  let ?f = "publish_flags_new (m_dup m) (m_qos m) (m_retain m)"
  show l: "length (publish_body (outgoing m)) < 2 ^ 28"
    using assms(1) by (auto simp: sendable_def publish_body_def outgoing_def)
  have "publish_wf (outgoing m)"
    using assms(1) by (simp add: publish_wf_def outgoing_def sendable_def publish_flags_new_ok)
  then show "bs = fixed_header PT_Publish (pf_byte ?f) (length (publish_body (outgoing m))) @ publish_body (outgoing m)"
    using assms(2) publish.make_arc_packet_ok [OF _ l] by (simp add: publish_impl_def outgoing_def)
  have "publish_decode (publish_body (outgoing m)) (ControlField (control_byte PT_Publish (pf_byte ?f))) = Inr (msg, [])"
    using publish_decode_body [of "m_topic m" ?f, OF _ _ refl, of "m_packet_id m" "m_payload m"] assms(1,4)
    by (simp add: sendable_def received_def outgoing_def)
  then show "from_bytes (publish_body (outgoing m)) (ControlField (control_byte PT_Publish (pf_byte ?f))) = Inr (IP_Publish msg, [])"
    "broker_from_bytes (publish_body (outgoing m)) (ControlField (control_byte PT_Publish (pf_byte ?f))) = Inr (IB_Publish msg, [])"
    by (simp_all add: from_bytes_def broker_from_bytes_def publish_flags_new_ok read_map_def Let_def)
qed

text \<open>The packets of four bytes with which messages of quality of service 2 are answered.\<close>

lemma answers_framed:
  obtains rec rel cmp where
    "make_arc_packet pub_rec_impl (simple_new i) = Inr rec" "length rec = 4"
    "framed rec (IP_PubRec (simple_new i)) (IB_PubRec (simple_new i))"
    "make_arc_packet pub_rel_impl (simple_new i) = Inr rel" "length rel = 4"
    "framed rel (IP_PubRel (simple_new i)) (IB_PubRel (simple_new i))"
    "make_arc_packet pub_comp_impl (simple_new i) = Inr cmp" "length cmp = 4"
    "framed cmp (IP_PubComp (simple_new i)) (IB_PubComp (simple_new i))"
proof -
  let ?b = "simple_body (simple_new i)"
  let ?f = "\<lambda>ty fl. fixed_header ty fl (length ?b) @ ?b"
  have l: "length ?b = 2" by (simp add: simple_body_def)
  have f: "length (?f ty fl) = 4" for ty fl
    by (simp add: l fixed_header_def size_bytes.simps)
  have m: "make_arc_packet pub_rec_impl (simple_new i) = Inr (?f PT_PubRec 0)"
    "make_arc_packet pub_rel_impl (simple_new i) = Inr (?f PT_PubRel 2)"
    "make_arc_packet pub_comp_impl (simple_new i) = Inr (?f PT_PubComp 0)"
    by (simp_all add: l pub_rec.make_arc_packet_ok pub_comp.make_arc_packet_ok pub_rel.make_arc_packet_ok,
        simp_all add: pub_rec_impl_def pub_comp_impl_def pub_rel_impl_def def_simple_packet_def)
  have d: "from_bytes ?b (ControlField (control_byte PT_PubRec 0)) = Inr (IP_PubRec (simple_new i), [])"
    "from_bytes ?b (ControlField (control_byte PT_PubRel 2)) = Inr (IP_PubRel (simple_new i), [])"
    "from_bytes ?b (ControlField (control_byte PT_PubComp 0)) = Inr (IP_PubComp (simple_new i), [])"
    "broker_from_bytes ?b (ControlField (control_byte PT_PubRec 0)) = Inr (IB_PubRec (simple_new i), [])"
    "broker_from_bytes ?b (ControlField (control_byte PT_PubRel 2)) = Inr (IB_PubRel (simple_new i), [])"
    "broker_from_bytes ?b (ControlField (control_byte PT_PubComp 0)) = Inr (IB_PubComp (simple_new i), [])"
    by (simp_all add: from_bytes_def broker_from_bytes_def simple_decode_body read_map_def Let_def)
  have s: "length ?b < 2 ^ 28" "length (?f ty fl) \<le> 128000000" for ty fl
    by (simp_all add: l) (simp add: fixed_header_def size_bytes.simps)
  note fr = framedI [OF refl s]
  show ?thesis by (rule that [OF m(1) f fr [OF d(1,4)] m(2) f fr [OF d(2,5)] m(3) f fr [OF d(3,6)]])
qed

section \<open>The client\<close>

context connection
begin

lemma with_timeout_wire:
  assumes "p \<noteq> []" and "outbox_inv t" and "pending_packets t i = None"
    and "queue_internal_packet_with_timeout E p i t = (Inr (), t')"
  shows "outbox_inv t' \<and> wire out t' = wire out t @ p"
proof -
  obtain t1 where q: "queue_internal_packet E p False t1 = (Inr (), t')"
    and t1: "outbox_inv t1" "wire out t1 = wire out t"
    using assms(2-4)
    by (auto simp: queue_internal_packet_with_timeout_def act_bind_eq_Inr act_simps timeout_now_def
        push_timeout_def instant_now_def outbox_inv_def wire_def)
  show ?thesis
    by (rule queue_internal_packet_cases [OF assms(1) t1(1) q]) (use t1(2) in \<open>auto simp: render_def\<close>)
qed

lemma acknowledged_wire:
  assumes "acknowledged st i t = (r, t')"
  shows "wire out t' = wire out t \<and> pending_packets t' = (pending_packets t)(awaited st i := None) \<and>
    connected t' = connected t"
  using assms
  by (auto simp: acknowledged_def act_bind_def clear_packet_timeout_def notify_stage_def wire_def connected_def
      remove_notifier_def wake_def act_return_def Let_def split: if_splits)

lemma pub_rec_sends_rel:
  assumes "connected t" and "outbox_inv t" and "pending_packets t (id_pub_rel i) = None"
    and "make_arc_packet pub_rel_impl (simple_new i) = Inr rel" and "rel \<noteq> []"
    and "process_packet E (ack_packet StRec i) t = (Inr b, t')"
  shows "wire out t' = wire out t @ rel \<and> connected t' \<and>
    pending_packets t' = (pending_packets t)(id_pub_rel i \<mapsto> rel, id_publish i := None)"
proof -
  have "act_bind (queue_internal_packet_with_timeout E rel (id_pub_rel i)) (\<lambda>_. acknowledged StRec i) t = (Inr b, t')"
    using assms
    by (simp add: process_packet_def connected_def process_pub_rec_def Let_def acknowledged_def
        act_bind_assoc act_bind_get cong: if_cong) (simp add: act_bind_def lift_res_def)
  then obtain t1 where w: "queue_internal_packet_with_timeout E rel (id_pub_rel i) t = (Inr (), t1)"
    and a: "acknowledged StRec i t1 = (Inr b, t')"
    by (auto simp: act_bind_eq_Inr)
  from with_timeout_wire [OF assms(5,2,3) w] with_timeout_fields [OF w assms(3)] acknowledged_wire [OF a] assms(1)
  show ?thesis by (simp add: connected_def)
qed

lemma qos2_client_side:
  assumes "connected t" and "outbox_inv t" and "pending_packets t (id_publish i) = None"
    and "pending_packets t (id_pub_rel i) = None" and "pkt \<noteq> []"
    and "make_arc_packet pub_rel_impl (simple_new i) = Inr rel" and "rel \<noteq> []"
    and "command_ready E (Some (CmdPublish \<lparr>pc_packet_id = i, pc_qos = ExactlyOnce, pc_packet = pkt\<rparr>)) t = (Inr x, t1)"
    and "receive_all E (acknowledgements StComp i) t1 = Some t2"
  shows "wire out t2 = wire out t @ pkt @ rel \<and> pending_packets t2 (id_publish i) = None \<and>
    pending_packets t2 (id_pub_rel i) = None"
proof -
  have w: "queue_internal_packet_with_timeout E pkt (id_publish i) t = (Inr (), t1)"
    using assms(8) by (auto simp: command_publish_def act_bind_eq_Inr act_return_def)
  note t1 = with_timeout_wire [OF assms(5,2,3) w] with_timeout_fields [OF w assms(3)]
  have c1: "connected t1" "pending_packets t1 (id_pub_rel i) = None"
    using t1 assms(1,4) by (simp_all add: connected_def id_type_defs)
  obtain t' where p: "process_packet E (ack_packet StRec i) t1 = (Inr False, t')"
      "process_packet E (ack_packet StComp i) t' = (Inr False, t2)"
    using assms(9) by (auto split: prod.splits sum.splits bool.splits simp del: ack_packet.simps)
  note t' = pub_rec_sends_rel [OF c1(1) conjunct1 [OF t1(1)] c1(2) assms(6,7) p(1)]
  have "acknowledged StComp i t' = (Inr False, t2)"
    using p(2) t' by (simp add: process_packet_def connected_def process_pub_comp_def acknowledged_def cong: if_cong)
  from acknowledged_wire [OF this] t' t1 show ?thesis by (simp add: id_type_defs)
qed

lemma qos2_message_answered:
  assumes "is_qos2_copy i (IP_Publish msg)" and "connected t" and "outbox_inv t"
    and "pending_packets t (id_pub_rec i) = None" and "make_arc_packet pub_rec_impl (simple_new i) = Inr rec"
    and "rec \<noteq> []" and "process_packet E (IP_Publish msg) t = (Inr b, t')"
  shows "outbox_inv t' \<and> wire out t' = wire out t @ rec"
proof -
  have id: "pi_packet_id (publish_info msg) = i"
    and q: "flags_qos (pi_flags (publish_info msg)) = (Inr ExactlyOnce :: (io_error, qos) result)"
    using assms(1) by (simp_all add: is_qos2_copy_def)
  have "act_bind (queue_internal_packet_with_timeout E rec (id_pub_rec i))
      (\<lambda>_. act_bind (dispatch_message E msg) (\<lambda>_. act_return False)) t = (Inr b, t')"
    using assms(2,4,5,7) id q
    by (auto simp: process_packet_def connected_def process_publish_def Let_def act_bind_def lift_res_def
        act_get_def split: prod.splits sum.splits)
  then obtain t1 where w: "queue_internal_packet_with_timeout E rec (id_pub_rec i) t = (Inr (), t1)"
    and d: "dispatch_message E msg t1 = (Inr (), t')"
    by (auto simp: act_bind_eq_Inr act_return_def)
  from with_timeout_wire [OF assms(6,3,4) w] d show ?thesis
    by (auto simp: dispatch_message_def outbox_inv_def wire_def split: prod.splits)
qed

lemma release_answered:
  assumes "connected t" and "outbox_inv t" and "make_arc_packet pub_comp_impl (simple_new i) = Inr cmp" and "cmp \<noteq> []"
    and "process_packet E (IP_PubRel \<lparr>sp_packet_id = i\<rparr>) t = (Inr b, t')"
  shows "wire out t' = wire out t @ cmp"
proof -
  let ?t = "t\<lparr>pending_packets := (pending_packets t)(id_pub_rec i := None)\<rparr>"
  have q: "queue_internal_packet E cmp False ?t = (Inr (), t')"
    using assms(1,3,5)
    by (auto simp: process_packet_def connected_def process_pub_rel_def act_bind_def lift_res_def act_return_def
        clear_packet_timeout_def split: prod.splits sum.splits)
  have t: "outbox_inv ?t" "wire out ?t = wire out t" using assms(2) by (simp_all add: outbox_inv_def wire_def)
  show ?thesis
    by (rule queue_internal_packet_cases [OF assms(4) t(1) q]) (simp_all add: t(2) render_def)
qed

lemma qos2_receiver_side:
  assumes "is_qos2_copy i (IP_Publish msg)" and "connected t" and "outbox_inv t" and "pending_packets t (id_pub_rec i) = None"
    and "make_arc_packet pub_rec_impl (simple_new i) = Inr rec" and "rec \<noteq> []"
    and "make_arc_packet pub_comp_impl (simple_new i) = Inr cmp" and "cmp \<noteq> []"
    and "receive_all E [IP_Publish msg, IP_PubRel \<lparr>sp_packet_id = i\<rparr>] t = Some t2"
  shows "wire out t2 = wire out t @ rec @ cmp \<and> pending_packets t2 (id_pub_rec i) = None \<and>
    set_dispatch (en_sinks E) msg (subscriptions t) (world t)
      = ((Inr () :: (io_error, unit) result), subscriptions t2, world t2)"
proof -
  obtain t1 where p: "process_packet E (IP_Publish msg) t = (Inr False, t1)"
      "process_packet E (IP_PubRel \<lparr>sp_packet_id = i\<rparr>) t1 = (Inr False, t2)"
    using assms(9) by (auto split: prod.splits sum.splits bool.splits)
  note first = qos2_first_copy [OF assms(1,2,4) p(1)] qos2_message_answered [OF assms(1-6) p(1)]
  have c: "connected t1" "outbox_inv t1" using first by simp_all
  from release_answered [OF c assms(7,8) p(2)] pub_rel_ends [OF c(1) p(2)] first show ?thesis by simp
qed

end

section \<open>The exchange\<close>

text \<open>
  C5. A message with quality of service 2 goes through all its stages: when the client takes the
  publish command and receives PUBREC and PUBCOMP, the bytes it has submitted meanwhile make
  the test broker return the message once, leave nothing unprocessed, and answer with
  exactly this PUBREC and PUBCOMP; and the client has nothing left to send again.
\<close>

theorem qos2_exchange:
  assumes "transport_contract (en_transport E) c_inp c_out" and "responsive T inp out patience"
    and "sendable m" and "m_qos m = ExactlyOnce" and "make_arc_packet publish_impl (outgoing m) = Inr pkt"
    and "length pkt \<le> 128000000"
    and "connected t" and "outbox_inv t" and "pending_packets t (id_publish (m_packet_id m)) = None"
    and "pending_packets t (id_pub_rel (m_packet_id m)) = None"
    and "command_ready E (Some (CmdPublish \<lparr>pc_packet_id = m_packet_id m, pc_qos = m_qos m, pc_packet = pkt\<rparr>)) t
      = (Inr WantContinue, t1)"
    and "receive_all E (acknowledgements StComp (m_packet_id m)) t1 = Some t2"
    and "mb_pending b = []" and "wire c_out t2 = wire c_out t @ inp (mb_transport b)"
    and "calm evs" and "length (inp (mb_transport b)) + 8 + patience (mb_transport b) \<le> ticks evs"
  shows "\<exists>msg b' evs' s. recv_message T evs b = (Finished (Inr msg), b', evs') \<and> received m = IP_Publish msg \<and>
    mini_broker_drop b' = Inr () \<and> inp (mb_transport b') = [] \<and> out (mb_transport b') = out (mb_transport b) @ s \<and>
    parses s (acknowledgements StComp (m_packet_id m)) [] \<and>
    pending_packets t2 (id_publish (m_packet_id m)) = None \<and> pending_packets t2 (id_pub_rel (m_packet_id m)) = None"
proof -
  let ?i = "m_packet_id m"
  obtain rec rel cmp where p:
    "make_arc_packet pub_rec_impl (simple_new ?i) = Inr rec" "length rec = 4"
    "framed rec (IP_PubRec (simple_new ?i)) (IB_PubRec (simple_new ?i))"
    "make_arc_packet pub_rel_impl (simple_new ?i) = Inr rel" "length rel = 4"
    "framed rel (IP_PubRel (simple_new ?i)) (IB_PubRel (simple_new ?i))"
    "make_arc_packet pub_comp_impl (simple_new ?i) = Inr cmp" "length cmp = 4"
    "framed cmp (IP_PubComp (simple_new ?i)) (IB_PubComp (simple_new ?i))"
    by (rule answers_framed)
  obtain msg where msg: "received m = IP_Publish msg" by (simp add: received_def)
  then have info: "flags_qos (pi_flags (publish_info msg)) = (Inr ExactlyOnce :: (io_error, qos) result)"
    "pi_packet_id (publish_info msg) = ?i"
    using assms(4) by (auto simp: received_def message_of_def publish_info_def publish_flags_new_ok)
  note f = framed_frame [OF publish_framed [OF assms(3,5,6) msg]]
  have co: "connection E c_inp c_out" using assms(1) by (simp add: connection_def)
  note t2 = connection.qos2_client_side [OF co assms(7-10) f(2) p(4) framed_frame(2) [OF p(6)] assms(11) [unfolded assms(4)] assms(12)]
  have i: "inp (mb_transport b) = pkt @ concat [] @ rel @ []" using t2 assms(14) by simp
  have parsed: "parses (rec @ cmp) (acknowledgements StComp ?i) []"
    using framed_two [OF p(3,9)] by (simp add: simple_new_def)
  have budget: "length pkt + (0 + ((length rec + (length (concat [] @ rel) + (0 + length cmp))) + 0)) + patience (mb_transport b)
      \<le> ticks evs"
    using assms(16) i p(2,8) by simp
  show ?thesis
    by (rule responsive.finishesE [OF assms(2) responsive.recv_message_qos2
          [OF assms(2) f(1) info p(1,7) [folded make_packet_arc] list_all2_Nil [THEN iffD2, OF refl] _
            framed_frame(1) [OF p(6)] assms(13) i] assms(15) budget])
      (use msg parsed t2 i in \<open>auto simp: mini_broker_drop_def\<close>)
qed

theorem qos2_exchange_witness:
  "\<exists>msg b' evs'. recv_message (tcp_transport_ops script_tcp) (replicate 30 TimerTick)
       (mini_broker_new (broker_link [Some [0x34, 6, 0, 1, 97, 0, 1], None, Some [5, 0x62, 2, 0, 1]])) = (Finished (Inr msg), b', evs') \<and>
     publish_payload msg = (Inr [5] :: (io_error, u8 list) result) \<and> mini_broker_drop b' = Inr ()"
proof -
  let ?m = "\<lparr>m_dup = False, m_qos = ExactlyOnce, m_retain = False, m_topic = str_bytes ''a'', m_packet_id = 1, m_payload = [5]\<rparr>"
  let ?pkt = "[0x34, 6, 0, 1, 97, 0, 1, 5]"
  let ?b = "mini_broker_new (broker_link [Some [0x34, 6, 0, 1, 97, 0, 1], None, Some [5, 0x62, 2, 0, 1]])"
  let ?cmd = "CmdPublish \<lparr>pc_packet_id = m_packet_id ?m, pc_qos = m_qos ?m, pc_packet = ?pkt\<rparr>"
  have m: "sendable ?m" "m_qos ?m = ExactlyOnce" "make_arc_packet publish_impl (outgoing ?m) = Inr ?pkt"
    "length ?pkt \<le> 128000000"
    by code_simp+
  have t: "connected (online [])" "outbox_inv (online [])"
    "pending_packets (online []) (id_publish (m_packet_id ?m)) = None"
    "pending_packets (online []) (id_pub_rel (m_packet_id ?m)) = None"
    by code_simp+
  have "fst (command_ready script_env (Some ?cmd) (online [])) = Inr WantContinue \<and>
      map_option (wire (\<lambda>t. sc_out (tcp t))) (receive_all script_env (acknowledgements StComp (m_packet_id ?m))
        (snd (command_ready script_env (Some ?cmd) (online []))))
      = Some (wire (\<lambda>t. sc_out (tcp t)) (online []) @ script_inp (tcp (mb_transport ?b)))"
    by code_simp
  then obtain t1 t2 where c: "command_ready script_env (Some ?cmd) (online []) = (Inr WantContinue, t1)"
    and r: "receive_all script_env (acknowledgements StComp (m_packet_id ?m)) t1 = Some t2"
    and w: "wire (\<lambda>t. sc_out (tcp t)) t2 = wire (\<lambda>t. sc_out (tcp t)) (online []) @ script_inp (tcp (mb_transport ?b))"
    by (cases "command_ready script_env (Some ?cmd) (online [])") auto
  have b: "mb_pending ?b = []" "calm (replicate 30 TimerTick)"
    "length (script_inp (tcp (mb_transport ?b))) + 8 + script_pauses (tcp (mb_transport ?b)) \<le> ticks (replicate 30 TimerTick)"
    by code_simp+
  from qos2_exchange [OF scripted_client.transport_contract_axioms scripted_broker.responsive_axioms m t c r b(1) w b(2,3)]
  obtain msg b' evs' where 1: "recv_message (tcp_transport_ops script_tcp) (replicate 30 TimerTick) ?b = (Finished (Inr msg), b', evs')"
    "received ?m = IP_Publish msg" "mini_broker_drop b' = Inr ()"
    by blast
  moreover have "publish_payload msg = (Inr [5] :: (io_error, u8 list) result)"
    using 1(2) by (auto simp: received_def) code_simp
  ultimately show ?thesis by blast
qed

text \<open>
  C6. In the other direction as well: when the client receives a message with quality of service 2
  and its PUBREL packet, the message is handed to the subscriptions once, the test broker, given
  the bytes that the client has submitted meanwhile, sends exactly this message and PUBREL, and
  its \<open>send_message\<close> returns without a failed assertion and with nothing unprocessed.
\<close>

theorem qos2_delivery:
  assumes "transport_contract (en_transport E) c_inp c_out" and "responsive T inp out patience"
    and "sendable m" and "m_qos m = ExactlyOnce" and "make_arc_packet publish_impl (outgoing m) = Inr pkt"
    and "length pkt \<le> 128000000" and "received m = IP_Publish msg"
    and "connected t" and "outbox_inv t" and "pending_packets t (id_pub_rec (m_packet_id m)) = None"
    and "receive_all E [IP_Publish msg, IP_PubRel \<lparr>sp_packet_id = m_packet_id m\<rparr>] t = Some t2"
    and "mb_pending b = []" and "wire c_out t2 = wire c_out t @ inp (mb_transport b)"
    and "calm evs" and "length pkt + 4 + length (inp (mb_transport b)) + patience (mb_transport b) \<le> ticks evs"
  shows "set_dispatch (en_sinks E) msg (subscriptions t) (world t)
      = ((Inr () :: (io_error, unit) result), subscriptions t2, world t2) \<and>
    (\<exists>b' evs' s. send_message T (outgoing m) evs b = (Finished (Inr ()), b', evs') \<and>
       mini_broker_drop b' = Inr () \<and> inp (mb_transport b') = [] \<and> out (mb_transport b') = out (mb_transport b) @ s \<and>
       parses s [IP_Publish msg, IP_PubRel \<lparr>sp_packet_id = m_packet_id m\<rparr>] [])"
proof -
  let ?i = "m_packet_id m"
  obtain rec rel cmp where p:
    "make_arc_packet pub_rec_impl (simple_new ?i) = Inr rec" "length rec = 4"
    "framed rec (IP_PubRec (simple_new ?i)) (IB_PubRec (simple_new ?i))"
    "make_arc_packet pub_rel_impl (simple_new ?i) = Inr rel" "length rel = 4"
    "framed rel (IP_PubRel (simple_new ?i)) (IB_PubRel (simple_new ?i))"
    "make_arc_packet pub_comp_impl (simple_new ?i) = Inr cmp" "length cmp = 4"
    "framed cmp (IP_PubComp (simple_new ?i)) (IB_PubComp (simple_new ?i))"
    by (rule answers_framed)
  have copy: "is_qos2_copy ?i (IP_Publish msg)"
    using assms(4,7) by (auto simp: is_qos2_copy_def received_def message_of_def publish_info_def publish_flags_new_ok)
  have o: "flags_qos (op_flags (outgoing m)) = (Inr ExactlyOnce :: (io_error, qos) result)" "op_packet_id (outgoing m) = ?i"
    using assms(4) by (simp_all add: outgoing_def publish_flags_new_ok)
  have co: "connection E c_inp c_out" using assms(1) by (simp add: connection_def)
  note t2 = connection.qos2_receiver_side
    [OF co copy assms(8-10) p(1) framed_frame(2) [OF p(3)] p(7) framed_frame(2) [OF p(9)] assms(11)]
  have i: "inp (mb_transport b) = concat [] @ rec @ concat [] @ cmp @ []" using t2 assms(13) by simp
  have parsed: "parses (pkt @ rel) [IP_Publish msg, IP_PubRel \<lparr>sp_packet_id = ?i\<rparr>] []"
    using framed_two [OF publish_framed [OF assms(3,5-7)] p(6)] by (simp add: simple_new_def)
  have budget: "length pkt + (0 + (length (concat [] @ rec) + (0 + (length rel + (length (concat [] @ cmp) + 0)))))
      + patience (mb_transport b) \<le> ticks evs"
    using assms(15) i p(2,5,8) by simp
  note none = list_all2_Nil [THEN iffD2, OF refl]
  have "\<exists>b' evs' s. send_message T (outgoing m) evs b = (Finished (Inr ()), b', evs') \<and>
       mini_broker_drop b' = Inr () \<and> inp (mb_transport b') = [] \<and> out (mb_transport b') = out (mb_transport b) @ s \<and>
       parses s [IP_Publish msg, IP_PubRel \<lparr>sp_packet_id = ?i\<rparr>] []"
    by (rule responsive.finishesE [OF assms(2) responsive.send_message_qos2 [OF assms(2) assms(5) [folded make_packet_arc] o(1),
            unfolded o(2), OF framed_frame(1) [OF p(3)] p(4) [folded make_packet_arc] framed_frame(1) [OF p(9)] none _ none _ i]
          assms(14) budget])
      (use parsed assms(12) i in \<open>auto simp: mini_broker_drop_def\<close>)
  with t2 show ?thesis by simp
qed

theorem qos2_delivery_witness:
  "\<exists>t2 b' evs'. receive_all script_env [IP_Publish (qos2_message False), IP_PubRel \<lparr>sp_packet_id = 7\<rparr>] (online []) = Some t2 \<and>
     world t2 = [(3, qos2_message False)] \<and>
     send_message (tcp_transport_ops script_tcp)
       \<lparr>op_flags = publish_flags_new False ExactlyOnce False, op_topic = str_bytes ''a'', op_packet_id = 7, op_payload = [5]\<rparr>
       (replicate 30 TimerTick) (mini_broker_new (broker_link [Some [0x50, 2, 0], None, Some [7, 0x70], Some [2, 0, 7]]))
       = (Finished (Inr ()), b', evs') \<and>
     mini_broker_drop b' = Inr ()"
proof -
  let ?m = "\<lparr>m_dup = False, m_qos = ExactlyOnce, m_retain = False, m_topic = str_bytes ''a'', m_packet_id = 7, m_payload = [5]\<rparr>"
  let ?pkt = "[0x34, 6, 0, 1, 97, 0, 7, 5]"
  let ?b = "mini_broker_new (broker_link [Some [0x50, 2, 0], None, Some [7, 0x70], Some [2, 0, 7]])"
  let ?ps = "[IP_Publish (qos2_message False), IP_PubRel \<lparr>sp_packet_id = m_packet_id ?m\<rparr>]"
  have m: "sendable ?m" "m_qos ?m = ExactlyOnce" "make_arc_packet publish_impl (outgoing ?m) = Inr ?pkt"
    "length ?pkt \<le> 128000000" "received ?m = IP_Publish (qos2_message False)"
    by code_simp+
  have t: "connected (online [])" "outbox_inv (online [])"
    "pending_packets (online []) (id_pub_rec (m_packet_id ?m)) = None"
    by code_simp+
  have "map_option (\<lambda>t. (wire (\<lambda>t. sc_out (tcp t)) t, world t)) (receive_all script_env ?ps (online []))
      = Some (wire (\<lambda>t. sc_out (tcp t)) (online []) @ script_inp (tcp (mb_transport ?b)), [(3, qos2_message False)])"
    by code_simp
  then obtain t2 where r: "receive_all script_env ?ps (online []) = Some t2"
    and w: "wire (\<lambda>t. sc_out (tcp t)) t2 = wire (\<lambda>t. sc_out (tcp t)) (online []) @ script_inp (tcp (mb_transport ?b))"
    and d: "world t2 = [(3, qos2_message False)]"
    by auto
  have b: "mb_pending ?b = []" "calm (replicate 30 TimerTick)"
    "length ?pkt + 4 + length (script_inp (tcp (mb_transport ?b))) + script_pauses (tcp (mb_transport ?b))
      \<le> ticks (replicate 30 TimerTick)"
    by code_simp+
  from qos2_delivery [OF scripted_client.transport_contract_axioms scripted_broker.responsive_axioms m t r b(1) w b(2,3)] r d
  show ?thesis by (auto simp: outgoing_def)
qed

end
